(* ===== verification/Prelude.thy ===== *)
theory Prelude
  imports Main "HOL-Library.Multiset" "HOL-Library.Product_Lexorder"
begin

text \<open>
  Shared vocabulary of the development.

  \<^item> \<open>hmap\<close>: the hash maps of the Rust code, as association lists.  The list order stands for
    the unspecified iteration order of \<open>std::collections::HashMap\<close>; keys are unique
    (\<open>hm_ok\<close>), which every operation keeps.
  \<^item> \<open>heap_push\<close>, \<open>heap_of\<close>: \<open>std::collections::BinaryHeap\<close> as a list with the greatest element
    first, so that \<open>peek\<close> and \<open>pop\<close> read the head; \<open>reverse\<close> is \<open>std::cmp::Reverse\<close>.
  \<^item> \<open>bts_insert\<close>: \<open>BTreeSet\<close> as a strictly ascending list.
  \<^item> \<open>transition_system\<close>: reachable states of a component and invariants by rule induction.
  Instants and durations are natural numbers of nanoseconds.
\<close>

named_theorems hmap_simps "lookup laws of the hash-map model"
named_theorems heap_simps "element and size laws of the heap model"

type_synonym instant = nat
type_synonym duration = nat

subsection \<open>Hash maps\<close>

type_synonym ('k, 'v) hmap = "('k \<times> 'v) list"

abbreviation hm_get :: "('k, 'v) hmap \<Rightarrow> 'k \<Rightarrow> 'v option" where
  "hm_get m k \<equiv> map_of m k"

abbreviation hm_has :: "('k, 'v) hmap \<Rightarrow> 'k \<Rightarrow> bool" where
  "hm_has m k \<equiv> map_of m k \<noteq> None"

fun hm_insert :: "'k \<Rightarrow> 'v \<Rightarrow> ('k, 'v) hmap \<Rightarrow> ('k, 'v) hmap" where
  "hm_insert k v [] = [(k, v)]"
| "hm_insert k v (p # m) = (if fst p = k then (k, v) # m else p # hm_insert k v m)"

definition hm_remove :: "'k \<Rightarrow> ('k, 'v) hmap \<Rightarrow> ('k, 'v) hmap" where
  "hm_remove k m = filter (\<lambda>p. fst p \<noteq> k) m"

text \<open>\<open>get_mut(k)\<close> followed by an in-place change.\<close>

definition hm_adjust :: "'k \<Rightarrow> ('v \<Rightarrow> 'v) \<Rightarrow> ('k, 'v) hmap \<Rightarrow> ('k, 'v) hmap" where
  "hm_adjust k f m = map (\<lambda>p. if fst p = k then (k, f (snd p)) else p) m"

definition hm_retain :: "('k \<Rightarrow> 'v \<Rightarrow> bool) \<Rightarrow> ('k, 'v) hmap \<Rightarrow> ('k, 'v) hmap" where
  "hm_retain P m = filter (\<lambda>p. P (fst p) (snd p)) m"

definition hm_map_values :: "('k \<Rightarrow> 'v \<Rightarrow> 'w) \<Rightarrow> ('k, 'v) hmap \<Rightarrow> ('k, 'w) hmap" where
  "hm_map_values f m = map (\<lambda>p. (fst p, f (fst p) (snd p))) m"

abbreviation hm_keys :: "('k, 'v) hmap \<Rightarrow> 'k list" where
  "hm_keys m \<equiv> map fst m"

abbreviation hm_values :: "('k, 'v) hmap \<Rightarrow> 'v list" where
  "hm_values m \<equiv> map snd m"

abbreviation hm_ok :: "('k, 'v) hmap \<Rightarrow> bool" where
  "hm_ok m \<equiv> distinct (map fst m)"

lemma hm_get_insert [simp, hmap_simps]:
  "hm_get (hm_insert k v m) k' = (if k' = k then Some v else hm_get m k')"
  by (induction m) auto

lemma hm_get_remove [simp, hmap_simps]:
  "hm_get (hm_remove k m) k' = (if k' = k then None else hm_get m k')"
  by (induction m) (auto simp: hm_remove_def)

lemma hm_get_adjust [simp, hmap_simps]:
  "hm_get (hm_adjust k f m) k' = (if k' = k then map_option f (hm_get m k) else hm_get m k')"
  by (induction m) (auto simp: hm_adjust_def)

lemma hm_get_map_values [simp, hmap_simps]:
  "hm_get (hm_map_values f m) k = map_option (f k) (hm_get m k)"
  by (induction m) (auto simp: hm_map_values_def)

lemma hm_get_retain:
  "hm_ok m \<Longrightarrow> hm_get (hm_retain P m) k
     = (case hm_get m k of None \<Rightarrow> None | Some v \<Rightarrow> if P k v then Some v else None)"
proof (induction m)
  case Nil
  then show ?case by (simp add: hm_retain_def)
next
  case (Cons p m)
  have "hm_get m (fst p) = None"
    using Cons.prems by (auto simp: map_of_eq_None_iff)
  moreover have "fst p \<notin> fst ` set (hm_retain P m)"
    using Cons.prems by (auto simp: hm_retain_def)
  then have "hm_get (hm_retain P m) (fst p) = None"
    by (simp add: map_of_eq_None_iff)
  ultimately show ?case
    using Cons by (cases p) (auto simp: hm_retain_def)
qed

lemma hm_keys_insert:
  "set (hm_keys (hm_insert k v m)) = insert k (set (hm_keys m))"
  by (induction m) auto

lemma hm_ok_insert [simp, hmap_simps]: "hm_ok m \<Longrightarrow> hm_ok (hm_insert k v m)"
proof (induction m)
  case (Cons p m)
  then show ?case using hm_keys_insert[of k v m] by auto
qed simp

lemma hm_ok_remove [simp, hmap_simps]: "hm_ok m \<Longrightarrow> hm_ok (hm_remove k m)"
  by (simp add: hm_remove_def distinct_map_filter)

lemma hm_ok_retain [simp, hmap_simps]: "hm_ok m \<Longrightarrow> hm_ok (hm_retain P m)"
  by (simp add: hm_retain_def distinct_map_filter)

lemma hm_keys_adjust [simp, hmap_simps]: "map fst (hm_adjust k f m) = map fst m"
  by (simp add: hm_adjust_def)

lemma hm_keys_map_values [simp, hmap_simps]: "map fst (hm_map_values f m) = map fst m"
  by (simp add: hm_map_values_def)

lemma length_hm_adjust [simp, hmap_simps]: "length (hm_adjust k f m) = length m"
  by (simp add: hm_adjust_def)

lemma length_hm_map_values [simp, hmap_simps]: "length (hm_map_values f m) = length m"
  by (simp add: hm_map_values_def)

lemma length_hm_insert [hmap_simps]:
  "length (hm_insert k v m) = (if hm_has m k then length m else Suc (length m))"
  by (induction m) auto

lemma length_hm_remove_le [hmap_simps]: "length (hm_remove k m) \<le> length m"
  by (simp add: hm_remove_def)

lemma length_hm_remove_less [hmap_simps]:
  "hm_get m k = Some v \<Longrightarrow> length (hm_remove k m) < length m"
  unfolding hm_remove_def using map_of_SomeD[of m k v]
  by (intro length_filter_less[of "(k, v)"]) auto

lemma hm_has_iff: "hm_has m k \<longleftrightarrow> k \<in> set (hm_keys m)"
  by (metis domIff dom_map_of_conv_image_fst set_map)

lemma hm_get_in_values: "hm_get m k = Some v \<Longrightarrow> v \<in> set (hm_values m)"
  by (auto dest!: map_of_SomeD simp: image_iff intro: bexI[of _ "(k, v)"])

lemma hm_values_ex: "hm_ok m \<Longrightarrow> v \<in> set (hm_values m) \<Longrightarrow> \<exists>k. hm_get m k = Some v"
  by (auto simp: image_iff intro: map_of_is_SomeI)

text \<open>
  The interface the components use of a map from keys to values, and what follows from its
  laws alone.
\<close>

locale finite_store =
  fixes lookup :: "'m \<Rightarrow> 'k \<Rightarrow> 'v option"
    and store :: "'k \<Rightarrow> 'v \<Rightarrow> 'm \<Rightarrow> 'm"
    and drop_key :: "'k \<Rightarrow> 'm \<Rightarrow> 'm"
    and entries :: "'m \<Rightarrow> nat"
    and wf :: "'m \<Rightarrow> bool"
  assumes lookup_store: "lookup (store k v m) k' = (if k' = k then Some v else lookup m k')"
    and lookup_drop: "lookup (drop_key k m) k' = (if k' = k then None else lookup m k')"
    and entries_store:
      "entries (store k v m) = (if lookup m k = None then Suc (entries m) else entries m)"
    and entries_drop: "wf m \<Longrightarrow>
      entries (drop_key k m) = (if lookup m k = None then entries m else entries m - 1)"
    and entries_pos: "lookup m k \<noteq> None \<Longrightarrow> 0 < entries m"
    and wf_store: "wf m \<Longrightarrow> wf (store k v m)"
    and wf_drop: "wf m \<Longrightarrow> wf (drop_key k m)"
begin

lemma drop_store_fresh:
  assumes "wf m" and "lookup m k = None"
  shows "entries (drop_key k (store k v m)) = entries m"
  using assms by (simp add: entries_drop wf_store lookup_store entries_store)

lemma replace_keeps_entries:
  assumes "wf m" and "lookup m k \<noteq> None" and "lookup m k' = None" and "k \<noteq> k'"
  shows "entries (store k' v (drop_key k m)) = entries m"
  using assms entries_pos[of m k] by (simp add: entries_drop entries_store lookup_drop)

lemma drop_less: "wf m \<Longrightarrow> lookup m k \<noteq> None \<Longrightarrow> entries (drop_key k m) < entries m"
  using entries_pos[of m k] by (simp add: entries_drop)

end

lemma length_hm_remove:
  "hm_ok m \<Longrightarrow> length (hm_remove k m) = (if hm_get m k = None then length m else length m - 1)"
proof (induction m)
  case Nil
  then show ?case by (simp add: hm_remove_def)
next
  case (Cons p m)
  then have IH: "length (hm_remove k m)
      = (if hm_get m k = None then length m else length m - 1)"
    and fresh: "fst p \<notin> set (hm_keys m)" by auto
  show ?case
  proof (cases "fst p = k")
    case True
    with fresh have "hm_get m k = None" by (simp add: map_of_eq_None_iff)
    with True IH show ?thesis by (simp add: hm_remove_def)
  next
    case False
    moreover have "hm_get m k \<noteq> None \<Longrightarrow> 0 < length m" by (cases m) auto
    ultimately show ?thesis using IH by (cases p) (auto simp: hm_remove_def)
  qed
qed

interpretation hm: finite_store map_of hm_insert hm_remove length "\<lambda>m. hm_ok m"
proof unfold_locales
  show "\<And>m k. hm_get m k \<noteq> None \<Longrightarrow> 0 < length m" by auto
qed (auto simp: length_hm_insert length_hm_remove)

subsection \<open>Binary heaps\<close>

text \<open>\<open>std::cmp::Reverse\<close>: the same values in the opposite order.\<close>

datatype 'a reverse = Reverse (the_rev: 'a)

instantiation reverse :: (linorder) linorder
begin

definition less_eq_reverse :: "'a reverse \<Rightarrow> 'a reverse \<Rightarrow> bool" where
  "less_eq_reverse x y \<longleftrightarrow> the_rev y \<le> the_rev x"

definition less_reverse :: "'a reverse \<Rightarrow> 'a reverse \<Rightarrow> bool" where
  "less_reverse x y \<longleftrightarrow> the_rev y < the_rev x"

instance
proof
  fix x y z :: "'a reverse"
  show "(x < y) = (x \<le> y \<and> \<not> y \<le> x)"
    by (auto simp: less_eq_reverse_def less_reverse_def)
  show "x \<le> x" by (simp add: less_eq_reverse_def)
  show "x \<le> y \<Longrightarrow> y \<le> z \<Longrightarrow> x \<le> z" by (auto simp: less_eq_reverse_def)
  show "x \<le> y \<Longrightarrow> y \<le> x \<Longrightarrow> x = y"
    by (auto simp: less_eq_reverse_def intro: reverse.expand)
  show "x \<le> y \<or> y \<le> x" by (auto simp: less_eq_reverse_def)
qed

end

fun heap_push :: "'a::linorder \<Rightarrow> 'a list \<Rightarrow> 'a list" where
  "heap_push x [] = [x]"
| "heap_push x (y # ys) = (if y \<le> x then x # y # ys else y # heap_push x ys)"

definition heap_of :: "'a::linorder list \<Rightarrow> 'a list" where
  "heap_of xs = foldr heap_push xs []"

abbreviation heap_ok :: "'a::linorder list \<Rightarrow> bool" where
  "heap_ok h \<equiv> sorted_wrt (\<ge>) h"

lemma mset_heap_push [simp, heap_simps]: "mset (heap_push x h) = add_mset x (mset h)"
  by (induction h) auto

lemma set_heap_push [simp, heap_simps]: "set (heap_push x h) = insert x (set h)"
  by (induction h) auto

lemma length_heap_push [simp, heap_simps]: "length (heap_push x h) = Suc (length h)"
  by (induction h) auto

lemma sum_list_heap_push:
  fixes f :: "'a::linorder \<Rightarrow> nat"
  shows "sum_list (map f (heap_push x h)) = f x + sum_list (map f h)"
  by (induction h) auto

lemma heap_ok_push [simp, heap_simps]: "heap_ok h \<Longrightarrow> heap_ok (heap_push x h)"
  by (induction h) auto

lemma mset_heap_of [simp, heap_simps]: "mset (heap_of xs) = mset xs"
  by (induction xs) (auto simp: heap_of_def)

lemma set_heap_of [simp, heap_simps]: "set (heap_of xs) = set xs"
  by (metis mset_heap_of set_mset_mset)

lemma length_heap_of [simp, heap_simps]: "length (heap_of xs) = length xs"
  by (metis mset_heap_of size_mset)

lemma heap_ok_of [simp, heap_simps]: "heap_ok (heap_of xs)"
  by (induction xs) (auto simp: heap_of_def)

lemma heap_ok_filter [simp, heap_simps]: "heap_ok h \<Longrightarrow> heap_ok (filter P h)"
  by (simp add: sorted_wrt_filter)

locale max_heap =
  fixes push :: "'a::linorder \<Rightarrow> 'h \<Rightarrow> 'h"
    and peek :: "'h \<Rightarrow> 'a option"
    and pop :: "'h \<Rightarrow> 'h"
    and elems :: "'h \<Rightarrow> 'a multiset"
    and wf :: "'h \<Rightarrow> bool"
  assumes wf_push: "wf h \<Longrightarrow> wf (push x h)"
    and wf_pop: "wf h \<Longrightarrow> wf (pop h)"
    and elems_push: "elems (push x h) = add_mset x (elems h)"
    and peek_None: "peek h = None \<longleftrightarrow> elems h = {#}"
    and elems_pop: "peek h = Some x \<Longrightarrow> elems h = add_mset x (elems (pop h))"
    and peek_max: "wf h \<Longrightarrow> peek h = Some x \<Longrightarrow> y \<in># elems h \<Longrightarrow> y \<le> x"
begin

lemma peek_in: "peek h = Some x \<Longrightarrow> x \<in># elems h"
  by (simp add: elems_pop)

lemma push_peek:
  assumes "wf h" and "\<And>y. y \<in># elems h \<Longrightarrow> y \<le> x"
  shows "peek (push x h) = Some x"
proof -
  obtain z where z: "peek (push x h) = Some z"
    using peek_None[of "push x h"] by (cases "peek (push x h)") (auto simp: elems_push)
  have "x \<le> z" using peek_max[OF wf_push[OF assms(1)] z, of x] by (simp add: elems_push)
  moreover have "z \<le> x"
    using peek_in[OF z] assms(2)[of z] by (auto simp: elems_push)
  ultimately show ?thesis using z by simp
qed

text \<open>Nothing is left above a bound once the head is not above it: a drain loop that stops at
  the first head below the bound has seen every element above it.\<close>

lemma peek_below_all_below:
  assumes "wf h" and "peek h = Some x" and "x < b" and "y \<in># elems h"
  shows "y < b"
  using peek_max[OF assms(1,2,4)] assms(3) by simp

end

definition heap_peek :: "'a list \<Rightarrow> 'a option" where
  "heap_peek h = (case h of [] \<Rightarrow> None | x # _ \<Rightarrow> Some x)"

interpretation heap: max_heap heap_push heap_peek tl mset "\<lambda>h. heap_ok h"
proof unfold_locales
  fix h :: "'a list" and x y
  show "heap_ok h \<Longrightarrow> heap_ok (tl h)" by (cases h) auto
  show "(heap_peek h = None) = (mset h = {#})" by (cases h) (auto simp: heap_peek_def)
  show "heap_peek h = Some x \<Longrightarrow> mset h = add_mset x (mset (tl h))"
    by (cases h) (auto simp: heap_peek_def)
  show "heap_ok h \<Longrightarrow> heap_peek h = Some x \<Longrightarrow> y \<in># mset h \<Longrightarrow> y \<le> x"
    by (cases h) (auto simp: heap_peek_def)
qed auto

subsection \<open>Ordered sets\<close>

definition bts_insert :: "'a::linorder \<Rightarrow> 'a list \<Rightarrow> 'a list" where
  "bts_insert x xs = (if x \<in> set xs then xs else insort x xs)"

lemma set_bts_insert [simp]: "set (bts_insert x xs) = insert x (set xs)"
  by (auto simp: bts_insert_def set_insort_key)

lemma strict_sorted_bts_insert:
  "sorted xs \<and> distinct xs \<Longrightarrow> sorted (bts_insert x xs) \<and> distinct (bts_insert x xs)"
  by (auto simp: bts_insert_def sorted_insort distinct_insort)

subsection \<open>Reachable states\<close>

locale transition_system =
  fixes init :: "'s \<Rightarrow> bool"
    and step :: "'s \<Rightarrow> 's \<Rightarrow> bool"
begin

inductive reach :: "'s \<Rightarrow> bool" where
  reach_init: "init s \<Longrightarrow> reach s"
| reach_step: "reach s \<Longrightarrow> step s t \<Longrightarrow> reach t"

lemma reach_invariant:
  assumes "reach s"
    and "\<And>s. init s \<Longrightarrow> I s"
    and "\<And>s t. I s \<Longrightarrow> step s t \<Longrightarrow> I t"
  shows "I s"
  using assms by (induction rule: reach.induct) blast+

end

end
