(* ===== verification/Outbound_Types.thy ===== *)
theory Outbound_Types
  imports Prelude
begin

text \<open>
  The public types of the outbound scheduler (\<open>outbound/types.rs\<close>), the scope classification of
  \<open>outbound/classify.rs\<close> and the chat identities of \<open>types/chat_id.rs\<close> it rests on.
  Newtypes over \<open>u64\<close> (\<open>JobId\<close>, \<open>OutboundLaneKey\<close>, \<open>OutboundClass\<close>, correlation ids) are their
  numbers; strings are lists of bytes.
\<close>

type_synonym job_id = nat
type_synonym lane_key = nat
type_synonym outbound_class = nat
type_synonym correlation_id = nat

subsection \<open>Chat identifiers\<close>

text \<open>\<open>ChatId(i64)\<close> as an integer; \<open>as u64\<close> and \<open>as i64\<close> are the two's complement casts.\<close>

definition as_u64 :: "int \<Rightarrow> nat" where
  "as_u64 i = nat (i mod 2 ^ 64)"

definition as_i64 :: "nat \<Rightarrow> int" where
  "as_i64 n = (let r = int n mod 2 ^ 64 in if r < 2 ^ 63 then r else r - 2 ^ 64)"

definition is_i64 :: "int \<Rightarrow> bool" where
  "is_i64 i \<longleftrightarrow> - (2 ^ 63) \<le> i \<and> i < 2 ^ 63"

definition MIN_MARKED_CHANNEL_ID :: int where
  "MIN_MARKED_CHANNEL_ID = - 1997852516352"

definition MAX_MARKED_CHANNEL_ID :: int where
  "MAX_MARKED_CHANNEL_ID = - 1000000000000"

definition MIN_USER_ID :: int where
  "MIN_USER_ID = 0"

definition MAX_USER_ID :: int where
  "MAX_USER_ID = 2 ^ 40 - 1"

definition MIN_MARKED_CHAT_ID :: int where
  "MIN_MARKED_CHAT_ID = MAX_MARKED_CHANNEL_ID + 1"

definition MAX_MARKED_CHAT_ID :: int where
  "MAX_MARKED_CHAT_ID = MIN_USER_ID - 1"

lemmas chat_id_bounds = MIN_MARKED_CHANNEL_ID_def MAX_MARKED_CHANNEL_ID_def MIN_USER_ID_def
  MAX_USER_ID_def MIN_MARKED_CHAT_ID_def MAX_MARKED_CHAT_ID_def

datatype bare_chat_id = BareUser nat | BareGroup nat | BareChannel nat

definition to_bare :: "int \<Rightarrow> bare_chat_id" where
  "to_bare i =
     (if MIN_MARKED_CHAT_ID \<le> i \<and> i \<le> MAX_MARKED_CHAT_ID then BareGroup (as_u64 (- i))
      else if MIN_MARKED_CHANNEL_ID \<le> i \<and> i \<le> MAX_MARKED_CHANNEL_ID
        then BareChannel (as_u64 (MAX_MARKED_CHANNEL_ID - i))
      else if MIN_USER_ID \<le> i \<and> i \<le> MAX_USER_ID then BareUser (as_u64 i)
      else if MAX_USER_ID < i then BareUser (as_u64 i)
      else BareChannel (as_u64 (MAX_MARKED_CHANNEL_ID - i)))"

fun to_bot_api :: "bare_chat_id \<Rightarrow> int" where
  "to_bot_api (BareUser i) = as_i64 i"
| "to_bot_api (BareGroup i) = - as_i64 i"
| "to_bot_api (BareChannel i) = MAX_MARKED_CHANNEL_ID - as_i64 i"

definition is_channel_or_supergroup :: "int \<Rightarrow> bool" where
  "is_channel_or_supergroup i = (case to_bare i of BareChannel _ \<Rightarrow> True | _ \<Rightarrow> False)"

definition is_user :: "int \<Rightarrow> bool" where
  "is_user i = (case to_bare i of BareUser _ \<Rightarrow> True | _ \<Rightarrow> False)"

definition is_group :: "int \<Rightarrow> bool" where
  "is_group i = (case to_bare i of BareGroup _ \<Rightarrow> True | _ \<Rightarrow> False)"

definition as_user :: "int \<Rightarrow> nat option" where
  "as_user i = (case to_bare i of BareUser u \<Rightarrow> Some u | BareGroup _ \<Rightarrow> None | BareChannel _ \<Rightarrow> None)"

lemma as_i64_as_u64: "is_i64 i \<Longrightarrow> as_i64 (as_u64 i) = i"
proof -
  assume i: "is_i64 i"
  show ?thesis
  proof (cases "0 \<le> i")
    case True
    with i have "i mod 2 ^ 64 = i" by (simp add: is_i64_def)
    with True i show ?thesis by (simp add: as_u64_def as_i64_def is_i64_def)
  next
    case False
    with i have "(i + 2 ^ 64) mod 2 ^ 64 = i + 2 ^ 64"
      by (intro mod_pos_pos_trivial) (auto simp: is_i64_def)
    then have "i mod 2 ^ 64 = i + 2 ^ 64" by (simp only: mod_add_self2)
    with False i show ?thesis by (simp add: as_u64_def as_i64_def is_i64_def Let_def)
  qed
qed

text \<open>
  C18. Bare peer ids lose nothing: converting any 64-bit bot API chat id to its MTProto form and
  back returns the same id, whichever range (group, channel, user or unknown) it falls in.
\<close>

theorem to_bot_api_to_bare:
  assumes "is_i64 i"
  shows "to_bot_api (to_bare i) = i"
proof -
  have "is_i64 (- i) \<or> i = - (2 ^ 63)" using assms by (auto simp: is_i64_def)
  moreover have "is_i64 (MAX_MARKED_CHANNEL_ID - i)" if "i < MIN_USER_ID"
    using assms that by (simp add: is_i64_def chat_id_bounds)
  ultimately show ?thesis using assms
    by (auto simp: to_bare_def as_i64_as_u64 chat_id_bounds)
qed

theorem to_bot_api_to_bare_witness:
  "is_i64 (- 1001234567890) \<and> to_bot_api (to_bare (- 1001234567890)) = - 1001234567890"
proof -
  have h: "is_i64 (- 1001234567890)" by (simp add: is_i64_def)
  show ?thesis using h to_bot_api_to_bare[OF h] by simp
qed


subsection \<open>Scopes, lanes, priorities\<close>

type_synonym priority = nat

definition LOWEST :: priority where "LOWEST = 0"
definition BACKGROUND :: priority where "BACKGROUND = 32"
definition NORMAL :: priority where "NORMAL = 128"
definition INTERACTIVE :: priority where "INTERACTIVE = 192"
definition CRITICAL :: priority where "CRITICAL = 224"
definition HIGHEST :: priority where "HIGHEST = 255"

datatype outbound_chat_key = KeyId int | KeyUsername string

datatype outbound_scope = ScopeGlobal | ScopeChat outbound_chat_key

datatype window_chat_kind = AnyKind | ChannelOrSupergroup | NonChannel

fun window_chat_kind_of :: "outbound_chat_key \<Rightarrow> window_chat_kind" where
  "window_chat_kind_of (KeyId i)
     = (if is_channel_or_supergroup i then ChannelOrSupergroup else NonChannel)"
| "window_chat_kind_of (KeyUsername _) = ChannelOrSupergroup"

datatype outbound_lane_mode = Serial | OrderedStart | BoundedOrderedStart nat

fun mode_has_capacity :: "outbound_lane_mode \<Rightarrow> nat \<Rightarrow> bool" where
  "mode_has_capacity Serial n = (n = 0)"
| "mode_has_capacity OrderedStart n = (n = 0)"
| "mode_has_capacity (BoundedOrderedStart mx) n = (n < mx)"

record outbound_meta =
  m_scope :: outbound_scope
  m_lane :: "lane_key option"
  m_class :: outbound_class
  m_priority :: priority
  m_weight :: nat

record outbound_metadata =
  md_scope :: outbound_scope
  md_class :: outbound_class
  md_priority :: priority
  md_weight :: nat

record outbound_hint =
  h_scope :: outbound_scope
  h_class :: outbound_class
  h_priority :: priority
  h_weight :: nat

record outbound_overrides =
  ov_priority :: "priority option"
  ov_weight :: "nat option"
  ov_class :: "outbound_class option"

datatype outbound_enqueue_mode = Fifo | ReplacePending nat

record enqueue_outcome =
  eo_job :: job_id
  eo_superseded :: "job_id option"

datatype enqueue_error =
    QueueFull
  | IncompatibleCoalesceMetadata
  | WeightExceedsWindow outbound_scope nat nat

datatype scheduler_config_error =
    ZeroWindowCapacity
  | ZeroWindowDuration
  | ZeroAgingQuantum
  | AgingCannotReachHighest nat
  | ZeroQueueCapacity
  | PendingWeightExceedsWindow outbound_scope nat nat
  | KindSpecificGlobalWindow

record grant_rec =
  g_job :: job_id
  g_correlation :: "correlation_id option"

datatype outbound_completion =
    Success
  | RetryAfter outbound_scope duration
  | Failed
  | CancelledAfterGrant
  | NoRequest

record aging_policy =
  ag_quantum :: duration
  ag_max_boost :: nat

record window_limit =
  wl_capacity :: nat
  wl_window :: duration
  wl_kind :: window_chat_kind

definition window_limit_new :: "nat \<Rightarrow> duration \<Rightarrow> window_limit" where
  "window_limit_new c w = \<lparr>wl_capacity = c, wl_window = w, wl_kind = AnyKind\<rparr>"

definition for_chat_kind :: "nat \<Rightarrow> duration \<Rightarrow> window_chat_kind \<Rightarrow> window_limit" where
  "for_chat_kind c w k = \<lparr>wl_capacity = c, wl_window = w, wl_kind = k\<rparr>"

record outbound_limits =
  lim_global :: "window_limit list"
  lim_chat :: "window_limit list"

record class_window_limit =
  cl_class :: outbound_class
  cl_capacity :: nat
  cl_window :: duration

record outbound_class_limits =
  clim_global :: "class_window_limit list"
  clim_chat :: "class_window_limit list"

record outbound_settings =
  os_limits :: outbound_limits
  os_queue_capacity :: nat
  os_aging :: aging_policy

definition outbound_settings_default :: outbound_settings where
  "outbound_settings_default =
     \<lparr>os_limits = \<lparr>lim_global = [], lim_chat = []\<rparr>, os_queue_capacity = 1024,
      os_aging = \<lparr>ag_quantum = 1000000000, ag_max_boost = 255\<rparr>\<rparr>"

datatype outbound_queue_error =
    QueueErrClosed
  | QueueErrFull
  | QueueErrWeight outbound_scope nat nat
  | QueueErrIncompatible

datatype outbound_acquire_error =
    AcqClosed
  | AcqQueueFull
  | AcqWeight outbound_scope nat nat
  | AcqIncompatible
  | AcqSuperseded

fun acquire_error_of :: "outbound_queue_error \<Rightarrow> outbound_acquire_error" where
  "acquire_error_of QueueErrClosed = AcqClosed"
| "acquire_error_of QueueErrFull = AcqQueueFull"
| "acquire_error_of (QueueErrWeight s w c) = AcqWeight s w c"
| "acquire_error_of QueueErrIncompatible = AcqIncompatible"

record outbound_snapshot =
  sn_pending :: nat
  sn_in_flight :: nat
  sn_blocked :: nat
  sn_delayed :: nat
  sn_candidates :: nat
  sn_reservations :: nat

datatype scheduler_wakeup = Immediate | At instant | ExternalEvent

subsection \<open>Scope classification\<close>

datatype recipient = RecipientId int | ChannelUsername string

datatype target_message = TargetCommon recipient int | TargetInline string

definition ascii_lower :: "char \<Rightarrow> char" where
  "ascii_lower c = (let n = of_char c :: nat in if 65 \<le> n \<and> n \<le> 90 then char_of (n + 32) else c)"

definition to_ascii_lowercase :: "string \<Rightarrow> string" where
  "to_ascii_lowercase = map ascii_lower"

definition canonical_username :: "string \<Rightarrow> string" where
  "canonical_username u =
     to_ascii_lowercase (case u of [] \<Rightarrow> u | c # cs \<Rightarrow> if c = CHR ''@'' then cs else u)"

definition chat_key_username :: "string \<Rightarrow> outbound_chat_key" where
  "chat_key_username u = KeyUsername (canonical_username u)"

fun scope_of_recipient :: "recipient \<Rightarrow> outbound_scope" where
  "scope_of_recipient (RecipientId i) = ScopeChat (KeyId i)"
| "scope_of_recipient (ChannelUsername u) = ScopeChat (chat_key_username u)"

definition chat_id_scope :: "int \<Rightarrow> outbound_scope" where
  "chat_id_scope i = ScopeChat (KeyId i)"

definition user_id_scope :: "nat \<Rightarrow> outbound_scope" where
  "user_id_scope u = ScopeChat (KeyId (as_i64 u))"

definition draft_chat_id_scope :: "nat \<Rightarrow> outbound_scope" where
  "draft_chat_id_scope u = user_id_scope u"

fun target_message_scope :: "target_message \<Rightarrow> outbound_scope" where
  "target_message_scope (TargetCommon r _) = scope_of_recipient r"
| "target_message_scope (TargetInline _) = ScopeGlobal"

definition game_chat_id_scope :: "nat \<Rightarrow> outbound_scope" where
  "game_chat_id_scope i = ScopeChat (KeyId (int i))"

definition new_owner_chat_id_scope :: "int \<Rightarrow> outbound_scope" where
  "new_owner_chat_id_scope i = chat_id_scope i"

lemma ascii_lower_idem [simp]: "ascii_lower (ascii_lower c) = ascii_lower c"
  by (auto simp: ascii_lower_def Let_def)

lemma to_ascii_lowercase_idem [simp]:
  "to_ascii_lowercase (to_ascii_lowercase u) = to_ascii_lowercase u"
  by (simp add: to_ascii_lowercase_def)

lemma ascii_lower_at: "ascii_lower d = CHR ''@'' \<Longrightarrow> d = CHR ''@''"
proof (rule ccontr)
  assume low: "ascii_lower d = CHR ''@''" and "d \<noteq> CHR ''@''"
  then have n: "65 \<le> (of_char d :: nat)" "of_char d \<le> (90 :: nat)"
    and c: "char_of (of_char d + 32 :: nat) = CHR ''@''"
    by (auto simp: ascii_lower_def Let_def split: if_splits)
  have "of_char (char_of (of_char d + 32 :: nat) :: char) = (64 :: nat)"
    unfolding c by simp
  with n show False by simp
qed

text \<open>
  C19. One channel, one identity: two usernames that differ only in ASCII case and in the
  optional leading at-sign get the same scheduling scope, and that scope always counts as a
  channel for the kind-specific windows.
\<close>

theorem scope_of_username_canonical:
  assumes "to_ascii_lowercase u = to_ascii_lowercase v" and "\<And>cs. u \<noteq> CHR ''@'' # cs"
  shows "scope_of_recipient (ChannelUsername (CHR ''@'' # u)) = scope_of_recipient (ChannelUsername v)
    \<and> scope_of_recipient (ChannelUsername u) = scope_of_recipient (ChannelUsername v)
    \<and> window_chat_kind_of (chat_key_username v) = ChannelOrSupergroup"
proof -
  have v: "v \<noteq> CHR ''@'' # cs" for cs
  proof
    assume "v = CHR ''@'' # cs"
    with assms(1) obtain d ds where "u = d # ds" and "ascii_lower d = ascii_lower CHR ''@''"
      by (cases u) (auto simp: to_ascii_lowercase_def)
    then have "u = CHR ''@'' # ds" using ascii_lower_at[of d] by (simp add: ascii_lower_def)
    with assms(2) show False by blast
  qed
  have plain: "canonical_username w = to_ascii_lowercase w" if "\<And>cs. w \<noteq> CHR ''@'' # cs" for w
    using that by (cases w) (auto simp: canonical_username_def)
  have "canonical_username (CHR ''@'' # u) = to_ascii_lowercase u"
    by (simp add: canonical_username_def)
  then show ?thesis
    using assms(1) plain[OF v] plain[OF assms(2)] by (simp add: chat_key_username_def)
qed

theorem scope_of_username_canonical_witness:
  "scope_of_recipient (ChannelUsername ''@Foo'') = scope_of_recipient (ChannelUsername ''foo'')"
proof -
  have h: "to_ascii_lowercase ''Foo'' = to_ascii_lowercase ''foo''" by code_simp
  have n: "\<And>cs. ''Foo'' \<noteq> CHR ''@'' # cs" by simp
  show ?thesis using scope_of_username_canonical[OF h n] by (rule conjunct1)
qed

end
