(* ===== verification/Rolling_Window.thy ===== *)
theory Rolling_Window
  imports Outbound_Types
begin

text \<open>
  The sliding rate windows of \<open>outbound/scheduler.rs\<close>: \<open>RollingWindow\<close> (one window) and
  \<open>WindowSet\<close> (all windows a request must pass at once).  An event is the moment of a grant, its
  weight and the job it belongs to.  The methods that take \<open>&mut self\<close> return the new window
  beside their result.  \<open>load_at\<close> is the specification: the weight granted within the last
  window length.  The \<open>debug_assert!\<close> of \<open>consume\<close> is off in a release build and is left out.
\<close>

type_synonym window_event = "instant \<times> nat \<times> job_id option"

record rolling_window =
  rw_capacity :: nat
  rw_window :: duration
  rw_history :: "window_event list"
  rw_used :: nat

definition checked_sub :: "instant \<Rightarrow> duration \<Rightarrow> instant option" where
  "checked_sub now d = (if d \<le> now then Some (now - d) else None)"

definition rw_new :: "window_limit \<Rightarrow> rolling_window" where
  "rw_new l = \<lparr>rw_capacity = wl_capacity l, rw_window = wl_window l, rw_history = [], rw_used = 0\<rparr>"

fun prune_events :: "instant \<Rightarrow> window_event list \<Rightarrow> nat \<Rightarrow> window_event list \<times> nat" where
  "prune_events cutoff [] used = ([], used)"
| "prune_events cutoff (e # es) used =
     (if fst e \<le> cutoff then prune_events cutoff es (used - fst (snd e)) else (e # es, used))"

definition rw_prune :: "instant \<Rightarrow> rolling_window \<Rightarrow> rolling_window" where
  "rw_prune now r =
     (case checked_sub now (rw_window r) of
        None \<Rightarrow> r
      | Some cutoff \<Rightarrow>
          let (es, u) = prune_events cutoff (rw_history r) (rw_used r)
          in r\<lparr>rw_history := es, rw_used := u\<rparr>)"

definition rw_is_idle :: "instant \<Rightarrow> rolling_window \<Rightarrow> bool \<times> rolling_window" where
  "rw_is_idle now r = (let r' = rw_prune now r in (rw_history r' = [], r'))"

definition rw_can_consume :: "instant \<Rightarrow> nat \<Rightarrow> rolling_window \<Rightarrow> bool \<times> rolling_window" where
  "rw_can_consume now w r = (let r' = rw_prune now r in (rw_used r' + w \<le> rw_capacity r', r'))"

definition rw_consume :: "instant \<Rightarrow> nat \<Rightarrow> job_id \<Rightarrow> rolling_window \<Rightarrow> rolling_window" where
  "rw_consume now w j r =
     r\<lparr>rw_history := rw_history r @ [(now, w, Some j)], rw_used := rw_used r + w\<rparr>"

fun find_event :: "job_id \<Rightarrow> nat \<Rightarrow> window_event list \<Rightarrow> nat option" where
  "find_event j w [] = None"
| "find_event j w (e # es) =
     (if snd (snd e) = Some j \<and> fst (snd e) = w then Some 0 else map_option Suc (find_event j w es))"

definition rw_refund :: "instant \<Rightarrow> job_id \<Rightarrow> nat \<Rightarrow> rolling_window \<Rightarrow> bool \<times> rolling_window" where
  "rw_refund now j w r =
     (let r' = rw_prune now r
      in case find_event j w (rw_history r') of
           None \<Rightarrow> (False, r')
         | Some i \<Rightarrow> (True, r'\<lparr>rw_history := take i (rw_history r') @ drop (Suc i) (rw_history r'),
                             rw_used := rw_used r' - fst (snd (rw_history r' ! i))\<rparr>))"

definition rw_insert :: "instant \<Rightarrow> nat \<Rightarrow> job_id option \<Rightarrow> rolling_window \<Rightarrow> rolling_window" where
  "rw_insert at w j r = r\<lparr>rw_history := rw_history r @ [(at, w, j)], rw_used := rw_used r + w\<rparr>"

fun earliest_scan :: "nat \<Rightarrow> nat \<Rightarrow> duration \<Rightarrow> nat \<Rightarrow> window_event list \<Rightarrow> instant option" where
  "earliest_scan cap w win remaining [] = None"
| "earliest_scan cap w win remaining (e # es) =
     (let rest = remaining - fst (snd e)
      in if rest + w \<le> cap then Some (fst e + win) else earliest_scan cap w win rest es)"

definition rw_earliest_for :: "instant \<Rightarrow> nat \<Rightarrow> rolling_window \<Rightarrow> instant option" where
  "rw_earliest_for now w r =
     (if rw_used r + w \<le> rw_capacity r then Some now
      else earliest_scan (rw_capacity r) w (rw_window r) (rw_used r) (rw_history r))"

subsection \<open>Window sets\<close>

type_synonym window_set = "rolling_window list"

definition ws_new :: "window_limit list \<Rightarrow> window_chat_kind \<Rightarrow> window_set" where
  "ws_new ls k = map rw_new (filter (\<lambda>l. wl_kind l = AnyKind \<or> wl_kind l = k) ls)"

definition ws_new_class :: "class_window_limit list \<Rightarrow> outbound_class \<Rightarrow> window_set" where
  "ws_new_class ls c =
     map (\<lambda>l. rw_new (window_limit_new (cl_capacity l) (cl_window l)))
         (filter (\<lambda>l. cl_class l = c) ls)"

text \<open>\<open>iter_mut().all(..)\<close> stops at the first window that refuses.\<close>

fun ws_can_consume :: "instant \<Rightarrow> nat \<Rightarrow> window_set \<Rightarrow> bool \<times> window_set" where
  "ws_can_consume now w [] = (True, [])"
| "ws_can_consume now w (r # rs) =
     (let (ok, r') = rw_can_consume now w r
      in if ok then (let (oks, rs') = ws_can_consume now w rs in (oks, r' # rs')) else (False, r' # rs))"

definition ws_consume :: "instant \<Rightarrow> nat \<Rightarrow> job_id \<Rightarrow> window_set \<Rightarrow> window_set" where
  "ws_consume now w j = map (rw_consume now w j)"

fun ws_refund :: "instant \<Rightarrow> job_id \<Rightarrow> nat \<Rightarrow> window_set \<Rightarrow> bool \<times> window_set" where
  "ws_refund now j w [] = (False, [])"
| "ws_refund now j w (r # rs) =
     (let (b, r') = rw_refund now j w r; (bs, rs') = ws_refund now j w rs in (b \<or> bs, r' # rs'))"

fun ws_is_idle :: "instant \<Rightarrow> window_set \<Rightarrow> bool \<times> window_set" where
  "ws_is_idle now [] = (True, [])"
| "ws_is_idle now (r # rs) =
     (let (ok, r') = rw_is_idle now r
      in if ok then (let (oks, rs') = ws_is_idle now rs in (oks, r' # rs')) else (False, r' # rs))"

text \<open>\<open>max_by_key\<close> keeps the last of equal maxima.\<close>

fun longest_window :: "window_set \<Rightarrow> rolling_window option" where
  "longest_window [] = None"
| "longest_window (r # rs) =
     (case longest_window rs of
        None \<Rightarrow> Some r
      | Some m \<Rightarrow> if rw_window r \<le> rw_window m then Some m else Some r)"

definition ws_collect_events :: "instant \<Rightarrow> window_set \<Rightarrow> window_event list \<times> window_set" where
  "ws_collect_events now ws =
     (let ws' = map (rw_prune now) ws
      in (case longest_window ws' of None \<Rightarrow> [] | Some r \<Rightarrow> rw_history r, ws'))"

definition ws_insert_at :: "instant \<Rightarrow> instant \<Rightarrow> nat \<Rightarrow> job_id option \<Rightarrow> window_set \<Rightarrow> window_set" where
  "ws_insert_at now at w j =
     map (\<lambda>r. case checked_sub now (rw_window r) of
                Some cutoff \<Rightarrow> if at \<le> cutoff then r else rw_insert at w j r
              | None \<Rightarrow> rw_insert at w j r)"

definition ws_insert_events :: "instant \<Rightarrow> window_event list \<Rightarrow> window_set \<Rightarrow> window_set" where
  "ws_insert_events now es ws = fold (\<lambda>e s. ws_insert_at now (fst e) (fst (snd e)) (snd (snd e)) s) es ws"

fun ws_earliest_fold :: "instant \<Rightarrow> nat \<Rightarrow> instant \<Rightarrow> window_set \<Rightarrow> instant option" where
  "ws_earliest_fold now w acc [] = Some acc"
| "ws_earliest_fold now w acc (r # rs) =
     (case rw_earliest_for now w r of None \<Rightarrow> None | Some t \<Rightarrow> ws_earliest_fold now w (max acc t) rs)"

definition ws_earliest_for :: "instant \<Rightarrow> nat \<Rightarrow> window_set \<Rightarrow> instant option" where
  "ws_earliest_for now w ws = ws_earliest_fold now w now ws"

definition group_by_class ::
    "class_window_limit list \<Rightarrow> (outbound_class, class_window_limit list) hmap" where
  "group_by_class ls =
     fold (\<lambda>l m. hm_insert (cl_class l)
                 ((case hm_get m (cl_class l) of None \<Rightarrow> [] | Some g \<Rightarrow> g) @ [l]) m) ls []"

definition class_window_sets :: "class_window_limit list \<Rightarrow> (outbound_class, window_set) hmap" where
  "class_window_sets ls = hm_map_values (\<lambda>c g. ws_new_class g c) (group_by_class ls)"

subsection \<open>The window invariant\<close>

definition event_weight :: "window_event \<Rightarrow> nat" where
  "event_weight e = fst (snd e)"

definition weight_sum :: "window_event list \<Rightarrow> nat" where
  "weight_sum es = sum_list (map event_weight es)"

definition rw_ok :: "rolling_window \<Rightarrow> bool" where
  "rw_ok r \<longleftrightarrow> rw_used r = weight_sum (rw_history r) \<and> sorted (map fst (rw_history r))"

definition rw_until :: "instant \<Rightarrow> rolling_window \<Rightarrow> bool" where
  "rw_until now r \<longleftrightarrow> (\<forall>e\<in>set (rw_history r). fst e \<le> now)"

text \<open>An event has left a window of length \<open>win\<close> at \<open>now\<close>.\<close>

definition expired :: "instant \<Rightarrow> duration \<Rightarrow> window_event \<Rightarrow> bool" where
  "expired now win e \<longleftrightarrow> fst e + win \<le> now"

lemma weight_sum_simps [simp]:
  "weight_sum [] = 0" "weight_sum (e # es) = event_weight e + weight_sum es"
  "weight_sum (es @ fs) = weight_sum es + weight_sum fs"
  by (simp_all add: weight_sum_def)

lemma prune_events_eq:
  "used = weight_sum es \<Longrightarrow>
   prune_events c es used = (dropWhile (\<lambda>e. fst e \<le> c) es, weight_sum (dropWhile (\<lambda>e. fst e \<le> c) es))"
  by (induction c es used rule: prune_events.induct) (auto simp: event_weight_def)

lemma rw_prune_fields [simp]:
  "rw_capacity (rw_prune now r) = rw_capacity r" "rw_window (rw_prune now r) = rw_window r"
  by (simp_all add: rw_prune_def split: option.splits prod.splits)

lemma rw_history_prune:
  assumes "rw_ok r"
  shows "rw_history (rw_prune now r) = dropWhile (expired now (rw_window r)) (rw_history r)"
proof (cases "rw_window r \<le> now")
  case True
  then have "(\<lambda>e. fst e \<le> now - rw_window r) = expired now (rw_window r)"
    by (auto simp: expired_def fun_eq_iff)
  with True assms show ?thesis
    by (simp add: rw_prune_def checked_sub_def prune_events_eq rw_ok_def)
next
  case False
  then have "dropWhile (expired now (rw_window r)) (rw_history r) = rw_history r"
    by (cases "rw_history r") (auto simp: expired_def)
  with False show ?thesis by (simp add: rw_prune_def checked_sub_def)
qed

lemma rw_used_prune: "rw_ok r \<Longrightarrow> rw_used (rw_prune now r) = weight_sum (rw_history (rw_prune now r))"
  by (auto simp: rw_prune_def rw_ok_def checked_sub_def prune_events_eq split: option.splits)

lemma sorted_dropWhile_fst: "sorted (map fst es) \<Longrightarrow> sorted (map fst (dropWhile P es))"
  by (induction es) auto

lemma dropWhile_expired_filter:
  "sorted (map fst es) \<Longrightarrow> dropWhile (expired now win) es = filter (\<lambda>e. \<not> expired now win e) es"
proof (induction es)
  case (Cons e es)
  show ?case
  proof (cases "expired now win e")
    case False
    with Cons.prems have "\<forall>x\<in>set es. \<not> expired now win x" by (auto simp: expired_def)
    then have "filter (\<lambda>x. \<not> expired now win x) es = es" by (simp add: filter_id_conv)
    with False show ?thesis by simp
  qed (use Cons in simp)
qed simp

lemma rw_ok_prune [simp]: "rw_ok r \<Longrightarrow> rw_ok (rw_prune now r)"
  using rw_used_prune[of r now]
  by (simp add: rw_ok_def rw_history_prune sorted_dropWhile_fst)

lemma rw_history_prune_filter:
  "rw_ok r \<Longrightarrow>
   rw_history (rw_prune now r) = filter (\<lambda>e. \<not> expired now (rw_window r) e) (rw_history r)"
  by (simp add: rw_history_prune dropWhile_expired_filter rw_ok_def)

lemma rw_prune_prune:
  assumes "rw_ok r" and "now \<le> now'"
  shows "rw_history (rw_prune now' (rw_prune now r)) = rw_history (rw_prune now' r)"
  using assms by (auto simp: rw_history_prune_filter expired_def intro!: filter_cong)

lemma rw_until_mono: "rw_until now r \<Longrightarrow> now \<le> now' \<Longrightarrow> rw_until now' r"
  by (force simp: rw_until_def)

lemma rw_until_prune [simp]: "rw_ok r \<Longrightarrow> rw_until now r \<Longrightarrow> rw_until now (rw_prune now' r)"
  by (auto simp: rw_until_def rw_history_prune_filter)

lemma rw_ok_new [simp]: "rw_ok (rw_new l)" "rw_until now (rw_new l)"
  by (simp_all add: rw_ok_def rw_new_def rw_until_def)

lemma rw_ok_consume:
  "rw_ok r \<Longrightarrow> rw_until now r \<Longrightarrow> rw_ok (rw_consume now w j r) \<and> rw_until now (rw_consume now w j r)"
  by (auto simp: rw_ok_def rw_until_def rw_consume_def event_weight_def sorted_append)

lemma find_event_Some:
  "find_event j w es = Some i \<Longrightarrow> i < length es \<and> snd (snd (es ! i)) = Some j \<and> event_weight (es ! i) = w"
  by (induction es arbitrary: i) (auto simp: event_weight_def split: if_splits)

lemma find_event_None: "find_event j w es = None \<longleftrightarrow> (\<forall>e\<in>set es. \<not> (snd (snd e) = Some j \<and> event_weight e = w))"
  by (induction es) (auto simp: event_weight_def)

lemma remove_nth_facts:
  assumes "i < length es"
  shows "weight_sum es = weight_sum (take i es @ drop (Suc i) es) + event_weight (es ! i)"
    and "set (take i es @ drop (Suc i) es) \<subseteq> set es"
    and "sorted (map fst es) \<Longrightarrow> sorted (map fst (take i es @ drop (Suc i) es))"
proof -
  have es: "es = take i es @ es ! i # drop (Suc i) es" using assms by (rule id_take_nth_drop)
  then have "weight_sum es = weight_sum (take i es @ es ! i # drop (Suc i) es)" by simp
  then show "weight_sum es = weight_sum (take i es @ drop (Suc i) es) + event_weight (es ! i)" by simp
  show "set (take i es @ drop (Suc i) es) \<subseteq> set es"
    using set_take_subset[of i es] set_drop_subset[of "Suc i" es] by auto
  assume "sorted (map fst es)"
  then have "sorted (map fst (take i es @ es ! i # drop (Suc i) es))" using es by simp
  then show "sorted (map fst (take i es @ drop (Suc i) es))" by (simp add: sorted_append)
qed

lemma rw_refund_ok:
  assumes "rw_ok r" and "rw_refund now j w r = (b, r')"
  shows "rw_ok r'" and "rw_until t r \<Longrightarrow> rw_until t r'"
    and "rw_capacity r' = rw_capacity r" and "rw_window r' = rw_window r"
proof -
  have ok: "rw_ok (rw_prune now r)" using assms(1) by simp
  note fn = remove_nth_facts[of _ "rw_history (rw_prune now r)"]
  show "rw_ok r'" using assms ok fn
    by (auto simp: rw_refund_def Let_def rw_ok_def event_weight_def
        split: option.splits dest!: find_event_Some)
  show "rw_until t r'" if "rw_until t r"
    using assms rw_until_prune[OF assms(1) that, of now] fn(2)
    by (fastforce simp: rw_refund_def Let_def rw_until_def split: option.splits dest!: find_event_Some)
  show "rw_capacity r' = rw_capacity r" and "rw_window r' = rw_window r"
    using assms by (auto simp: rw_refund_def Let_def split: option.splits)
qed


subsection \<open>When a window admits a weight\<close>

text \<open>
  The contract between a rate gate and its client, which asks whether a weight is admitted and,
  if it is not, sleeps until the gate says: a gate that nobody consumes from stays open, and the
  moment it names is the first one at which it is open.
\<close>

locale rate_gate =
  fixes admits :: "instant \<Rightarrow> nat \<Rightarrow> 'w \<Rightarrow> bool"
    and ready_at :: "instant \<Rightarrow> nat \<Rightarrow> 'w \<Rightarrow> instant option"
    and ok :: "'w \<Rightarrow> bool"
  assumes admits_mono: "ok g \<Longrightarrow> admits t n g \<Longrightarrow> t \<le> t' \<Longrightarrow> admits t' n g"
    and ready_admits: "ok g \<Longrightarrow> ready_at now n g = Some t \<Longrightarrow> admits (max now t) n g"
    and ready_least: "ok g \<Longrightarrow> ready_at now n g = Some t \<Longrightarrow> now \<le> s \<Longrightarrow> admits s n g \<Longrightarrow> t \<le> s"
    and ready_None: "ok g \<Longrightarrow> ready_at now n g = None \<Longrightarrow> \<not> admits s n g"
begin

lemma admits_iff_ready:
  assumes "ok g" and "now \<le> s"
  shows "admits s n g \<longleftrightarrow> (\<exists>t. ready_at now n g = Some t \<and> t \<le> s)"
proof
  assume a: "admits s n g"
  show "\<exists>t. ready_at now n g = Some t \<and> t \<le> s"
  proof (cases "ready_at now n g")
    case None
    with a ready_None[OF assms(1)] show ?thesis by blast
  next
    case (Some t)
    with a ready_least[OF assms(1)] assms(2) show ?thesis by blast
  qed
next
  assume "\<exists>t. ready_at now n g = Some t \<and> t \<le> s"
  then obtain t where "ready_at now n g = Some t" and "t \<le> s" by blast
  with ready_admits[OF assms(1)] admits_mono[OF assms(1), of "max now t" n s] assms(2)
  show "admits s n g" by auto
qed

lemma never_ready_iff: "ok g \<Longrightarrow> ready_at now n g = None \<longleftrightarrow> (\<forall>s\<ge>now. \<not> admits s n g)"
proof (cases "ready_at now n g")
  case (Some t)
  assume "ok g"
  then have "admits (max now t) n g" using Some by (rule ready_admits)
  then show ?thesis using Some by (auto intro!: exI[of _ "max now t"])
qed (simp add: ready_None)

end

lemma rw_can_consume_iff:
  "rw_ok r \<Longrightarrow> fst (rw_can_consume s w r) \<longleftrightarrow>
   weight_sum (filter (\<lambda>e. \<not> expired s (rw_window r) e) (rw_history r)) + w \<le> rw_capacity r"
  by (simp add: rw_can_consume_def Let_def rw_used_prune rw_history_prune_filter)

lemma weight_sum_filter_le: "weight_sum (filter P es) \<le> weight_sum es"
  by (induction es) auto

lemma weight_sum_filter_mono:
  "(\<And>e. e \<in> set es \<Longrightarrow> P e \<Longrightarrow> Q e) \<Longrightarrow> weight_sum (filter P es) \<le> weight_sum (filter Q es)"
  by (induction es) force+

lemma earliest_scan_ge:
  "earliest_scan cap w win u es = Some t \<Longrightarrow> sorted (map fst (e # es)) \<Longrightarrow> fst e + win \<le> t"
  by (induction es arbitrary: u) (auto simp: Let_def split: if_splits)

lemma earliest_scan_spec:
  assumes "sorted (map fst es)" and "cap < weight_sum es + w"
  shows "case earliest_scan cap w win (weight_sum es) es of
      None \<Rightarrow> cap < w
    | Some t \<Rightarrow> weight_sum (filter (\<lambda>e. \<not> expired t win e) es) + w \<le> cap
        \<and> (\<forall>s. weight_sum (filter (\<lambda>e. \<not> expired s win e) es) + w \<le> cap \<longrightarrow> t \<le> s)"
  using assms
proof (induction es)
  case (Cons e es)
  let ?left = "\<lambda>s es. weight_sum (filter (\<lambda>e. \<not> expired s win e) es) + w"
  have sorted: "sorted (map fst es)" using Cons.prems by simp
  have late: "filter (\<lambda>e. \<not> expired s win e) (e # es) = e # es" if "\<not> expired s win e" for s
    using that Cons.prems(1) by (auto simp: expired_def intro!: filter_True)
  then have open_late: "expired s win e" if "?left s (e # es) \<le> cap" for s
    using that Cons.prems(2) by fastforce
  show ?case
  proof (cases "weight_sum es + w \<le> cap")
    case True
    have "?left (fst e + win) (e # es) \<le> cap"
      using True weight_sum_filter_le[of "\<lambda>e'. \<not> expired (fst e + win) win e'" es]
      by (simp add: expired_def)
    moreover have "fst e + win \<le> s" if "?left s (e # es) \<le> cap" for s
      using open_late[OF that] by (simp add: expired_def)
    ultimately show ?thesis using True by (simp add: event_weight_def)
  next
    case False
    then have scan: "earliest_scan cap w win (weight_sum (e # es)) (e # es)
        = earliest_scan cap w win (weight_sum es) es" by (simp add: event_weight_def Let_def)
    show ?thesis
    proof (cases "earliest_scan cap w win (weight_sum es) es")
      case None
      then show ?thesis using Cons.IH[OF sorted] False scan by simp
    next
      case (Some t)
      then have IH: "?left t es \<le> cap" "\<And>s. ?left s es \<le> cap \<Longrightarrow> t \<le> s"
        using Cons.IH[OF sorted] False by auto
      have "expired t win e"
        using earliest_scan_ge[OF Some Cons.prems(1)] by (simp add: expired_def)
      then have "?left t (e # es) \<le> cap" using IH(1) by simp
      moreover have "t \<le> s" if "?left s (e # es) \<le> cap" for s
        using IH(2)[of s] open_late[OF that] that by simp
      ultimately show ?thesis using scan Some by simp
    qed
  qed
qed simp

lemma rw_earliest_spec:
  assumes "rw_ok r"
  shows "rw_earliest_for now w r = Some t \<Longrightarrow> fst (rw_can_consume (max now t) w r)"
    and "rw_earliest_for now w r = Some t \<Longrightarrow> now \<le> s \<Longrightarrow> fst (rw_can_consume s w r) \<Longrightarrow> t \<le> s"
    and "rw_earliest_for now w r = None \<longleftrightarrow> rw_capacity r < w"
proof -
  let ?left = "\<lambda>s. weight_sum (filter (\<lambda>e. \<not> expired s (rw_window r) e) (rw_history r)) + w"
  have used: "rw_used r = weight_sum (rw_history r)" and sorted: "sorted (map fst (rw_history r))"
    using assms by (simp_all add: rw_ok_def)
  have admit: "fst (rw_can_consume s w r) \<longleftrightarrow> ?left s \<le> rw_capacity r" for s
    by (rule rw_can_consume_iff[OF assms])
  have full: "?left s \<le> weight_sum (rw_history r) + w" for s
    using weight_sum_filter_le[of _ "rw_history r"] by simp
  have mono: "?left (max now t) \<le> ?left t" for t
    using weight_sum_filter_mono[of "rw_history r" "\<lambda>e. \<not> expired (max now t) (rw_window r) e"
        "\<lambda>e. \<not> expired t (rw_window r) e"] by (simp add: expired_def)
  have scan: "?left t \<le> rw_capacity r \<and> (\<forall>s. ?left s \<le> rw_capacity r \<longrightarrow> t \<le> s)"
    if "rw_earliest_for now w r = Some t" "rw_capacity r < weight_sum (rw_history r) + w" for t
    using earliest_scan_spec[OF sorted that(2), of "rw_window r"] that
    by (simp add: rw_earliest_for_def used)
  have fits: "rw_earliest_for now w r = Some now" if "weight_sum (rw_history r) + w \<le> rw_capacity r"
    using that by (simp add: rw_earliest_for_def used)
  note cases = linorder_not_less[of "rw_capacity r" "weight_sum (rw_history r) + w"]
  show "fst (rw_can_consume (max now t) w r)" if r: "rw_earliest_for now w r = Some t"
    using scan[OF r] mono[of t] full[of "max now t"] fits cases unfolding admit by linarith
  show "t \<le> s" if r: "rw_earliest_for now w r = Some t" "now \<le> s" "fst (rw_can_consume s w r)"
    using scan[OF r(1)] fits cases r unfolding admit by auto
  show "rw_earliest_for now w r = None \<longleftrightarrow> rw_capacity r < w"
  proof
    assume n: "rw_earliest_for now w r = None"
    then have "rw_capacity r < weight_sum (rw_history r) + w" using fits by fastforce
    with earliest_scan_spec[OF sorted this, of "rw_window r"] n show "rw_capacity r < w"
      by (simp add: rw_earliest_for_def used split: if_splits)
  next
    assume "rw_capacity r < w"
    then show "rw_earliest_for now w r = None"
      using scan by (cases "rw_earliest_for now w r") fastforce+
  qed
qed

lemma rw_never_admits:
  "rw_ok r \<Longrightarrow> rw_earliest_for now w r = None \<Longrightarrow> \<not> fst (rw_can_consume s w r)"
  by (simp add: rw_can_consume_iff rw_earliest_spec(3))

lemma rw_can_consume_mono:
  assumes "rw_ok r" and "fst (rw_can_consume t w r)" and "t \<le> t'"
  shows "fst (rw_can_consume t' w r)"
proof -
  have "weight_sum (filter (\<lambda>e. \<not> expired t' (rw_window r) e) (rw_history r))
      \<le> weight_sum (filter (\<lambda>e. \<not> expired t (rw_window r) e) (rw_history r))"
    using assms(3) by (intro weight_sum_filter_mono) (simp add: expired_def)
  with assms(1,2) show ?thesis by (simp add: rw_can_consume_iff)
qed

interpretation window_gate: rate_gate
  "\<lambda>t n r. fst (rw_can_consume t n r)" rw_earliest_for rw_ok
  using rw_can_consume_mono rw_earliest_spec rw_never_admits by unfold_locales blast+


definition ws_ok :: "window_set \<Rightarrow> bool" where
  "ws_ok ws \<longleftrightarrow> list_all rw_ok ws"

lemma ws_ok_simps [simp]:
  "ws_ok []" "ws_ok (r # rs) \<longleftrightarrow> rw_ok r \<and> ws_ok rs"
  by (simp_all add: ws_ok_def)

lemma rw_can_consume_eq: "rw_can_consume now w r = (b, r') \<Longrightarrow> r' = rw_prune now r"
  by (simp add: rw_can_consume_def Let_def)

lemma ws_can_consume_iff:
  "fst (ws_can_consume now w ws) \<longleftrightarrow> (\<forall>r\<in>set ws. fst (rw_can_consume now w r))"
  by (induction ws) (auto split: prod.splits)

lemma ws_can_consume_True:
  "ws_can_consume now w ws = (True, ws') \<Longrightarrow> ws' = map (rw_prune now) ws"
  by (induction ws arbitrary: ws') (auto split: prod.splits if_splits dest: rw_can_consume_eq)

lemma ws_can_consume_rel:
  "list_all2 (\<lambda>r r'. r' = r \<or> r' = rw_prune now r) ws (snd (ws_can_consume now w ws))"
  by (induction ws)
     (auto split: prod.splits simp: list_all2_same dest!: rw_can_consume_eq)

lemma ws_ok_can_consume: "ws_ok ws \<Longrightarrow> ws_ok (snd (ws_can_consume now w ws))"
  by (induction ws) (auto split: prod.splits dest!: rw_can_consume_eq)

lemma ws_earliest_fold_Some:
  "ws_earliest_fold now w acc ws = Some t \<Longrightarrow>
   acc \<le> t \<and> (\<forall>r\<in>set ws. \<exists>u. rw_earliest_for now w r = Some u \<and> u \<le> t)
   \<and> (\<forall>s\<ge>acc. (\<forall>r\<in>set ws. \<forall>u. rw_earliest_for now w r = Some u \<longrightarrow> u \<le> s) \<longrightarrow> t \<le> s)"
proof (induction ws arbitrary: acc)
  case (Cons r rs)
  then obtain u where u: "rw_earliest_for now w r = Some u"
    and rest: "ws_earliest_fold now w (max acc u) rs = Some t"
    by (auto split: option.splits)
  show ?case using Cons.IH[OF rest] u by auto
qed simp

lemma ws_earliest_fold_None:
  "ws_earliest_fold now w acc ws = None \<longleftrightarrow> (\<exists>r\<in>set ws. rw_earliest_for now w r = None)"
  by (induction ws arbitrary: acc) (auto split: option.splits)

interpretation set_gate: rate_gate
  "\<lambda>t n ws. fst (ws_can_consume t n ws)" ws_earliest_for ws_ok
proof unfold_locales
  fix ws :: window_set and t t' n now s
  assume ok: "ws_ok ws"
  then have r_ok: "rw_ok r" if "r \<in> set ws" for r using that by (auto simp: ws_ok_def list_all_iff)
  show "fst (ws_can_consume t n ws) \<Longrightarrow> t \<le> t' \<Longrightarrow> fst (ws_can_consume t' n ws)"
    using rw_can_consume_mono r_ok by (auto simp: ws_can_consume_iff)
  show "fst (ws_can_consume (max now t) n ws)" if "ws_earliest_for now n ws = Some t"
  proof -
    have "now \<le> t" and "\<forall>r\<in>set ws. \<exists>u. rw_earliest_for now n r = Some u \<and> u \<le> t"
      using ws_earliest_fold_Some[OF that[unfolded ws_earliest_for_def]] by auto
    then show ?thesis
      using window_gate.admits_iff_ready[OF r_ok, of _ now t] by (auto simp: ws_can_consume_iff max_def)
  qed
  show "t \<le> s" if "ws_earliest_for now n ws = Some t" "now \<le> s" "fst (ws_can_consume s n ws)"
    using ws_earliest_fold_Some[OF that(1)[unfolded ws_earliest_for_def]] that(2,3)
      window_gate.admits_iff_ready[OF r_ok that(2)] by (fastforce simp: ws_can_consume_iff)
  show "\<not> fst (ws_can_consume s n ws)" if none: "ws_earliest_for now n ws = None"
  proof -
    obtain r where "r \<in> set ws" and "rw_earliest_for now n r = None"
      using none by (auto simp: ws_earliest_for_def ws_earliest_fold_None)
    then show ?thesis
      using window_gate.ready_None[OF r_ok[of r], of now n s] unfolding ws_can_consume_iff by blast
  qed
qed

lemma ws_earliest_ge: "ws_earliest_for now w ws = Some t \<Longrightarrow> now \<le> t"
  using ws_earliest_fold_Some by (auto simp: ws_earliest_for_def)

text \<open>
  C17. The wake-up moment of a window set is exact: if the set names a moment for a weight, the
  weight is admitted then and at no earlier time from now on; if it names none, some window is
  smaller than the weight and the set never admits it.
\<close>

theorem ws_earliest_for_exact:
  assumes "ws_ok ws"
  shows "case ws_earliest_for now w ws of
      Some t \<Rightarrow> now \<le> t \<and> fst (ws_can_consume t w ws)
        \<and> (\<forall>s. now \<le> s \<and> s < t \<longrightarrow> \<not> fst (ws_can_consume s w ws))
    | None \<Rightarrow> (\<exists>r\<in>set ws. rw_capacity r < w) \<and> (\<forall>s. \<not> fst (ws_can_consume s w ws))"
proof (cases "ws_earliest_for now w ws")
  case None
  then obtain r where "r \<in> set ws" and "rw_earliest_for now w r = None"
    by (auto simp: ws_earliest_for_def ws_earliest_fold_None)
  moreover from \<open>r \<in> set ws\<close> assms have "rw_ok r" by (auto simp: ws_ok_def list_all_iff)
  ultimately show ?thesis
    using None rw_earliest_spec(3) set_gate.ready_None[OF assms None] by fastforce
next
  case (Some t)
  then have "now \<le> t" by (rule ws_earliest_ge)
  then show ?thesis using Some set_gate.admits_iff_ready[OF assms] by fastforce
qed

theorem ws_earliest_for_exact_witness:
  "ws_earliest_for 5 2 [\<lparr>rw_capacity = 3, rw_window = 10, rw_history = [(1, 2, Some 7)], rw_used = 2\<rparr>]
     = Some 11
   \<and> fst (ws_can_consume 11 2
       [\<lparr>rw_capacity = 3, rw_window = 10, rw_history = [(1, 2, Some 7)], rw_used = 2\<rparr>])"
proof -
  let ?ws = "[\<lparr>rw_capacity = 3, rw_window = 10, rw_history = [(1, 2, Some 7)], rw_used = 2\<rparr>]"
  have ok: "ws_ok ?ws" by (simp add: rw_ok_def event_weight_def)
  have e: "ws_earliest_for 5 2 ?ws = Some 11"
    by (simp add: ws_earliest_for_def rw_earliest_for_def)
  show ?thesis using ws_earliest_for_exact[OF ok, where now = 5 and w = 2] e
    by (simp del: ws_can_consume.simps)
qed

end
