(* ===== verification/Rate_Safety.thy ===== *)
theory Rate_Safety
  imports Rolling_Window
begin

text \<open>
  What the windows guarantee over a whole run.  A log keeps every admitted grant; \<open>load_at\<close> is the
  weight granted in the window of length \<open>win\<close> that ends at \<open>t\<close>.  The invariant \<open>tracks\<close> ties a
  window to the log: its history is the log without a prefix that has already expired, and no
  window of the log ever holds more than the capacity.
\<close>

definition load_at :: "instant \<Rightarrow> duration \<Rightarrow> window_event list \<Rightarrow> nat" where
  "load_at t win log = weight_sum (filter (\<lambda>e. fst e \<le> t \<and> \<not> expired t win e) log)"

definition tracks :: "instant \<Rightarrow> window_event list \<Rightarrow> rolling_window \<Rightarrow> bool" where
  "tracks now log r \<longleftrightarrow> rw_ok r
     \<and> (\<exists>p. log = p @ rw_history r \<and> (\<forall>e\<in>set p. expired now (rw_window r) e))
     \<and> (\<forall>e\<in>set log. fst e \<le> now)
     \<and> (\<forall>t. load_at t (rw_window r) log \<le> rw_capacity r)"

lemma tracksI:
  assumes "rw_ok r" and "log = p @ rw_history r" and "\<And>e. e \<in> set p \<Longrightarrow> expired now (rw_window r) e"
    and "\<And>e. e \<in> set log \<Longrightarrow> fst e \<le> now" and "\<And>t. load_at t (rw_window r) log \<le> rw_capacity r"
  shows "tracks now log r"
  using assms by (auto simp: tracks_def)

lemma tracks_new: "tracks now [] (rw_new l)"
  by (rule tracksI[of _ _ "[]"]) (simp_all add: rw_new_def load_at_def rw_ok_def)

lemma tracks_later:
  assumes "tracks now log r" and "now \<le> now'"
  shows "tracks now' log r"
proof -
  obtain p where "log = p @ rw_history r" and "\<forall>e\<in>set p. expired now (rw_window r) e"
    using assms(1) by (auto simp: tracks_def)
  with assms show ?thesis
    by (intro tracksI[of _ _ p]) (auto simp: tracks_def expired_def intro: order_trans)
qed

lemma tracks_prune:
  assumes "tracks now log r"
  shows "tracks now log (rw_prune now r)"
proof -
  obtain p where ok: "rw_ok r" and log: "log = p @ rw_history r"
    and p: "\<forall>e\<in>set p. expired now (rw_window r) e" and time: "\<forall>e\<in>set log. fst e \<le> now"
    and load: "\<forall>t. load_at t (rw_window r) log \<le> rw_capacity r"
    using assms by (auto simp: tracks_def)
  let ?x = "expired now (rw_window r)"
  let ?q = "p @ takeWhile ?x (rw_history r)"
  have split: "log = ?q @ rw_history (rw_prune now r)"
    by (simp add: log rw_history_prune[OF ok])
  have dead: "expired now (rw_window (rw_prune now r)) e" if "e \<in> set ?q" for e
    using p that set_takeWhileD[of e ?x] by auto
  show ?thesis
    using ok time load by (intro tracksI[OF _ split dead]) simp_all
qed

lemma tracks_live:
  assumes "tracks now log r"
  shows "rw_history (rw_prune now r) = filter (\<lambda>e. \<not> expired now (rw_window r) e) log"
proof -
  obtain p where ok: "rw_ok r" and "log = p @ rw_history r"
    and "\<forall>e\<in>set p. expired now (rw_window r) e" using assms by (auto simp: tracks_def)
  then show ?thesis by (simp add: rw_history_prune_filter filter_empty_conv)
qed

lemma tracks_consume:
  assumes "tracks now log r" and "fst (rw_can_consume now w r)"
  shows "tracks now (log @ [(now, w, Some j)]) (rw_consume now w j (rw_prune now r))"
proof -
  let ?r = "rw_prune now r" and ?win = "rw_window r"
  have pr: "tracks now log ?r" using assms(1) by (rule tracks_prune)
  then obtain p where ok: "rw_ok ?r" and log: "log = p @ rw_history ?r"
    and p: "\<forall>e\<in>set p. expired now ?win e" and time: "\<forall>e\<in>set log. fst e \<le> now"
    and load: "\<And>t. load_at t ?win log \<le> rw_capacity r"
    by (auto simp: tracks_def)
  have "rw_until now ?r" using time log by (auto simp: rw_until_def)
  then have ok': "rw_ok (rw_consume now w j ?r)" using rw_ok_consume[OF ok] by simp
  have room: "weight_sum (rw_history ?r) + w \<le> rw_capacity r"
    using assms(2) ok by (simp add: rw_can_consume_def Let_def rw_ok_def)
  have load': "load_at t ?win (log @ [(now, w, Some j)]) \<le> rw_capacity r" for t
  proof (cases "now \<le> t")
    case False
    then show ?thesis using load[of t] by (simp add: load_at_def)
  next
    case True
    have "load_at t ?win log \<le> weight_sum (filter (\<lambda>e. \<not> expired now ?win e) log)"
      unfolding load_at_def using True by (intro weight_sum_filter_mono) (auto simp: expired_def)
    also have "\<dots> = weight_sum (rw_history ?r)" using tracks_live[OF assms(1)] by simp
    finally show ?thesis using room by (auto simp: load_at_def event_weight_def)
  qed
  have "rw_history (rw_consume now w j ?r) = rw_history ?r @ [(now, w, Some j)]"
    by (simp add: rw_consume_def)
  then show ?thesis
    using log p time load' ok'
    by (intro tracksI[of _ _ p]) (auto simp: rw_consume_def)
qed

text \<open>A refund removes the one event of a job; the log of what was really sent loses it too.\<close>

definition owned_by :: "job_id \<Rightarrow> nat \<Rightarrow> window_event \<Rightarrow> bool" where
  "owned_by j w e \<longleftrightarrow> snd (snd e) = Some j \<and> event_weight e = w"

definition owners :: "window_event list \<Rightarrow> job_id option list" where
  "owners log = map (\<lambda>e. snd (snd e)) log"

lemma remove_nth_filter:
  assumes "i < length es" and "distinct (owners es)" and "owned_by j w (es ! i)"
  shows "take i es @ drop (Suc i) es = filter (\<lambda>e. \<not> owned_by j w e) es"
proof -
  have es: "es = take i es @ es ! i # drop (Suc i) es" using assms(1) by (rule id_take_nth_drop)
  then have "distinct (owners (take i es @ es ! i # drop (Suc i) es))" using assms(2) by simp
  moreover have "snd (snd (es ! i)) = Some j" using assms(3) by (simp add: owned_by_def)
  ultimately have "\<not> owned_by j w e" if "e \<in> set (take i es) \<union> set (drop (Suc i) es)" for e
    using that by (force simp: owners_def owned_by_def)
  then have "filter (\<lambda>e. \<not> owned_by j w e) (take i es @ es ! i # drop (Suc i) es)
      = take i es @ drop (Suc i) es"
    using assms(3) by (simp add: filter_id_conv)
  with es show ?thesis by simp
qed

lemma tracks_refund:
  assumes "tracks now log r" and "distinct (owners log)"
  shows "tracks now (filter (\<lambda>e. \<not> owned_by j w e) log) (snd (rw_refund now j w r))"
proof -
  let ?r = "rw_prune now r" and ?P = "\<lambda>e. \<not> owned_by j w e"
  have "tracks now log ?r" using assms(1) by (rule tracks_prune)
  then obtain p where ok: "rw_ok ?r" and log: "log = p @ rw_history ?r"
    and p: "\<forall>e\<in>set p. expired now (rw_window r) e" and time: "\<forall>e\<in>set log. fst e \<le> now"
    and load: "\<And>t. load_at t (rw_window r) log \<le> rw_capacity r"
    by (auto simp: tracks_def)
  have dist: "distinct (owners (rw_history ?r))" using assms(2) log by (simp add: owners_def)
  have hist: "rw_history (snd (rw_refund now j w r)) = filter ?P (rw_history ?r)"
  proof (cases "find_event j w (rw_history ?r)")
    case None
    then have "filter ?P (rw_history ?r) = rw_history ?r"
      by (auto simp: find_event_None owned_by_def filter_id_conv)
    with None show ?thesis by (simp add: rw_refund_def Let_def)
  next
    case (Some i)
    then show ?thesis using find_event_Some[OF Some] remove_nth_filter[OF _ dist]
      by (simp add: rw_refund_def Let_def owned_by_def)
  qed
  obtain b r' where rf: "rw_refund now j w r = (b, r')" by fastforce
  have ok_r: "rw_ok r" using assms(1) by (simp add: tracks_def)
  note r' = rw_refund_ok[OF ok_r rf]
  have "load_at t (rw_window r) (filter ?P log) \<le> rw_capacity r" for t
    using load[of t] weight_sum_filter_mono[of log "\<lambda>e. (fst e \<le> t \<and> \<not> expired t (rw_window r) e) \<and> ?P e"
        "\<lambda>e. fst e \<le> t \<and> \<not> expired t (rw_window r) e"]
    by (simp add: load_at_def conj_commute)
  then have load': "load_at t (rw_window r') (filter ?P log) \<le> rw_capacity r'" for t using r' by simp
  have split: "filter ?P log = filter ?P p @ rw_history r'" using log hist rf by simp
  have time': "fst e \<le> now" if "e \<in> set (filter ?P log)" for e using time that by simp
  have "tracks now (filter ?P log) r'"
    by (rule tracksI[OF r'(1) split _ time' load']) (use p r' in auto)
  then show ?thesis using rf by simp
qed


subsection \<open>Every window of a set\<close>

text \<open>
  The requests of a client of one window set: a grant is attempted with a weight for a job, or a
  granted job reports that it sent nothing.  \<open>ws_client\<close> is what \<open>admission\<close>, \<open>grant\<close> and
  \<open>complete\<close> do to one set, with the log of grants that stand.
\<close>

datatype window_request = Attempt instant nat job_id | Undo instant nat job_id

fun request_time :: "window_request \<Rightarrow> instant" where
  "request_time (Attempt now w j) = now"
| "request_time (Undo now w j) = now"

fun ws_client :: "window_request \<Rightarrow> window_set \<times> window_event list \<Rightarrow> window_set \<times> window_event list"
where
  "ws_client (Attempt now w j) (ws, log) =
     (let (ok, ws') = ws_can_consume now w ws
      in if ok then (ws_consume now w j ws', log @ [(now, w, Some j)]) else (ws', log))"
| "ws_client (Undo now w j) (ws, log) =
     (snd (ws_refund now j w ws), filter (\<lambda>e. \<not> owned_by j w e) log)"

fun attempted :: "window_request list \<Rightarrow> job_id list" where
  "attempted [] = []"
| "attempted (Attempt now w j # rs) = j # attempted rs"
| "attempted (Undo now w j # rs) = attempted rs"

lemma ws_refund_snd: "snd (ws_refund now j w ws) = map (\<lambda>r. snd (rw_refund now j w r)) ws"
  by (induction ws) (auto split: prod.splits)

lemma rw_refund_fields [simp]:
  "rw_capacity (snd (rw_refund now j w r)) = rw_capacity r"
  "rw_window (snd (rw_refund now j w r)) = rw_window r"
  by (simp_all add: rw_refund_def Let_def split: option.splits)

lemma rw_consume_fields [simp]:
  "rw_capacity (rw_consume now w j r) = rw_capacity r" "rw_window (rw_consume now w j r) = rw_window r"
  by (simp_all add: rw_consume_def)

definition ws_shape :: "window_set \<Rightarrow> (nat \<times> duration) list" where
  "ws_shape ws = map (\<lambda>r. (rw_capacity r, rw_window r)) ws"

lemma ws_shape_can_consume [simp]: "ws_shape (snd (ws_can_consume now w ws)) = ws_shape ws"
  by (induction ws) (auto simp: ws_shape_def split: prod.splits dest!: rw_can_consume_eq)

lemma ws_client_tracks:
  assumes "\<forall>r\<in>set ws. tracks now log r" and "now \<le> request_time q"
    and "distinct (owners log)" and "\<And>j. j \<in> set (attempted [q]) \<Longrightarrow> Some j \<notin> set (owners log)"
    and "ws_client q (ws, log) = (ws', log')"
  shows "\<forall>r\<in>set ws'. tracks (request_time q) log' r" and "ws_shape ws' = ws_shape ws"
    and "distinct (owners log')" and "set (owners log') \<subseteq> set (owners log) \<union> Some ` set (attempted [q])"
proof -
  have later: "tracks (request_time q) log r" if "r \<in> set ws" for r
    using assms(1,2) that tracks_later by blast
  have "(\<forall>r\<in>set ws'. tracks (request_time q) log' r) \<and> ws_shape ws' = ws_shape ws
    \<and> distinct (owners log') \<and> set (owners log') \<subseteq> set (owners log) \<union> Some ` set (attempted [q])"
  proof (cases q)
    case (Attempt t w j)
    obtain ok ws1 where c: "ws_can_consume t w ws = (ok, ws1)" by fastforce
    show ?thesis
    proof (cases ok)
      case True
      with c have ws1: "ws1 = map (rw_prune t) ws" and "\<forall>r\<in>set ws. fst (rw_can_consume t w r)"
        using ws_can_consume_True ws_can_consume_iff[of t w ws] by auto
      moreover have ws': "ws' = map (rw_consume t w j) ws1" "log' = log @ [(t, w, Some j)]"
        using assms(5) Attempt True c by (auto simp: ws_consume_def)
      ultimately show ?thesis
        using later Attempt assms(3,4)[unfolded Attempt] tracks_consume
        by (auto simp: ws_shape_def owners_def)
    next
      case False
      with c assms(5) Attempt have "ws' = ws1" "log' = log" by auto
      moreover have "list_all2 (\<lambda>r r'. r' = r \<or> r' = rw_prune t r) ws ws1"
        using ws_can_consume_rel[where now = t and w = w and ws = ws] c by simp
      then have "\<forall>r'\<in>set ws1. tracks t log r'"
        using later Attempt tracks_prune
        by (auto simp: list_all2_conv_all_nth in_set_conv_nth) metis
      moreover have "ws_shape ws1 = ws_shape ws"
        using ws_shape_can_consume[where now = t and w = w and ws = ws] c by simp
      ultimately show ?thesis using Attempt assms(3) by auto
    qed
  next
    case (Undo t w j)
    then have "ws' = map (\<lambda>r. snd (rw_refund t j w r)) ws" "log' = filter (\<lambda>e. \<not> owned_by j w e) log"
      using assms(5) by (auto simp: ws_refund_snd)
    then show ?thesis
      using later Undo tracks_refund[OF _ assms(3)] assms(3)
      by (auto simp: ws_shape_def owners_def distinct_map_filter)
  qed
  then show "\<forall>r\<in>set ws'. tracks (request_time q) log' r" and "ws_shape ws' = ws_shape ws"
    and "distinct (owners log')" and "set (owners log') \<subseteq> set (owners log) \<union> Some ` set (attempted [q])"
    by auto
qed

lemma ws_clients_tracks:
  assumes "\<forall>r\<in>set ws. tracks now log r" and "sorted (now # map request_time qs)"
    and "distinct (owners log)" and "distinct (attempted qs)"
    and "\<And>j. j \<in> set (attempted qs) \<Longrightarrow> Some j \<notin> set (owners log)"
    and "fold ws_client qs (ws, log) = (ws', log')"
  shows "(\<exists>t. \<forall>r\<in>set ws'. tracks t log' r) \<and> ws_shape ws' = ws_shape ws"
  using assms
proof (induction qs arbitrary: ws log now)
  case Nil
  then show ?case by auto
next
  case (Cons q qs)
  obtain ws1 log1 where q: "ws_client q (ws, log) = (ws1, log1)" by fastforce
  have att: "set (attempted (q # qs)) = set (attempted [q]) \<union> set (attempted qs)"
    "distinct (attempted qs)" "set (attempted [q]) \<inter> set (attempted qs) = {}"
    using Cons.prems(4) by (cases q; auto)+
  have step: "\<forall>r\<in>set ws1. tracks (request_time q) log1 r" "ws_shape ws1 = ws_shape ws"
    "distinct (owners log1)" "set (owners log1) \<subseteq> set (owners log) \<union> Some ` set (attempted [q])"
    using ws_client_tracks[OF Cons.prems(1) _ Cons.prems(3) _ q] Cons.prems(2,5) att(1) by auto
  have "(\<exists>t. \<forall>r\<in>set ws'. tracks t log' r) \<and> ws_shape ws' = ws_shape ws1"
  proof (rule Cons.IH[OF step(1) _ step(3) att(2)])
    show "sorted (request_time q # map request_time qs)" using Cons.prems(2) by simp
    show "\<And>j. j \<in> set (attempted qs) \<Longrightarrow> Some j \<notin> set (owners log1)"
      using step(4) Cons.prems(5) att by blast
    show "fold ws_client qs (ws1, log1) = (ws', log')" using Cons.prems(6) q by simp
  qed
  then show ?case using step(2) by simp
qed

text \<open>
  C1. Rate limits hold at every moment: after any run of grant attempts and refunds at
  non-decreasing times, with one attempt per job, no window of the set ever held more granted
  weight within its length than its capacity, wherever the window is placed.
\<close>

theorem rate_limit_never_exceeded:
  assumes "sorted (map request_time qs)" and "distinct (attempted qs)"
    and "fold ws_client qs (ws_new ls k, []) = (ws', log)"
    and "l \<in> set ls" and "wl_kind l = AnyKind \<or> wl_kind l = k"
  shows "load_at t (wl_window l) log \<le> wl_capacity l"
proof -
  have "\<forall>r\<in>set (ws_new ls k). tracks 0 [] r" by (auto simp: ws_new_def tracks_new)
  from ws_clients_tracks[OF this _ _ assms(2) _ assms(3)]
  obtain t where tr: "\<forall>r\<in>set ws'. tracks t log r" and sh: "ws_shape ws' = ws_shape (ws_new ls k)"
    using assms(1) by (auto simp: owners_def)
  have "(wl_capacity l, wl_window l) \<in> set (ws_shape (ws_new ls k))"
    using assms(4,5) by (force simp: ws_shape_def ws_new_def rw_new_def)
  then obtain r where "r \<in> set ws'" "rw_capacity r = wl_capacity l" "rw_window r = wl_window l"
    unfolding sh[symmetric] by (auto simp: ws_shape_def)
  with tr show ?thesis by (auto simp: tracks_def)
qed

theorem rate_limit_never_exceeded_witness:
  "load_at 12 10 (snd (fold ws_client [Attempt 0 2 1, Attempt 5 2 2, Undo 6 2 1, Attempt 9 1 3]
      (ws_new [window_limit_new 3 10] AnyKind, []))) \<le> 3"
proof -
  let ?qs = "[Attempt 0 2 1, Attempt 5 2 2, Undo 6 2 1, Attempt 9 1 3]"
  let ?ls = "[window_limit_new 3 10]"
  obtain ws' log where f: "fold ws_client ?qs (ws_new ?ls AnyKind, []) = (ws', log)" by fastforce
  have s: "sorted (map request_time ?qs)" and d: "distinct (attempted ?qs)" by simp_all
  have "load_at 12 (wl_window (window_limit_new 3 10)) log \<le> wl_capacity (window_limit_new 3 10)"
    by (rule rate_limit_never_exceeded[OF s d f]) (simp_all add: window_limit_new_def)
  then show ?thesis unfolding f by (simp add: window_limit_new_def)
qed


subsection \<open>Changing the limits\<close>

lemma rw_insert_at_eq:
  "(case checked_sub now (rw_window r) of
      Some cutoff \<Rightarrow> if at \<le> cutoff then r else rw_insert at w j r
    | None \<Rightarrow> rw_insert at w j r)
   = (if expired now (rw_window r) (at, w, j) then r else rw_insert at w j r)"
  by (auto simp: checked_sub_def expired_def)

lemma ws_insert_events_map:
  "ws_insert_events now es ws
   = map (\<lambda>r. r\<lparr>rw_history := rw_history r @ filter (\<lambda>e. \<not> expired now (rw_window r) e) es,
              rw_used := rw_used r + weight_sum (filter (\<lambda>e. \<not> expired now (rw_window r) e) es)\<rparr>) ws"
proof (induction es arbitrary: ws)
  case Nil
  then show ?case by (simp add: ws_insert_events_def)
next
  case (Cons e es)
  let ?ws = "ws_insert_at now (fst e) (fst (snd e)) (snd (snd e)) ws"
  have "ws_insert_events now (e # es) ws = ws_insert_events now es ?ws"
    by (simp add: ws_insert_events_def)
  moreover have "?ws = map (\<lambda>r. if expired now (rw_window r) e then r
      else rw_insert (fst e) (fst (snd e)) (snd (snd e)) r) ws"
    by (simp add: ws_insert_at_def rw_insert_at_eq)
  ultimately show ?case
    by (simp add: Cons.IH rw_insert_def event_weight_def o_def cong: if_cong)
qed

lemma longest_window_None: "longest_window ws = None \<longleftrightarrow> ws = []"
  by (cases ws) (auto split: option.splits)

lemma longest_window_Some:
  "longest_window ws = Some r \<Longrightarrow> r \<in> set ws \<and> (\<forall>r'\<in>set ws. rw_window r' \<le> rw_window r)"
  by (induction ws arbitrary: r) (fastforce split: option.splits if_splits simp: longest_window_None)+

lemma ws_collect_live:
  assumes "\<forall>r\<in>set ws. tracks now log r" and "r \<in> set ws" and "win \<le> rw_window r"
  shows "filter (\<lambda>e. \<not> expired now win e) (fst (ws_collect_events now ws))
    = filter (\<lambda>e. \<not> expired now win e) log"
proof -
  have "map (rw_prune now) ws \<noteq> []" using assms(2) by auto
  then obtain m where m: "longest_window (map (rw_prune now) ws) = Some m"
    by (metis longest_window_None not_None_eq)
  with longest_window_Some[OF m] obtain q where q: "q \<in> set ws" "m = rw_prune now q"
    and longer: "rw_window r \<le> rw_window q" using assms(2) by auto
  have "fst (ws_collect_events now ws) = filter (\<lambda>e. \<not> expired now (rw_window q) e) log"
    using m q assms(1) tracks_live by (simp add: ws_collect_events_def Let_def)
  then show ?thesis using longer assms(3) by (auto simp: expired_def intro!: filter_cong)
qed



end
