(* ===== verification/Scheduler_State.thy ===== *)
theory Scheduler_State
  imports Rate_Safety
begin

text \<open>
  The data of the deterministic scheduler (\<open>SchedulerState\<close> in \<open>outbound/scheduler.rs\<close>): jobs,
  ordering lanes, the four heaps with their Rust orderings, window reservations, and the
  validated constructor.  \<open>usize\<close> and \<open>u32\<close> counters are natural numbers; the \<open>u64\<close> counters that
  the code lets wrap (\<open>next_sequence\<close>, a lane's \<open>next_order\<close> and \<open>blocked_generation\<close>) are natural
  numbers below \<open>2 ^ 64\<close> with the wrap written out.
\<close>

definition u64_MAX :: nat where
  "u64_MAX = 2 ^ 64 - 1"

definition wrapping_add :: "nat \<Rightarrow> nat \<Rightarrow> nat" where
  "wrapping_add a b = (a + b) mod 2 ^ 64"

definition wrapping_sub :: "nat \<Rightarrow> nat \<Rightarrow> nat" where
  "wrapping_sub a b = (a + 2 ^ 64 - b) mod 2 ^ 64"

definition BLOCKED_FOREVER_DELAY :: duration where
  "BLOCKED_FOREVER_DELAY = 365 * 24 * 3600 * 1000000000"

subsection \<open>References and heap nodes\<close>

datatype candidate_ref = RefJob job_id | RefLane lane_key

fun ref_rank :: "candidate_ref \<Rightarrow> nat \<times> nat" where
  "ref_rank (RefJob j) = (0, j)"
| "ref_rank (RefLane l) = (1, l)"

lemma ref_rank_inj [simp]: "ref_rank a = ref_rank b \<longleftrightarrow> a = b"
  by (cases a; cases b) auto

instantiation candidate_ref :: linorder
begin

definition less_eq_candidate_ref :: "candidate_ref \<Rightarrow> candidate_ref \<Rightarrow> bool" where
  "less_eq_candidate_ref a b \<longleftrightarrow> ref_rank a \<le> ref_rank b"

definition less_candidate_ref :: "candidate_ref \<Rightarrow> candidate_ref \<Rightarrow> bool" where
  "less_candidate_ref a b \<longleftrightarrow> ref_rank a < ref_rank b"

instance
  by intro_classes (auto simp: less_eq_candidate_ref_def less_candidate_ref_def less_le_not_le dest: order.antisym)

end

datatype delayed_job = DelayedJob (dj_not_before: instant) (dj_sequence: nat) (dj_job: job_id)

fun delayed_rank :: "delayed_job \<Rightarrow> instant \<times> nat \<times> job_id" where
  "delayed_rank (DelayedJob t n j) = (t, n, j)"

lemma delayed_rank_inj [simp]: "delayed_rank a = delayed_rank b \<longleftrightarrow> a = b"
  by (cases a; cases b) auto

instantiation delayed_job :: linorder
begin

definition less_eq_delayed_job :: "delayed_job \<Rightarrow> delayed_job \<Rightarrow> bool" where
  "less_eq_delayed_job a b \<longleftrightarrow> delayed_rank a \<le> delayed_rank b"

definition less_delayed_job :: "delayed_job \<Rightarrow> delayed_job \<Rightarrow> bool" where
  "less_delayed_job a b \<longleftrightarrow> delayed_rank a < delayed_rank b"

instance
  by intro_classes (auto simp: less_eq_delayed_job_def less_delayed_job_def less_le_not_le dest: order.antisym)

end

text \<open>Highest effective priority first, then the lower sequence.\<close>

datatype candidate_key =
  CandidateKey (ck_effective: nat) (ck_sequence: nat) (ck_reference: candidate_ref)

fun candidate_rank :: "candidate_key \<Rightarrow> nat \<times> nat reverse \<times> candidate_ref" where
  "candidate_rank (CandidateKey e n r) = (e, Reverse n, r)"

lemma candidate_rank_inj [simp]: "candidate_rank a = candidate_rank b \<longleftrightarrow> a = b"
  by (cases a; cases b) auto

instantiation candidate_key :: linorder
begin

definition less_eq_candidate_key :: "candidate_key \<Rightarrow> candidate_key \<Rightarrow> bool" where
  "less_eq_candidate_key a b \<longleftrightarrow> candidate_rank a \<le> candidate_rank b"

definition less_candidate_key :: "candidate_key \<Rightarrow> candidate_key \<Rightarrow> bool" where
  "less_candidate_key a b \<longleftrightarrow> candidate_rank a < candidate_rank b"

instance
  by intro_classes (auto simp: less_eq_candidate_key_def less_candidate_key_def less_le_not_le dest: order.antisym)

end

text \<open>Finite deadlines precede permanent nodes.\<close>

datatype blocked_job =
  BlockedJob (bj_until: instant) (bj_permanent: bool) (bj_generation: nat) (bj_reference: candidate_ref)

fun blocked_rank :: "blocked_job \<Rightarrow> bool \<times> instant \<times> nat \<times> candidate_ref" where
  "blocked_rank (BlockedJob u p g r) = (p, u, g, r)"

lemma blocked_rank_inj [simp]: "blocked_rank a = blocked_rank b \<longleftrightarrow> a = b"
  by (cases a; cases b) auto

instantiation blocked_job :: linorder
begin

definition less_eq_blocked_job :: "blocked_job \<Rightarrow> blocked_job \<Rightarrow> bool" where
  "less_eq_blocked_job a b \<longleftrightarrow> blocked_rank a \<le> blocked_rank b"

definition less_blocked_job :: "blocked_job \<Rightarrow> blocked_job \<Rightarrow> bool" where
  "less_blocked_job a b \<longleftrightarrow> blocked_rank a < blocked_rank b"

instance
  by intro_classes (auto simp: less_eq_blocked_job_def less_blocked_job_def less_le_not_le dest: order.antisym)

end

datatype aging_event = AgingEvent (ae_at: instant) (ae_reference: candidate_ref)

fun aging_rank :: "aging_event \<Rightarrow> instant \<times> candidate_ref" where
  "aging_rank (AgingEvent t r) = (t, r)"

lemma aging_rank_inj [simp]: "aging_rank a = aging_rank b \<longleftrightarrow> a = b"
  by (cases a; cases b) auto

instantiation aging_event :: linorder
begin

definition less_eq_aging_event :: "aging_event \<Rightarrow> aging_event \<Rightarrow> bool" where
  "less_eq_aging_event a b \<longleftrightarrow> aging_rank a \<le> aging_rank b"

definition less_aging_event :: "aging_event \<Rightarrow> aging_event \<Rightarrow> bool" where
  "less_aging_event a b \<longleftrightarrow> aging_rank a < aging_rank b"

instance
  by intro_classes (auto simp: less_eq_aging_event_def less_aging_event_def less_le_not_le dest: order.antisym)

end

subsection \<open>Jobs, lanes, reservations\<close>

record in_flight_rec =
  if_lane :: "lane_key option"
  if_scope :: outbound_scope
  if_class :: outbound_class
  if_weight :: nat

record coalesce_key =
  ck_scope :: outbound_scope
  ck_lane :: "lane_key option"
  ck_class :: outbound_class
  ck_user_key :: nat

datatype window_ref =
    WinGlobal
  | WinClassGlobal outbound_class
  | WinChat outbound_chat_key
  | WinClassChat outbound_chat_key outbound_class

record job_rec =
  j_meta :: outbound_meta
  j_correlation :: "correlation_id option"
  j_sequence :: nat
  j_ready_at :: instant
  j_not_before :: "instant option"
  j_coalesce_key :: "coalesce_key option"
  j_lane_order :: "nat option"
  j_in_candidate_heap :: bool
  j_candidate_effective :: nat
  j_in_blocked_heap :: bool
  j_parked_in :: "window_ref option"
  j_reservation_owner :: "window_ref option"

record lane_state =
  ln_pending :: "(nat \<times> job_id) list"
  ln_mode :: outbound_lane_mode
  ln_in_flight :: "job_id option"
  ln_in_flight_count :: nat
  ln_next_order :: nat
  ln_stale :: nat
  ln_in_candidate_heap :: bool
  ln_in_blocked_heap :: bool
  ln_blocked_generation :: nat
  ln_candidate_effective :: nat

definition lane_has_capacity :: "lane_state \<Rightarrow> bool" where
  "lane_has_capacity l = mode_has_capacity (ln_mode l) (ln_in_flight_count l)"

definition lane_is_idle :: "lane_state \<Rightarrow> bool" where
  "lane_is_idle l \<longleftrightarrow> ln_pending l = [] \<and>
     (case ln_mode l of
        BoundedOrderedStart _ \<Rightarrow> ln_in_flight_count l = 0
      | _ \<Rightarrow> ln_in_flight l = None)"

record reservation =
  res_owner :: "candidate_ref option"
  res_until :: instant
  res_queue :: "candidate_ref list"
  res_stale :: nat

record candidate =
  c_job :: job_id
  c_weight :: nat
  c_scope :: outbound_scope

datatype admission_verdict =
    Pass
  | Blocked instant "window_ref option"
  | BlockedForever
  | Reserved

datatype penalty_key = PenaltyGlobal | PenaltyChat outbound_chat_key

record enqueue_options =
  opt_lane_mode :: outbound_lane_mode
  opt_mode :: outbound_enqueue_mode
  opt_queue_capacity :: nat
  opt_not_before :: "instant option"
  opt_now :: instant
  opt_correlation :: "correlation_id option"

subsection \<open>The state\<close>

record scheduler_state =
  jobs :: "(job_id, job_rec) hmap"
  candidates :: "candidate_key list"
  blocked :: "blocked_job reverse list"
  aging_events :: "aging_event reverse list"
  reservations :: "(window_ref, reservation) hmap"
  delayed :: "delayed_job reverse list"
  lanes :: "(lane_key, lane_state) hmap"
  coalesce :: "(coalesce_key, job_id) hmap"
  global_windows :: window_set
  chat_window_sets :: "(outbound_chat_key, window_set) hmap"
  class_global_windows :: "(outbound_class, window_set) hmap"
  class_chat_window_sets :: "(outbound_chat_key \<times> outbound_class, window_set) hmap"
  class_limits :: outbound_class_limits
  penalties :: "(penalty_key, instant) hmap"
  in_flight :: "(job_id, in_flight_rec) hmap"
  stale_candidates :: nat
  stale_blocked :: nat
  stale_delayed :: nat
  next_sequence :: nat
  next_job_id :: nat
  aging :: aging_policy
  chat_limits :: "window_limit list"
  global_limits :: "window_limit list"

definition scheduler_new ::
    "outbound_limits \<Rightarrow> outbound_class_limits \<Rightarrow> aging_policy
      \<Rightarrow> scheduler_config_error + scheduler_state" where
  "scheduler_new limits climits ag =
     (if \<exists>w\<in>set (lim_global limits @ lim_chat limits). wl_window w = 0
        then Inl ZeroWindowDuration
      else if \<exists>w\<in>set (lim_global limits). wl_kind w \<noteq> AnyKind
        then Inl KindSpecificGlobalWindow
      else if \<exists>w\<in>set (clim_global climits @ clim_chat climits). cl_window w = 0
        then Inl ZeroWindowDuration
      else if ag_quantum ag = 0 then Inl ZeroAgingQuantum
      else if ag_max_boost ag < HIGHEST - LOWEST
        then Inl (AgingCannotReachHighest (ag_max_boost ag))
      else Inr \<lparr>jobs = [], candidates = [], blocked = [], aging_events = [], reservations = [],
        delayed = [], lanes = [], coalesce = [],
        global_windows = ws_new (lim_global limits) AnyKind,
        chat_window_sets = [],
        class_global_windows = class_window_sets (clim_global climits),
        class_chat_window_sets = [], class_limits = climits, penalties = [], in_flight = [],
        stale_candidates = 0, stale_blocked = 0, stale_delayed = 0, next_sequence = 0,
        next_job_id = 0, aging = ag, chat_limits = lim_chat limits,
        global_limits = lim_global limits\<rparr>)"

text \<open>Effective priority: the base raised by one level per quantum waited, at most to the top.\<close>

definition effective_priority :: "job_rec \<Rightarrow> aging_policy \<Rightarrow> instant \<Rightarrow> nat" where
  "effective_priority job ag now =
     (let base = m_priority (j_meta job);
          waited = now - j_ready_at job;
          quantum = max (ag_quantum ag) 1;
          boost = min (waited div quantum) (ag_max_boost ag)
      in min (base + boost) HIGHEST)"

fun reference_alive :: "candidate_ref \<Rightarrow> scheduler_state \<Rightarrow> bool" where
  "reference_alive (RefJob j) s = hm_has (jobs s) j"
| "reference_alive (RefLane l) s =
     (case hm_get (lanes s) l of
        None \<Rightarrow> False
      | Some ln \<Rightarrow> list_ex (\<lambda>p. hm_has (jobs s) (snd p)) (ln_pending ln))"

fun reference_weight :: "candidate_ref \<Rightarrow> scheduler_state \<Rightarrow> nat option" where
  "reference_weight (RefJob j) s = map_option (\<lambda>job. m_weight (j_meta job)) (hm_get (jobs s) j)"
| "reference_weight (RefLane l) s =
     (case hm_get (lanes s) l of
        None \<Rightarrow> None
      | Some ln \<Rightarrow>
          (case ln_pending ln of
             [] \<Rightarrow> None
           | p # _ \<Rightarrow> map_option (\<lambda>job. m_weight (j_meta job)) (hm_get (jobs s) (snd p))))"

definition blocked_node_alive :: "blocked_job \<Rightarrow> scheduler_state \<Rightarrow> bool" where
  "blocked_node_alive node s =
     (case bj_reference node of
        RefJob j \<Rightarrow> (case hm_get (jobs s) j of None \<Rightarrow> False | Some job \<Rightarrow> j_in_blocked_heap job)
      | RefLane l \<Rightarrow>
          (case hm_get (lanes s) l of
             None \<Rightarrow> False
           | Some ln \<Rightarrow> ln_in_blocked_heap ln \<and> ln_blocked_generation ln = bj_generation node
               \<and> list_ex (\<lambda>p. hm_has (jobs s) (snd p)) (ln_pending ln)))"

end
