(* ===== verification/Scheduler_Queue.thy ===== *)
theory Scheduler_Queue
  imports Scheduler_State
begin

text \<open>
  The candidate heap and what moves a waiting job between the structures of the scheduler:
  pushing a job or a lane head, aging, delayed and blocked promotion, releasing a held window,
  removing a waiting job, and the compaction of the lazily cleaned heaps.  A method that takes
  \<open>&mut self\<close> is a function from the old state to the new one.
\<close>

subsection \<open>Pushing candidates\<close>

text \<open>\<open>schedule_aging\<close> works in \<open>u64\<close>: the quantum is cast and the product wraps.\<close>

definition schedule_aging ::
    "candidate_ref \<Rightarrow> nat \<Rightarrow> nat \<Rightarrow> instant \<Rightarrow> scheduler_state \<Rightarrow> scheduler_state" where
  "schedule_aging reference keyed_effective base ready_at s =
     (if HIGHEST \<le> keyed_effective then s
      else let target = keyed_effective + 1
           in if target \<le> base then s
              else let quantum = max (ag_quantum (aging s)) 1 mod 2 ^ 64;
                       at = ready_at + ((target - base) * quantum) mod 2 ^ 64
                   in s\<lparr>aging_events := heap_push (Reverse (AgingEvent at reference)) (aging_events s)\<rparr>)"

definition push_job_candidate :: "job_id \<Rightarrow> instant \<Rightarrow> scheduler_state \<Rightarrow> scheduler_state" where
  "push_job_candidate j now s =
     (case hm_get (jobs s) j of
        None \<Rightarrow> s
      | Some job \<Rightarrow>
          let effective = effective_priority job (aging s) now;
              s1 = s\<lparr>jobs := hm_adjust j (\<lambda>b. b\<lparr>j_in_candidate_heap := True,
                                              j_candidate_effective := effective\<rparr>) (jobs s)\<rparr>;
              s2 = s1\<lparr>candidates := heap_push (CandidateKey effective (j_sequence job) (RefJob j))
                                             (candidates s1)\<rparr>
          in schedule_aging (RefJob j) effective (m_priority (j_meta job)) (j_ready_at job) s2)"

text \<open>Dead heads of a lane are dropped and uncounted until a live job is first.\<close>

fun drain_dead_heads ::
    "(job_id, job_rec) hmap \<Rightarrow> (nat \<times> job_id) list \<Rightarrow> nat \<Rightarrow> (nat \<times> job_id) list \<times> nat" where
  "drain_dead_heads js [] stale = ([], stale)"
| "drain_dead_heads js (p # ps) stale =
     (if hm_has js (snd p) then (p # ps, stale) else drain_dead_heads js ps (stale - 1))"

definition drain_lane :: "(job_id, job_rec) hmap \<Rightarrow> lane_state \<Rightarrow> lane_state" where
  "drain_lane js ln =
     (let (ps, st) = drain_dead_heads js (ln_pending ln) (ln_stale ln)
      in ln\<lparr>ln_pending := ps, ln_stale := st\<rparr>)"

definition job_delayed_at :: "instant \<Rightarrow> job_rec \<Rightarrow> bool" where
  "job_delayed_at now job = (case j_not_before job of None \<Rightarrow> False | Some nb \<Rightarrow> now < nb)"

definition push_lane_head_candidate :: "lane_key \<Rightarrow> instant \<Rightarrow> scheduler_state \<Rightarrow> scheduler_state" where
  "push_lane_head_candidate l now s =
     (case hm_get (lanes s) l of
        None \<Rightarrow> s
      | Some ln0 \<Rightarrow>
          if \<not> lane_has_capacity ln0 then s
          else if ln_in_blocked_heap ln0 then s
          else
            let ln = drain_lane (jobs s) ln0;
                s1 = s\<lparr>lanes := hm_insert l ln (lanes s)\<rparr>
            in case ln_pending ln of
                 [] \<Rightarrow> s1\<lparr>lanes := hm_remove l (lanes s1)\<rparr>
               | (_, j) # _ \<Rightarrow>
                   (case hm_get (jobs s1) j of
                      None \<Rightarrow> s1\<lparr>lanes := hm_remove l (lanes s1)\<rparr>
                    | Some job \<Rightarrow>
                        if job_delayed_at now job \<or> ln_in_candidate_heap ln then s1
                        else
                          let effective = effective_priority job (aging s1) now;
                              s2 = s1\<lparr>lanes := hm_adjust l (\<lambda>b. b\<lparr>ln_in_candidate_heap := True,
                                     ln_candidate_effective := effective\<rparr>) (lanes s1)\<rparr>;
                              s3 = s2\<lparr>candidates := heap_push
                                     (CandidateKey effective (j_sequence job) (RefLane l)) (candidates s2)\<rparr>
                          in schedule_aging (RefLane l) effective (m_priority (j_meta job))
                               (j_ready_at job) s3))"

fun push_reference :: "candidate_ref \<Rightarrow> instant \<Rightarrow> scheduler_state \<Rightarrow> scheduler_state" where
  "push_reference (RefJob j) now s = push_job_candidate j now s"
| "push_reference (RefLane l) now s = push_lane_head_candidate l now s"

subsection \<open>Releasing a held window and removing a waiting job\<close>

definition unpark :: "window_ref \<Rightarrow> candidate_ref \<Rightarrow> scheduler_state \<Rightarrow> scheduler_state" where
  "unpark w r s =
     (case r of
        RefJob j \<Rightarrow> s\<lparr>jobs := hm_adjust j (\<lambda>b. if j_parked_in b = Some w
                                               then b\<lparr>j_parked_in := None\<rparr> else b) (jobs s)\<rparr>
      | RefLane _ \<Rightarrow> s)"

definition release_reservation ::
    "window_ref \<Rightarrow> candidate_ref \<Rightarrow> instant \<Rightarrow> scheduler_state \<Rightarrow> scheduler_state" where
  "release_reservation w owner now s =
     (case hm_get (reservations s) w of
        None \<Rightarrow> s
      | Some res \<Rightarrow>
          if res_owner res \<noteq> Some owner then s
          else fold (\<lambda>r t. push_reference r now (unpark w r t)) (res_queue res)
                 (s\<lparr>reservations := hm_remove w (reservations s)\<rparr>))"

definition remove_coalesce_entry :: "job_id \<Rightarrow> coalesce_key option \<Rightarrow> scheduler_state \<Rightarrow> scheduler_state"
where
  "remove_coalesce_entry j key s =
     (case key of
        None \<Rightarrow> s
      | Some k \<Rightarrow> if hm_get (coalesce s) k = Some j then s\<lparr>coalesce := hm_remove k (coalesce s)\<rparr> else s)"

text \<open>The accounting of the lane a removed job leaves behind.\<close>

definition forget_in_lane :: "lane_key \<Rightarrow> instant \<Rightarrow> scheduler_state \<Rightarrow> scheduler_state" where
  "forget_in_lane l now s =
     (case hm_get (lanes s) l of
        None \<Rightarrow> s
      | Some ln0 \<Rightarrow>
          let ln = ln0\<lparr>ln_stale := ln_stale ln0 + 1\<rparr>
          in if \<not> ln_in_blocked_heap ln then s\<lparr>lanes := hm_insert l ln (lanes s)\<rparr>
             else if list_ex (\<lambda>p. hm_has (jobs s) (snd p)) (ln_pending ln) then
               let g = wrapping_add (ln_blocked_generation ln) 1
               in s\<lparr>lanes := hm_insert l (ln\<lparr>ln_blocked_generation := g\<rparr>) (lanes s),
                    stale_blocked := stale_blocked s + 1,
                    blocked := heap_push (Reverse (BlockedJob now False g (RefLane l))) (blocked s)\<rparr>
             else s\<lparr>lanes := hm_insert l (ln\<lparr>ln_in_blocked_heap := False\<rparr>) (lanes s),
                    stale_blocked := stale_blocked s + 1\<rparr>)"

definition remove_waiting :: "job_id \<Rightarrow> instant \<Rightarrow> scheduler_state \<Rightarrow> scheduler_state" where
  "remove_waiting j now s =
     (case hm_get (jobs s) j of
        None \<Rightarrow> s
      | Some job \<Rightarrow>
          let was_delayed = (j_not_before job \<noteq> None);
              lane = m_lane (j_meta job);
              s1 = (if was_delayed then s\<lparr>stale_delayed := stale_delayed s + 1\<rparr> else s);
              s2 = (if j_in_blocked_heap job then s1\<lparr>stale_blocked := stale_blocked s1 + 1\<rparr> else s1);
              s3 = (case j_parked_in job of
                      None \<Rightarrow> s2
                    | Some w \<Rightarrow> s2\<lparr>reservations := hm_adjust w (\<lambda>r. r\<lparr>res_stale := res_stale r + 1\<rparr>)
                                                     (reservations s2)\<rparr>);
              s4 = (case j_reservation_owner job of
                      None \<Rightarrow> s3
                    | Some w \<Rightarrow> release_reservation w
                         (case lane of Some l \<Rightarrow> RefLane l | None \<Rightarrow> RefJob j) now s3);
              s5 = remove_coalesce_entry j (j_coalesce_key job) s4;
              s6 = s5\<lparr>jobs := hm_remove j (jobs s5)\<rparr>
          in case lane of
               Some l \<Rightarrow> forget_in_lane l now s6
             | None \<Rightarrow> if was_delayed then s6 else s6\<lparr>stale_candidates := stale_candidates s6 + 1\<rparr>)"

subsection \<open>Compaction\<close>

definition compact_delayed_if_needed :: "scheduler_state \<Rightarrow> scheduler_state" where
  "compact_delayed_if_needed s =
     (if stale_delayed s = 0 \<or> stale_delayed s * 2 \<le> length (delayed s) then s
      else s\<lparr>delayed := filter (\<lambda>d. hm_has (jobs s) (dj_job (the_rev d))) (delayed s),
             stale_delayed := 0\<rparr>)"

definition compact_candidate_heap_if_needed :: "scheduler_state \<Rightarrow> scheduler_state" where
  "compact_candidate_heap_if_needed s =
     (if stale_candidates s = 0 \<or> stale_candidates s * 2 \<le> length (candidates s) then s
      else s\<lparr>candidates := filter (\<lambda>k. reference_alive (ck_reference k) s) (candidates s),
             stale_candidates := 0\<rparr>)"

definition compact_blocked_if_needed :: "scheduler_state \<Rightarrow> scheduler_state" where
  "compact_blocked_if_needed s =
     (if stale_blocked s = 0 \<or> stale_blocked s * 2 < length (blocked s) then s
      else s\<lparr>blocked := filter (\<lambda>n. blocked_node_alive (the_rev n) s) (blocked s),
             stale_blocked := 0\<rparr>)"

definition compact_lane :: "(job_id, job_rec) hmap \<Rightarrow> lane_state \<Rightarrow> lane_state" where
  "compact_lane js ln =
     (if length (ln_pending ln) < ln_stale ln * 2
        then ln\<lparr>ln_pending := filter (\<lambda>p. hm_has js (snd p)) (ln_pending ln), ln_stale := 0\<rparr>
        else ln)"

definition compact_lanes_if_needed :: "scheduler_state \<Rightarrow> scheduler_state" where
  "compact_lanes_if_needed s = s\<lparr>lanes := hm_map_values (\<lambda>_. compact_lane (jobs s)) (lanes s)\<rparr>"

definition compact_reservation :: "scheduler_state \<Rightarrow> reservation \<Rightarrow> reservation" where
  "compact_reservation s res =
     (if res_stale res = 0 \<or> res_stale res * 2 < length (res_queue res) then res
      else res\<lparr>res_queue := filter (\<lambda>r. reference_alive r s) (res_queue res), res_stale := 0\<rparr>)"

definition compact_reservations_if_needed :: "scheduler_state \<Rightarrow> scheduler_state" where
  "compact_reservations_if_needed s =
     s\<lparr>reservations := hm_map_values (\<lambda>_. compact_reservation s) (reservations s)\<rparr>"

definition cancel :: "job_id \<Rightarrow> instant \<Rightarrow> scheduler_state \<Rightarrow> scheduler_state" where
  "cancel j now s = compact_blocked_if_needed (compact_delayed_if_needed (remove_waiting j now s))"

end
