(* ===== verification/Scheduler_Grant.thy ===== *)
theory Scheduler_Grant
  imports Scheduler_Queue
begin

text \<open>
  The arbitration pass \<open>grant_ready\<close>: the four promotions, the candidate loop, the admission check
  and the grant itself.  A panic of the code (\<open>expect\<close> on a missing lane, an empty lane or a
  missing active window) and an aging loop that would not end are the value \<open>None\<close>.
\<close>

subsection \<open>Promotions\<close>

text \<open>
  One aging event that is due.  Re-arming schedules a later event, so a pass takes at most the
  events present at its start; the fuel is their number and one more for the final look.
\<close>

definition promote_aging_event :: "candidate_ref \<Rightarrow> instant \<Rightarrow> scheduler_state \<Rightarrow> scheduler_state" where
  "promote_aging_event reference now s =
     (case reference of
        RefJob j \<Rightarrow>
          (case hm_get (jobs s) j of
             None \<Rightarrow> s
           | Some job \<Rightarrow>
               if \<not> j_in_candidate_heap job then s
               else let effective = effective_priority job (aging s) now
                    in if effective \<le> j_candidate_effective job then s
                       else let s1 = s\<lparr>jobs := hm_adjust j (\<lambda>b. b\<lparr>j_candidate_effective := effective\<rparr>)
                                               (jobs s)\<rparr>;
                                s2 = s1\<lparr>candidates := heap_push
                                        (CandidateKey effective (j_sequence job) (RefJob j)) (candidates s1)\<rparr>
                            in schedule_aging reference effective (m_priority (j_meta job))
                                 (j_ready_at job) s2)
      | RefLane l \<Rightarrow>
          (case hm_get (lanes s) l of
             None \<Rightarrow> s
           | Some ln \<Rightarrow>
               if \<not> ln_in_candidate_heap ln then s
               else (case ln_pending ln of
                       [] \<Rightarrow> s
                     | p # _ \<Rightarrow>
                         (case hm_get (jobs s) (snd p) of
                            None \<Rightarrow> s
                          | Some job \<Rightarrow>
                              if job_delayed_at now job then s
                              else let effective = effective_priority job (aging s) now
                                   in if effective \<le> ln_candidate_effective ln
                                      then schedule_aging reference effective (m_priority (j_meta job))
                                             (j_ready_at job) s
                                      else let s1 = s\<lparr>lanes := hm_adjust l
                                               (\<lambda>b. b\<lparr>ln_candidate_effective := effective\<rparr>) (lanes s)\<rparr>;
                                               s2 = s1\<lparr>candidates := heap_push (CandidateKey effective
                                                 (j_sequence job) (RefLane l)) (candidates s1)\<rparr>
                                           in schedule_aging reference effective
                                                (m_priority (j_meta job)) (j_ready_at job) s2))))"

fun promote_aging_loop :: "nat \<Rightarrow> instant \<Rightarrow> scheduler_state \<Rightarrow> scheduler_state option" where
  "promote_aging_loop 0 now s = None"
| "promote_aging_loop (Suc fuel) now s =
     (case aging_events s of
        [] \<Rightarrow> Some s
      | e # es \<Rightarrow>
          if now < ae_at (the_rev e) then Some s
          else promote_aging_loop fuel now
                 (promote_aging_event (ae_reference (the_rev e)) now (s\<lparr>aging_events := es\<rparr>)))"

definition promote_aging :: "instant \<Rightarrow> scheduler_state \<Rightarrow> scheduler_state option" where
  "promote_aging now s = promote_aging_loop (Suc (length (aging_events s))) now s"

text \<open>The heap being drained is passed beside the state: the body never pushes to it.\<close>

definition promote_delayed_job :: "job_id \<Rightarrow> instant \<Rightarrow> scheduler_state \<Rightarrow> scheduler_state" where
  "promote_delayed_job j now s =
     (case hm_get (jobs s) j of
        None \<Rightarrow> s\<lparr>stale_delayed := stale_delayed s - 1\<rparr>
      | Some job \<Rightarrow>
          let s1 = s\<lparr>jobs := hm_adjust j (\<lambda>b. b\<lparr>j_ready_at := now, j_not_before := None\<rparr>) (jobs s)\<rparr>
          in case m_lane (j_meta job) of
               Some l \<Rightarrow> push_lane_head_candidate l now s1
             | None \<Rightarrow> push_job_candidate j now s1)"

fun promote_delayed_loop ::
    "instant \<Rightarrow> delayed_job reverse list \<Rightarrow> scheduler_state \<Rightarrow> scheduler_state" where
  "promote_delayed_loop now [] s = s\<lparr>delayed := []\<rparr>"
| "promote_delayed_loop now (d # ds) s =
     (if now < dj_not_before (the_rev d) then s\<lparr>delayed := d # ds\<rparr>
      else promote_delayed_loop now ds (promote_delayed_job (dj_job (the_rev d)) now s))"

definition promote_delayed :: "instant \<Rightarrow> scheduler_state \<Rightarrow> scheduler_state" where
  "promote_delayed now s = promote_delayed_loop now (delayed s) s"

definition drop_stale_blocked :: "scheduler_state \<Rightarrow> scheduler_state" where
  "drop_stale_blocked s = s\<lparr>stale_blocked := stale_blocked s - 1\<rparr>"

definition promote_blocked_node :: "blocked_job \<Rightarrow> instant \<Rightarrow> scheduler_state \<Rightarrow> scheduler_state" where
  "promote_blocked_node node now s =
     (case bj_reference node of
        RefJob j \<Rightarrow>
          (case hm_get (jobs s) j of
             None \<Rightarrow> drop_stale_blocked s
           | Some job \<Rightarrow>
               if j_not_before job \<noteq> None then s
               else if \<not> j_in_blocked_heap job then drop_stale_blocked s
               else push_job_candidate j now
                      (s\<lparr>jobs := hm_adjust j (\<lambda>b. b\<lparr>j_in_blocked_heap := False\<rparr>) (jobs s)\<rparr>))
      | RefLane l \<Rightarrow>
          (case hm_get (lanes s) l of
             None \<Rightarrow> drop_stale_blocked s
           | Some ln \<Rightarrow>
               if bj_generation node \<noteq> ln_blocked_generation ln then drop_stale_blocked s
               else if \<not> ln_in_blocked_heap ln then drop_stale_blocked s
               else let s1 = s\<lparr>lanes := hm_adjust l (\<lambda>b. b\<lparr>ln_in_blocked_heap := False\<rparr>) (lanes s)\<rparr>
                    in if \<not> list_ex (\<lambda>p. hm_has (jobs s) (snd p)) (ln_pending ln)
                         then drop_stale_blocked s1
                       else push_lane_head_candidate l now s1))"

fun promote_blocked_loop ::
    "instant \<Rightarrow> blocked_job reverse list \<Rightarrow> scheduler_state \<Rightarrow> scheduler_state" where
  "promote_blocked_loop now [] s = s\<lparr>blocked := []\<rparr>"
| "promote_blocked_loop now (b # bs) s =
     (if bj_permanent (the_rev b) \<or> now < bj_until (the_rev b) then s\<lparr>blocked := b # bs\<rparr>
      else promote_blocked_loop now bs (promote_blocked_node (the_rev b) now s))"

definition promote_blocked :: "instant \<Rightarrow> scheduler_state \<Rightarrow> scheduler_state" where
  "promote_blocked now s = promote_blocked_loop now (blocked s) s"

fun drop_dead_front :: "scheduler_state \<Rightarrow> candidate_ref list \<Rightarrow> nat \<Rightarrow> candidate_ref list \<times> nat" where
  "drop_dead_front s [] stale = ([], stale)"
| "drop_dead_front s (r # rs) stale =
     (if reference_alive r s then (r # rs, stale) else drop_dead_front s rs (stale - 1))"

definition promote_reservation :: "window_ref \<Rightarrow> instant \<Rightarrow> scheduler_state \<Rightarrow> scheduler_state" where
  "promote_reservation w now s =
     (case hm_get (reservations s) w of
        None \<Rightarrow> s
      | Some res \<Rightarrow>
          (case drop_dead_front s (res_queue res) (res_stale res) of
             ([], stale) \<Rightarrow> s\<lparr>reservations := hm_remove w (reservations s)\<rparr>
           | (r # rs, stale) \<Rightarrow>
               let s1 = s\<lparr>reservations := hm_insert w (res\<lparr>res_queue := rs, res_stale := stale\<rparr>)
                                                     (reservations s)\<rparr>;
                   s2 = (case r of
                           RefJob j \<Rightarrow> s1\<lparr>jobs := hm_adjust j (\<lambda>b. b\<lparr>j_parked_in := None\<rparr>) (jobs s1)\<rparr>
                         | RefLane _ \<Rightarrow> s1)
               in push_reference r now s2))"

definition promote_reservations :: "instant \<Rightarrow> scheduler_state \<Rightarrow> scheduler_state" where
  "promote_reservations now s =
     fold (\<lambda>w t. promote_reservation w now t)
          (map fst (filter (\<lambda>p. res_until (snd p) \<le> now) (reservations s))) s"

subsection \<open>Popping the best candidate\<close>

datatype pop_outcome = PopEmpty | PopAgain | PopCandidate candidate

definition bump_stale :: "scheduler_state \<Rightarrow> scheduler_state" where
  "bump_stale s = s\<lparr>stale_candidates := stale_candidates s + 1\<rparr>"

definition pop_job_key :: "candidate_key \<Rightarrow> job_id \<Rightarrow> scheduler_state \<Rightarrow> pop_outcome \<times> scheduler_state" where
  "pop_job_key key j s =
     (case hm_get (jobs s) j of
        None \<Rightarrow> (PopAgain, bump_stale s)
      | Some job \<Rightarrow>
          if ck_effective key < j_candidate_effective job then (PopAgain, bump_stale s)
          else (PopCandidate \<lparr>c_job = j, c_weight = m_weight (j_meta job), c_scope = m_scope (j_meta job)\<rparr>,
                s\<lparr>jobs := hm_adjust j (\<lambda>b. b\<lparr>j_in_candidate_heap := False\<rparr>) (jobs s)\<rparr>))"

definition pop_lane_key ::
    "candidate_key \<Rightarrow> lane_key \<Rightarrow> instant \<Rightarrow> scheduler_state \<Rightarrow> pop_outcome \<times> scheduler_state" where
  "pop_lane_key key l now s =
     (case hm_get (lanes s) l of
        None \<Rightarrow> (PopAgain, bump_stale s)
      | Some ln0 \<Rightarrow>
          if ck_effective key < ln_candidate_effective ln0 then (PopAgain, bump_stale s)
          else
            let ln1 = ln0\<lparr>ln_in_candidate_heap := False\<rparr>;
                s1 = s\<lparr>lanes := hm_insert l ln1 (lanes s)\<rparr>
            in if \<not> lane_has_capacity ln1 then (PopAgain, s1)
               else
                 let ln = drain_lane (jobs s1) ln1;
                     s2 = s1\<lparr>lanes := hm_insert l ln (lanes s1)\<rparr>;
                     head = (case ln_pending ln of
                               [] \<Rightarrow> None
                             | p # _ \<Rightarrow>
                                 (case hm_get (jobs s2) (snd p) of
                                    None \<Rightarrow> None
                                  | Some job \<Rightarrow> if job_delayed_at now job then None else Some (snd p, job)))
                 in case head of
                      None \<Rightarrow> (PopAgain, if lane_is_idle ln then s2\<lparr>lanes := hm_remove l (lanes s2)\<rparr> else s2)
                    | Some (j, job) \<Rightarrow>
                        if effective_priority job (aging s2) now \<noteq> ck_effective key
                             \<or> j_sequence job \<noteq> ck_sequence key
                          then (PopAgain, push_lane_head_candidate l now s2)
                        else (PopCandidate \<lparr>c_job = j, c_weight = m_weight (j_meta job),
                                            c_scope = m_scope (j_meta job)\<rparr>, s2))"

definition pop_step :: "instant \<Rightarrow> scheduler_state \<Rightarrow> pop_outcome \<times> scheduler_state" where
  "pop_step now s =
     (case candidates s of
        [] \<Rightarrow> (PopEmpty, s)
      | key # rest \<Rightarrow>
          let s1 = s\<lparr>candidates := rest\<rparr>
          in case ck_reference key of
               RefJob j \<Rightarrow> pop_job_key key j s1
             | RefLane l \<Rightarrow> pop_lane_key key l now s1)"

text \<open>
  The loop of \<open>pop_candidate\<close> ends: a key leaves the heap in every turn, and the only key a turn
  adds is the fresh one of the lane it has just looked at, which cannot be stale when it is
  popped in its turn.  \<open>key_cost\<close> counts a key once and a stale lane key twice.
\<close>

definition live_head :: "(job_id, job_rec) hmap \<Rightarrow> lane_state \<Rightarrow> job_rec option" where
  "live_head js ln =
     (case find (\<lambda>p. hm_has js (snd p)) (ln_pending ln) of
        None \<Rightarrow> None
      | Some p \<Rightarrow> hm_get js (snd p))"

definition head_of :: "scheduler_state \<Rightarrow> lane_key \<Rightarrow> job_rec option" where
  "head_of s l = Option.bind (hm_get (lanes s) l) (live_head (jobs s))"

definition key_cost :: "instant \<Rightarrow> scheduler_state \<Rightarrow> candidate_key \<Rightarrow> nat" where
  "key_cost now s key =
     (case ck_reference key of
        RefJob _ \<Rightarrow> 1
      | RefLane l \<Rightarrow>
          (case head_of s l of
             None \<Rightarrow> 1
           | Some job \<Rightarrow>
               if effective_priority job (aging s) now = ck_effective key
                    \<and> j_sequence job = ck_sequence key then 1 else 2))"

definition pop_cost :: "instant \<Rightarrow> scheduler_state \<Rightarrow> nat" where
  "pop_cost now s = sum_list (map (key_cost now s) (candidates s))"

lemma key_cost_pos: "0 < key_cost now s k"
  by (simp add: key_cost_def split: candidate_ref.split option.split)

lemma drain_dead_heads_drop:
  "fst (drain_dead_heads js ps n) = dropWhile (\<lambda>p. \<not> hm_has js (snd p)) ps"
  by (induction js ps n rule: drain_dead_heads.induct) auto

lemma find_dropWhile_None [simp]:
  "find (\<lambda>x. \<exists>y. f x = Some y) (dropWhile (\<lambda>x. f x = None) xs) = find (\<lambda>x. \<exists>y. f x = Some y) xs"
  by (induction xs) auto

lemma drain_lane_pending:
  "ln_pending (drain_lane js ln) = dropWhile (\<lambda>p. \<not> hm_has js (snd p)) (ln_pending ln)"
  using drain_dead_heads_drop[of js "ln_pending ln" "ln_stale ln"]
  by (auto simp: drain_lane_def split: prod.splits)

lemma drain_lane_simps [simp]:
  "ln_mode (drain_lane js ln) = ln_mode ln"
  "ln_in_flight (drain_lane js ln) = ln_in_flight ln"
  "ln_in_flight_count (drain_lane js ln) = ln_in_flight_count ln"
  "ln_in_candidate_heap (drain_lane js ln) = ln_in_candidate_heap ln"
  "ln_in_blocked_heap (drain_lane js ln) = ln_in_blocked_heap ln"
  "ln_blocked_generation (drain_lane js ln) = ln_blocked_generation ln"
  "ln_candidate_effective (drain_lane js ln) = ln_candidate_effective ln"
  "ln_next_order (drain_lane js ln) = ln_next_order ln"
  using drain_dead_heads_drop[of js "ln_pending ln" "ln_stale ln"]
  by (auto simp: drain_lane_def split: prod.splits)

lemma live_head_drain [simp]: "live_head js (drain_lane js ln) = live_head js ln"
  by (simp add: live_head_def drain_lane_pending)

lemma live_head_update [simp]:
  "live_head js (ln\<lparr>ln_in_candidate_heap := b\<rparr>) = live_head js ln"
  "live_head js (ln\<lparr>ln_candidate_effective := e\<rparr>) = live_head js ln"
  by (simp_all add: live_head_def)

definition heads_agree :: "scheduler_state \<Rightarrow> scheduler_state \<Rightarrow> bool" where
  "heads_agree s s' \<longleftrightarrow> jobs s' = jobs s \<and> aging s' = aging s \<and> (\<forall>l. head_of s' l = head_of s l)"

lemma heads_agree_refl [simp]: "heads_agree s s"
  by (simp add: heads_agree_def)

lemma heads_agree_trans: "heads_agree s t \<Longrightarrow> heads_agree t u \<Longrightarrow> heads_agree s u"
  by (simp add: heads_agree_def)

lemma heads_agree_cost: "heads_agree s s' \<Longrightarrow> key_cost now s' k = key_cost now s k"
  by (auto simp: heads_agree_def key_cost_def split: candidate_ref.split option.split)

lemma heads_agree_update [simp]:
  "heads_agree s (t\<lparr>candidates := c\<rparr>) = heads_agree s t"
  "heads_agree s (t\<lparr>aging_events := a\<rparr>) = heads_agree s t"
  "heads_agree s (t\<lparr>stale_candidates := n\<rparr>) = heads_agree s t"
  "heads_agree (s\<lparr>candidates := c\<rparr>) t = heads_agree s t"
  by (simp_all add: heads_agree_def head_of_def)

lemma heads_agree_insert:
  assumes "hm_get (lanes t) l = Some ln" and "live_head (jobs t) ln' = live_head (jobs t) ln"
  shows "heads_agree s (t\<lparr>lanes := hm_insert l ln' (lanes t)\<rparr>) = heads_agree s t"
proof -
  have "head_of (t\<lparr>lanes := hm_insert l ln' (lanes t)\<rparr>) l' = head_of t l'" for l'
    using assms by (cases "hm_get (lanes t) l'") (auto simp: head_of_def)
  then show ?thesis by (simp add: heads_agree_def)
qed

lemma heads_agree_adjust:
  assumes "\<And>ln. live_head (jobs t) (f ln) = live_head (jobs t) ln"
  shows "heads_agree s (t\<lparr>lanes := hm_adjust l f (lanes t)\<rparr>) = heads_agree s t"
proof -
  have "head_of (t\<lparr>lanes := hm_adjust l f (lanes t)\<rparr>) l' = head_of t l'" for l'
    by (cases "hm_get (lanes t) l"; cases "l' = l") (simp_all add: head_of_def assms)
  then show ?thesis by (simp add: heads_agree_def)
qed

lemma heads_agree_remove:
  assumes "hm_get (lanes t) l = Some ln" and "live_head (jobs t) ln = None"
  shows "heads_agree s (t\<lparr>lanes := hm_remove l (lanes t)\<rparr>) = heads_agree s t"
proof -
  have "head_of (t\<lparr>lanes := hm_remove l (lanes t)\<rparr>) l' = head_of t l'" for l'
    using assms by (cases "hm_get (lanes t) l'") (auto simp: head_of_def)
  then show ?thesis by (simp add: heads_agree_def)
qed

lemma schedule_aging_heads [simp]:
  "heads_agree s (schedule_aging r e b t u) = heads_agree s u"
  "candidates (schedule_aging r e b t u) = candidates u"
  by (simp_all add: schedule_aging_def Let_def)

lemma drained_Nil:
  assumes "ln_pending (drain_lane js ln) = []"
  shows "live_head js ln = None"
  by (subst live_head_drain[symmetric]) (simp add: live_head_def assms)

lemma drained_Cons:
  assumes "ln_pending (drain_lane js ln) = p # ps"
  shows "live_head js ln = hm_get js (snd p)" and "hm_get js (snd p) \<noteq> None"
proof -
  show n: "hm_get js (snd p) \<noteq> None"
    using hd_dropWhile[of "\<lambda>p. \<not> hm_has js (snd p)" "ln_pending ln"] assms
    by (metis drain_lane_pending list.discI list.sel(1))
  with assms show "live_head js ln = hm_get js (snd p)"
    by (subst live_head_drain[symmetric]) (auto simp: live_head_def)
qed

lemma push_lane_head_cases [case_names same gone kept pushed]:
  obtains "push_lane_head_candidate l now t = t"
  | ln where "hm_get (lanes t) l = Some ln" and "lane_has_capacity ln" and "\<not> ln_in_blocked_heap ln"
      and "ln_pending (drain_lane (jobs t) ln) = []"
      and "push_lane_head_candidate l now t
        = t\<lparr>lanes := hm_remove l (hm_insert l (drain_lane (jobs t) ln) (lanes t))\<rparr>"
  | ln p ps job where "hm_get (lanes t) l = Some ln" and "lane_has_capacity ln"
      and "\<not> ln_in_blocked_heap ln"
      and "ln_pending (drain_lane (jobs t) ln) = p # ps" and "hm_get (jobs t) (snd p) = Some job"
      and "job_delayed_at now job \<or> ln_in_candidate_heap ln"
      and "push_lane_head_candidate l now t
        = t\<lparr>lanes := hm_insert l (drain_lane (jobs t) ln) (lanes t)\<rparr>"
  | ln p ps job e where "hm_get (lanes t) l = Some ln" and "lane_has_capacity ln"
      and "\<not> ln_in_blocked_heap ln"
      and "ln_pending (drain_lane (jobs t) ln) = p # ps" and "hm_get (jobs t) (snd p) = Some job"
      and "\<not> job_delayed_at now job" and "\<not> ln_in_candidate_heap ln"
      and "e = effective_priority job (aging t) now"
      and "push_lane_head_candidate l now t
        = schedule_aging (RefLane l) e (m_priority (j_meta job)) (j_ready_at job)
           (t\<lparr>lanes := hm_adjust l (\<lambda>b. b\<lparr>ln_in_candidate_heap := True, ln_candidate_effective := e\<rparr>)
                        (hm_insert l (drain_lane (jobs t) ln) (lanes t)),
              candidates := heap_push (CandidateKey e (j_sequence job) (RefLane l)) (candidates t)\<rparr>)"
proof (cases "hm_get (lanes t) l")
  case None
  then show thesis using that(1) by (simp add: push_lane_head_candidate_def)
next
  case (Some ln)
  show thesis
  proof (cases "lane_has_capacity ln \<and> \<not> ln_in_blocked_heap ln")
    case False
    then show thesis using Some that(1) by (simp add: push_lane_head_candidate_def)
  next
    case free: True
    note push = push_lane_head_candidate_def Let_def Some free
    show thesis
    proof (cases "ln_pending (drain_lane (jobs t) ln)")
      case Nil
      then have "push_lane_head_candidate l now t
          = t\<lparr>lanes := hm_remove l (hm_insert l (drain_lane (jobs t) ln) (lanes t))\<rparr>" by (simp add: push)
      with that(2)[OF Some] free Nil show thesis by blast
    next
      case (Cons p ps)
      then obtain job where job: "hm_get (jobs t) (snd p) = Some job"
        using drained_Cons(2)[of "jobs t" ln p ps] by auto
      obtain n j where p: "p = (n, j)" by (cases p)
      show thesis
      proof (cases "job_delayed_at now job \<or> ln_in_candidate_heap ln")
        case True
        then show thesis using that(3)[OF Some _ _ Cons job] free Cons job p by (simp add: push)
      next
        case False
        then show thesis using that(4)[OF Some _ _ Cons job _ _ refl] free Cons job p
          by (simp add: push)
      qed
    qed
  qed
qed

lemma push_lane_head_heads: "heads_agree s (push_lane_head_candidate l now t) = heads_agree s t"
proof -
  have ins: "heads_agree s (t\<lparr>lanes := hm_insert l (drain_lane (jobs t) ln) (lanes t)\<rparr>) = heads_agree s t"
    if "hm_get (lanes t) l = Some ln" for ln
    by (rule heads_agree_insert[OF that]) simp
  show ?thesis
  proof (cases rule: push_lane_head_cases[of l now t])
    case same
    then show ?thesis by simp
  next
    case (gone ln)
    let ?u = "t\<lparr>lanes := hm_insert l (drain_lane (jobs t) ln) (lanes t)\<rparr>"
    have "heads_agree s (?u\<lparr>lanes := hm_remove l (lanes ?u)\<rparr>) = heads_agree s ?u"
      by (rule heads_agree_remove[where ln = "drain_lane (jobs t) ln"]) (use drained_Nil[OF gone(4)] in simp_all)
    with gone ins show ?thesis by simp
  next
    case (kept ln p ps job)
    with ins show ?thesis by simp
  next
    case (pushed ln p ps job e)
    let ?u = "t\<lparr>lanes := hm_insert l (drain_lane (jobs t) ln) (lanes t)\<rparr>"
    have "heads_agree s (?u\<lparr>lanes := hm_adjust l (\<lambda>b. b\<lparr>ln_in_candidate_heap := True,
        ln_candidate_effective := e\<rparr>) (lanes ?u)\<rparr>) = heads_agree s ?u"
      by (rule heads_agree_adjust) (simp add: live_head_def)
    with pushed ins show ?thesis by simp
  qed
qed

lemma push_lane_head_candidates [case_names same pushed]:
  obtains "candidates (push_lane_head_candidate l now t) = candidates t"
  | job where "head_of t l = Some job"
      and "candidates (push_lane_head_candidate l now t)
        = heap_push (CandidateKey (effective_priority job (aging t) now) (j_sequence job) (RefLane l))
            (candidates t)"
proof (cases rule: push_lane_head_cases[of l now t])
  case (pushed ln p ps job e)
  then show thesis
    using that(2)[of job] drained_Cons(1)[of "jobs t" ln p ps] by (simp add: head_of_def)
qed (use that(1) in auto)

lemma pop_lane_again:
  assumes "pop_lane_key key l now s = (PopAgain, s')" and "ck_reference key = RefLane l"
  shows "heads_agree s s' \<and> (candidates s' = candidates s \<or> 
      (\<exists>job. head_of s l = Some job \<and> candidates s' = heap_push (CandidateKey
          (effective_priority job (aging s) now) (j_sequence job) (RefLane l)) (candidates s)
        \<and> key_cost now s key = 2))"
proof (cases "hm_get (lanes s) l")
  case None
  with assms show ?thesis by (auto simp: pop_lane_key_def bump_stale_def)
next
  case lane: (Some ln0)
  let ?ln1 = "ln0\<lparr>ln_in_candidate_heap := False\<rparr>"
  let ?d = "drain_lane (jobs s) ?ln1"
  let ?s1 = "s\<lparr>lanes := hm_insert l ?ln1 (lanes s)\<rparr>"
  let ?s2 = "s\<lparr>lanes := hm_insert l ?d (hm_insert l ?ln1 (lanes s))\<rparr>"
  have s1: "heads_agree s ?s1" by (subst heads_agree_insert[OF lane]) simp_all
  have "heads_agree s (?s1\<lparr>lanes := hm_insert l ?d (lanes ?s1)\<rparr>) = heads_agree s ?s1"
    by (rule heads_agree_insert[where ln = ?ln1]) simp_all
  with s1 have s2: "heads_agree s ?s2" by simp
  note pop = pop_lane_key_def lane Let_def
  show ?thesis
  proof (cases "ck_effective key < ln_candidate_effective ln0 \<or> \<not> lane_has_capacity ?ln1")
    case True
    with assms s1 show ?thesis by (auto simp: pop bump_stale_def split: if_splits)
  next
    case False
    show ?thesis
    proof (cases "ln_pending ?d")
      case Nil
      have "heads_agree s (?s2\<lparr>lanes := hm_remove l (lanes ?s2)\<rparr>) = heads_agree s ?s2"
        by (rule heads_agree_remove[where ln = ?d]) (use drained_Nil[OF Nil] in simp_all)
      with assms s2 False Nil show ?thesis by (auto simp: pop split: if_splits)
    next
      case (Cons p ps)
      then obtain job where job: "hm_get (jobs s) (snd p) = Some job"
        using drained_Cons(2)[OF Cons] by auto
      have head: "head_of s l = Some job"
        using drained_Cons(1)[OF Cons] lane job by (simp add: head_of_def)
      show ?thesis
      proof (cases "job_delayed_at now job")
        case True
        with assms s2 False Cons job show ?thesis
          by (auto simp: pop lane_is_idle_def)
      next
        case fresh: False
        with assms False Cons job have push: "s' = push_lane_head_candidate l now ?s2"
          and stale: "effective_priority job (aging s) now \<noteq> ck_effective key
            \<or> j_sequence job \<noteq> ck_sequence key"
          by (auto simp: pop split: if_splits)
        have agree: "heads_agree s s'" using s2 by (simp add: push push_lane_head_heads)
        have cost: "key_cost now s key = 2" using stale head assms(2) by (auto simp: key_cost_def)
        have "head_of ?s2 l = Some job" "aging ?s2 = aging s"
          using s2 head by (simp_all add: heads_agree_def)
        then show ?thesis
          by (cases rule: push_lane_head_candidates[of l now ?s2])
             (use agree cost head push in auto)
      qed
    qed
  qed
qed

lemma pop_again_cost:
  assumes "pop_step now s = (PopAgain, s')"
  shows "pop_cost now s' < pop_cost now s \<and> heads_agree s s'
    \<and> length (candidates s') \<le> length (candidates s)"
proof -
  obtain key rest where c: "candidates s = key # rest"
    using assms by (cases "candidates s") (auto simp: pop_step_def)
  let ?s1 = "s\<lparr>candidates := rest\<rparr>"
  have cost: "key_cost now s' = key_cost now s" if "heads_agree ?s1 s'"
    using that heads_agree_cost[of s s' now] by auto
  have same: ?thesis if "heads_agree ?s1 s'" and "candidates s' = rest"
    using that c key_cost_pos[of now s key] cost by (simp add: pop_cost_def)
  show ?thesis
  proof (cases "ck_reference key")
    case (RefJob j)
    with assms c have "heads_agree ?s1 s' \<and> candidates s' = rest"
      by (auto simp: pop_step_def pop_job_key_def bump_stale_def Let_def split: option.splits if_splits)
    with same show ?thesis by blast
  next
    case (RefLane l)
    have s1: "head_of ?s1 l = head_of s l" "key_cost now ?s1 key = key_cost now s key"
      using heads_agree_cost[of s ?s1 now key] by (simp_all add: head_of_def)
    have pop: "pop_lane_key key l now ?s1 = (PopAgain, s')"
      using assms c RefLane by (simp add: pop_step_def)
    show ?thesis
    proof (cases "candidates s' = rest")
      case True
      with same pop_lane_again[OF pop RefLane] show ?thesis by blast
    next
      case False
      with pop_lane_again[OF pop RefLane] s1 obtain job where job: "head_of s l = Some job"
        and key: "key_cost now s key = 2" and agree: "heads_agree ?s1 s'"
        and push: "candidates s' = heap_push (CandidateKey (effective_priority job (aging s) now)
            (j_sequence job) (RefLane l)) rest" by auto
      have "pop_cost now s' = Suc (sum_list (map (key_cost now s) rest))"
        using job cost[OF agree]
        by (simp add: pop_cost_def push sum_list_heap_push) (simp add: key_cost_def)
      with agree push c key show ?thesis by (simp add: pop_cost_def)
    qed
  qed
qed

function pop_candidate :: "instant \<Rightarrow> scheduler_state \<Rightarrow> candidate option \<times> scheduler_state" where
  "pop_candidate now s =
     (case pop_step now s of
        (PopEmpty, s') \<Rightarrow> (None, s')
      | (PopCandidate c, s') \<Rightarrow> (Some c, s')
      | (PopAgain, s') \<Rightarrow> pop_candidate now s')"
  by pat_completeness auto
termination
  by (relation "measure (\<lambda>(now, s). pop_cost now s)") (simp_all add: pop_again_cost[OF sym])

declare pop_candidate.simps [simp del]

subsection \<open>Admission\<close>

definition applicable_windows :: "candidate \<Rightarrow> scheduler_state \<Rightarrow> window_ref list" where
  "applicable_windows c s =
     (case hm_get (jobs s) (c_job c) of
        None \<Rightarrow> [WinGlobal]
      | Some job \<Rightarrow>
          let cl = m_class (j_meta job)
          in case c_scope c of
               ScopeGlobal \<Rightarrow> [WinGlobal, WinClassGlobal cl]
             | ScopeChat chat \<Rightarrow> [WinGlobal, WinClassGlobal cl, WinChat chat, WinClassChat chat cl])"

definition reference_of :: "candidate \<Rightarrow> scheduler_state \<Rightarrow> candidate_ref" where
  "reference_of c s =
     (case hm_get (jobs s) (c_job c) of
        None \<Rightarrow> RefJob (c_job c)
      | Some job \<Rightarrow> (case m_lane (j_meta job) of Some l \<Rightarrow> RefLane l | None \<Rightarrow> RefJob (c_job c)))"

definition reservation_active :: "window_ref \<Rightarrow> instant \<Rightarrow> scheduler_state \<Rightarrow> bool" where
  "reservation_active w now s =
     (case hm_get (reservations s) w of None \<Rightarrow> False | Some res \<Rightarrow> now < res_until res)"

definition reservation_owner_is :: "candidate \<Rightarrow> window_ref \<Rightarrow> scheduler_state \<Rightarrow> bool" where
  "reservation_owner_is c w s =
     (case hm_get (reservations s) w of
        None \<Rightarrow> False
      | Some res \<Rightarrow> res_owner res = Some (reference_of c s))"

definition reservation_window :: "candidate \<Rightarrow> instant \<Rightarrow> scheduler_state \<Rightarrow> window_ref option" where
  "reservation_window c now s = find (\<lambda>w. reservation_active w now s) (applicable_windows c s)"

definition penalty_active :: "penalty_key \<Rightarrow> instant \<Rightarrow> scheduler_state \<Rightarrow> bool" where
  "penalty_active k now s =
     (case hm_get (penalties s) k of None \<Rightarrow> False | Some until \<Rightarrow> now < until)"

definition penalty_until :: "penalty_key \<Rightarrow> instant \<Rightarrow> scheduler_state \<Rightarrow> instant \<Rightarrow> instant" where
  "penalty_until k now s until =
     (if penalty_active k now s then max until (the (hm_get (penalties s) k)) else until)"

text \<open>
  One window set of the admission check: the running deadline and the window to reserve, or
  \<open>None\<close> when the weight can never fit (\<open>BlockedForever\<close>).  The first window that refuses is the
  one reserved.
\<close>

type_synonym admission_acc = "instant \<times> window_ref option"

definition check_windows ::
    "instant \<Rightarrow> nat \<Rightarrow> window_ref \<Rightarrow> window_set \<Rightarrow> admission_acc \<Rightarrow> admission_acc option \<times> window_set" where
  "check_windows now weight w ws acc =
     (let (admitted, ws') = ws_can_consume now weight ws
      in if admitted then (Some acc, ws')
         else case ws_earliest_for now weight ws' of
                None \<Rightarrow> (None, ws')
              | Some t \<Rightarrow> (Some (max (fst acc) t, if snd acc = None then Some w else snd acc), ws'))"

definition admit_global ::
    "instant \<Rightarrow> nat \<Rightarrow> admission_acc \<Rightarrow> scheduler_state \<Rightarrow> admission_acc option \<times> scheduler_state" where
  "admit_global now weight acc s =
     (let (r, ws) = check_windows now weight WinGlobal (global_windows s) acc
      in (r, s\<lparr>global_windows := ws\<rparr>))"

definition admit_class_global ::
    "instant \<Rightarrow> nat \<Rightarrow> outbound_class \<Rightarrow> admission_acc \<Rightarrow> scheduler_state
      \<Rightarrow> admission_acc option \<times> scheduler_state" where
  "admit_class_global now weight cl acc s =
     (case hm_get (class_global_windows s) cl of
        None \<Rightarrow> (Some acc, s)
      | Some ws0 \<Rightarrow>
          let (r, ws) = check_windows now weight (WinClassGlobal cl) ws0 acc
          in (r, s\<lparr>class_global_windows := hm_insert cl ws (class_global_windows s)\<rparr>))"

definition chat_window_set :: "outbound_chat_key \<Rightarrow> scheduler_state \<Rightarrow> window_set" where
  "chat_window_set chat s =
     (case hm_get (chat_window_sets s) chat of
        Some ws \<Rightarrow> ws
      | None \<Rightarrow> ws_new (chat_limits s) (window_chat_kind_of chat))"

definition admit_chat ::
    "instant \<Rightarrow> nat \<Rightarrow> outbound_chat_key \<Rightarrow> admission_acc \<Rightarrow> scheduler_state
      \<Rightarrow> admission_acc option \<times> scheduler_state" where
  "admit_chat now weight chat acc s =
     (let (r, ws) = check_windows now weight (WinChat chat) (chat_window_set chat s) acc
      in (r, s\<lparr>chat_window_sets := hm_insert chat ws (chat_window_sets s)\<rparr>))"

definition has_class_chat :: "outbound_class \<Rightarrow> scheduler_state \<Rightarrow> bool" where
  "has_class_chat cl s = list_ex (\<lambda>w. cl_class w = cl) (clim_chat (class_limits s))"

definition class_chat_window_set ::
    "outbound_chat_key \<Rightarrow> outbound_class \<Rightarrow> scheduler_state \<Rightarrow> window_set" where
  "class_chat_window_set chat cl s =
     (case hm_get (class_chat_window_sets s) (chat, cl) of
        Some ws \<Rightarrow> ws
      | None \<Rightarrow> ws_new_class (clim_chat (class_limits s)) cl)"

definition admit_class_chat ::
    "instant \<Rightarrow> nat \<Rightarrow> outbound_chat_key \<Rightarrow> outbound_class \<Rightarrow> admission_acc \<Rightarrow> scheduler_state
      \<Rightarrow> admission_acc option \<times> scheduler_state" where
  "admit_class_chat now weight chat cl acc s =
     (if \<not> has_class_chat cl s then (Some acc, s)
      else let (r, ws) = check_windows now weight (WinClassChat chat cl) (class_chat_window_set chat cl s) acc
           in (r, s\<lparr>class_chat_window_sets := hm_insert (chat, cl) ws (class_chat_window_sets s)\<rparr>))"

definition admit_scope ::
    "instant \<Rightarrow> nat \<Rightarrow> outbound_scope \<Rightarrow> outbound_class \<Rightarrow> admission_acc \<Rightarrow> scheduler_state
      \<Rightarrow> admission_acc option \<times> scheduler_state" where
  "admit_scope now weight sc cl acc s =
     (case sc of
        ScopeGlobal \<Rightarrow> (Some acc, s)
      | ScopeChat chat \<Rightarrow>
          (case admit_chat now weight chat (penalty_until (PenaltyChat chat) now s (fst acc), snd acc) s of
             (None, s1) \<Rightarrow> (None, s1)
           | (Some acc1, s1) \<Rightarrow> admit_class_chat now weight chat cl acc1 s1))"

definition admit_windows ::
    "instant \<Rightarrow> nat \<Rightarrow> outbound_scope \<Rightarrow> outbound_class \<Rightarrow> scheduler_state
      \<Rightarrow> admission_acc option \<times> scheduler_state" where
  "admit_windows now weight sc cl s =
     (case admit_global now weight (penalty_until PenaltyGlobal now s now, None) s of
        (None, s1) \<Rightarrow> (None, s1)
      | (Some acc1, s1) \<Rightarrow>
          (case admit_class_global now weight cl acc1 s1 of
             (None, s2) \<Rightarrow> (None, s2)
           | (Some acc2, s2) \<Rightarrow> admit_scope now weight sc cl acc2 s2))"

text \<open>\<open>None\<close> as the verdict is the \<open>expect\<close> on the candidate's job.\<close>

definition admission ::
    "candidate \<Rightarrow> instant \<Rightarrow> scheduler_state \<Rightarrow> admission_verdict option \<times> scheduler_state" where
  "admission c now s =
     (if list_ex (\<lambda>w. reservation_active w now s \<and> \<not> reservation_owner_is c w s)
           (applicable_windows c s) then (Some Reserved, s)
      else case hm_get (jobs s) (c_job c) of
             None \<Rightarrow> (None, s)
           | Some job \<Rightarrow>
               (case admit_windows now (c_weight c) (c_scope c) (m_class (j_meta job)) s of
                  (None, s1) \<Rightarrow> (Some BlockedForever, s1)
                | (Some (until, reserve), s1) \<Rightarrow>
                    (Some (if now < until then Blocked until reserve else Pass), s1)))"

end
