(* ===== verification/Scheduler_Pass.thy ===== *)
theory Scheduler_Pass
  imports Scheduler_Grant
begin

text \<open>
  The grant and the arbitration loop of \<open>grant_ready\<close>.  The loop ends: a grant removes a job, a
  blocked candidate leaves the candidate heap and the parked queues, and a parked candidate moves
  from the heap to a queue.  \<open>None\<close> is a panic.
\<close>

subsection \<open>Blocking, parking, granting\<close>

definition release_previous_reservation_if_changed ::
    "candidate \<Rightarrow> window_ref option \<Rightarrow> instant \<Rightarrow> scheduler_state \<Rightarrow> scheduler_state" where
  "release_previous_reservation_if_changed c next now s =
     (let previous = (case hm_get (jobs s) (c_job c) of None \<Rightarrow> None | Some job \<Rightarrow> j_reservation_owner job)
      in if previous = next then s
         else case previous of
                None \<Rightarrow> s
              | Some w \<Rightarrow>
                  let s1 = release_reservation w (reference_of c s) now s
                  in s1\<lparr>jobs := hm_adjust (c_job c) (\<lambda>b. if j_reservation_owner b = Some w
                            then b\<lparr>j_reservation_owner := None\<rparr> else b) (jobs s1)\<rparr>)"

definition block_candidate :: "candidate \<Rightarrow> instant \<Rightarrow> bool \<Rightarrow> scheduler_state \<Rightarrow> scheduler_state option" where
  "block_candidate c until permanent s =
     (let node = (\<lambda>g. Reverse (BlockedJob until permanent g (reference_of c s)))
      in case hm_get (jobs s) (c_job c) of
           None \<Rightarrow> Some (s\<lparr>blocked := heap_push (node 0) (blocked s)\<rparr>)
         | Some job \<Rightarrow>
             (case m_lane (j_meta job) of
                Some l \<Rightarrow>
                  (case hm_get (lanes s) l of
                     None \<Rightarrow> None
                   | Some ln \<Rightarrow>
                       let g = wrapping_add (ln_blocked_generation ln) 1
                       in Some (s\<lparr>lanes := hm_insert l (ln\<lparr>ln_in_blocked_heap := True,
                                                       ln_blocked_generation := g\<rparr>) (lanes s),
                                  blocked := heap_push (node g) (blocked s)\<rparr>))
              | None \<Rightarrow>
                  Some (s\<lparr>jobs := hm_adjust (c_job c) (\<lambda>b. b\<lparr>j_in_blocked_heap := True\<rparr>) (jobs s),
                          blocked := heap_push (node 0) (blocked s)\<rparr>)))"

definition push_candidate :: "candidate \<Rightarrow> instant \<Rightarrow> scheduler_state \<Rightarrow> scheduler_state" where
  "push_candidate c now s =
     (case hm_get (jobs s) (c_job c) of
        None \<Rightarrow> s
      | Some job \<Rightarrow>
          (case m_lane (j_meta job) of
             Some l \<Rightarrow> push_lane_head_candidate l now s
           | None \<Rightarrow> push_job_candidate (c_job c) now s))"

text \<open>The candidate keeps the first window that refused it for itself.\<close>

definition reserve_window ::
    "candidate \<Rightarrow> instant \<Rightarrow> window_ref \<Rightarrow> scheduler_state \<Rightarrow> scheduler_state" where
  "reserve_window c until w s =
     (let res = (case hm_get (reservations s) w of
                   Some r \<Rightarrow> r
                 | None \<Rightarrow> \<lparr>res_owner = None, res_until = until, res_queue = [], res_stale = 0\<rparr>)
      in if res_until res < until \<or> res_owner res = None
           then s\<lparr>reservations := hm_insert w (res\<lparr>res_until := until,
                                    res_owner := Some (reference_of c s)\<rparr>) (reservations s),
                  jobs := hm_adjust (c_job c) (\<lambda>b. b\<lparr>j_reservation_owner := Some w\<rparr>) (jobs s)\<rparr>
           else s\<lparr>reservations := hm_insert w res (reservations s)\<rparr>)"

definition park_candidate :: "candidate \<Rightarrow> window_ref \<Rightarrow> instant \<Rightarrow> scheduler_state \<Rightarrow> scheduler_state" where
  "park_candidate c w now s =
     (case hm_get (reservations s) w of
        None \<Rightarrow> push_candidate c now s
      | Some res \<Rightarrow>
          let r = reference_of c s;
              s1 = s\<lparr>reservations := hm_insert w (res\<lparr>res_queue := res_queue res @ [r]\<rparr>) (reservations s)\<rparr>
          in case r of
               RefJob j \<Rightarrow> s1\<lparr>jobs := hm_adjust j (\<lambda>b. b\<lparr>j_parked_in := Some w\<rparr>) (jobs s1)\<rparr>
             | RefLane _ \<Rightarrow> s1)"

text \<open>The hold of every window the grant consumed moves to the moment its next parked head fits.\<close>

definition window_earliest :: "window_ref \<Rightarrow> instant \<Rightarrow> nat \<Rightarrow> scheduler_state \<Rightarrow> instant option" where
  "window_earliest w now weight s =
     (case w of
        WinGlobal \<Rightarrow> ws_earliest_for now weight (global_windows s)
      | WinClassGlobal cl \<Rightarrow>
          Option.bind (hm_get (class_global_windows s) cl) (ws_earliest_for now weight)
      | WinChat chat \<Rightarrow>
          Option.bind (hm_get (chat_window_sets s) chat) (ws_earliest_for now weight)
      | WinClassChat chat cl \<Rightarrow>
          Option.bind (hm_get (class_chat_window_sets s) (chat, cl)) (ws_earliest_for now weight))"

definition rearm_window :: "window_ref \<Rightarrow> instant \<Rightarrow> scheduler_state \<Rightarrow> scheduler_state" where
  "rearm_window w now s =
     (case hm_get (reservations s) w of
        None \<Rightarrow> s
      | Some res \<Rightarrow>
          (case res_queue res of
             [] \<Rightarrow> s
           | r # _ \<Rightarrow>
               (case Option.bind (reference_weight r s) (\<lambda>weight. window_earliest w now weight s) of
                  None \<Rightarrow> s
                | Some until \<Rightarrow>
                    s\<lparr>reservations := hm_insert w (res\<lparr>res_until := max until now\<rparr>) (reservations s)\<rparr>)))"

definition rearm_reservations :: "candidate \<Rightarrow> instant \<Rightarrow> scheduler_state \<Rightarrow> scheduler_state" where
  "rearm_reservations c now s = fold (\<lambda>w t. rearm_window w now t) (applicable_windows c s) s"

text \<open>The grant takes the head of the job's lane; an empty or missing lane is a panic.\<close>

definition take_lane_head :: "job_id \<Rightarrow> lane_state \<Rightarrow> lane_state option" where
  "take_lane_head j ln =
     (case ln_pending ln of
        [] \<Rightarrow> None
      | _ # ps \<Rightarrow>
          Some (ln\<lparr>ln_pending := ps,
                   ln_in_flight := (case ln_mode ln of
                                      BoundedOrderedStart _ \<Rightarrow> ln_in_flight ln
                                    | _ \<Rightarrow> Some j),
                   ln_in_flight_count := ln_in_flight_count ln + 1\<rparr>))"

definition consume_windows ::
    "instant \<Rightarrow> job_id \<Rightarrow> outbound_meta \<Rightarrow> scheduler_state \<Rightarrow> scheduler_state" where
  "consume_windows now j meta s =
     (let consume = ws_consume now (m_weight meta) j;
          cl = m_class meta;
          s1 = s\<lparr>global_windows := consume (global_windows s),
                 class_global_windows := hm_adjust cl consume (class_global_windows s)\<rparr>
      in case m_scope meta of
           ScopeGlobal \<Rightarrow> s1
         | ScopeChat chat \<Rightarrow>
             let s2 = s1\<lparr>chat_window_sets :=
                        hm_insert chat (consume (chat_window_set chat s1)) (chat_window_sets s1)\<rparr>
             in if has_class_chat cl s2
                  then s2\<lparr>class_chat_window_sets := hm_insert (chat, cl)
                            (consume (class_chat_window_set chat cl s2)) (class_chat_window_sets s2)\<rparr>
                  else s2)"

definition in_flight_of :: "outbound_meta \<Rightarrow> in_flight_rec" where
  "in_flight_of meta = \<lparr>if_lane = m_lane meta, if_scope = m_scope meta, if_class = m_class meta,
                        if_weight = m_weight meta\<rparr>"

definition rearm_bounded_lane :: "lane_key option \<Rightarrow> instant \<Rightarrow> scheduler_state \<Rightarrow> scheduler_state" where
  "rearm_bounded_lane lane now s =
     (case lane of
        None \<Rightarrow> s
      | Some l \<Rightarrow>
          (case hm_get (lanes s) l of
             None \<Rightarrow> s
           | Some ln \<Rightarrow>
               (case ln_mode ln of
                  BoundedOrderedStart _ \<Rightarrow>
                    if lane_has_capacity ln \<and> ln_pending ln \<noteq> [] then push_lane_head_candidate l now s
                    else s
                | _ \<Rightarrow> s)))"

definition grant_in_lane :: "job_id \<Rightarrow> lane_key option \<Rightarrow> scheduler_state \<Rightarrow> scheduler_state option" where
  "grant_in_lane j lane s =
     (case lane of
        None \<Rightarrow> Some s
      | Some l \<Rightarrow>
          (case hm_get (lanes s) l of
             None \<Rightarrow> None
           | Some ln \<Rightarrow> map_option (\<lambda>ln'. s\<lparr>lanes := hm_insert l ln' (lanes s)\<rparr>) (take_lane_head j ln)))"

definition grant :: "candidate \<Rightarrow> instant \<Rightarrow> scheduler_state \<Rightarrow> scheduler_state option" where
  "grant c now s =
     (case hm_get (jobs s) (c_job c) of
        None \<Rightarrow> None
      | Some job \<Rightarrow>
          let j = c_job c; meta = j_meta job;
              s1 = remove_coalesce_entry j (j_coalesce_key job) (s\<lparr>jobs := hm_remove j (jobs s)\<rparr>)
          in (case grant_in_lane j (m_lane meta) s1 of
                None \<Rightarrow> None
              | Some s2 \<Rightarrow>
                  let s3 = consume_windows now j meta s2;
                      s4 = s3\<lparr>in_flight := hm_insert j (in_flight_of meta) (in_flight s3)\<rparr>
                  in Some (rearm_bounded_lane (m_lane meta) now s4)))"

subsection \<open>One turn of the loop\<close>

datatype turn = TurnPanic | TurnDone scheduler_state | TurnMore "grant_rec list" scheduler_state

definition turn_of :: "scheduler_state option \<Rightarrow> grant_rec list \<Rightarrow> turn" where
  "turn_of r gs = (case r of None \<Rightarrow> TurnPanic | Some s \<Rightarrow> TurnMore gs s)"

definition settle :: "candidate \<Rightarrow> admission_verdict \<Rightarrow> instant \<Rightarrow> scheduler_state \<Rightarrow> turn" where
  "settle c verdict now s =
     (case verdict of
        Pass \<Rightarrow>
          let correlation = (case hm_get (jobs s) (c_job c) of None \<Rightarrow> None | Some job \<Rightarrow> j_correlation job)
          in turn_of (map_option (rearm_reservations c now) (grant c now s))
               [\<lparr>g_job = c_job c, g_correlation = correlation\<rparr>]
      | Blocked until reserve \<Rightarrow>
          let s1 = release_previous_reservation_if_changed c reserve now s;
              s2 = (case reserve of None \<Rightarrow> s1 | Some w \<Rightarrow> reserve_window c until w s1)
          in turn_of (block_candidate c until False s2) []
      | BlockedForever \<Rightarrow>
          let s1 = release_previous_reservation_if_changed c None now s
          in turn_of (block_candidate c (now + BLOCKED_FOREVER_DELAY) True s1) []
      | Reserved \<Rightarrow>
          (case reservation_window c now s of
             None \<Rightarrow> TurnPanic
           | Some w \<Rightarrow> TurnMore [] (park_candidate c w now s)))"

definition grant_turn :: "instant \<Rightarrow> scheduler_state \<Rightarrow> turn" where
  "grant_turn now s =
     (case pop_candidate now s of
        (None, s1) \<Rightarrow> TurnDone s1
      | (Some c, s1) \<Rightarrow>
          (case admission c now s1 of
             (None, _) \<Rightarrow> TurnPanic
           | (Some verdict, s2) \<Rightarrow> settle c verdict now s2))"

subsection \<open>Termination\<close>

text \<open>Three counters: jobs, then heap entries with parked references, then heap entries.\<close>

definition parked_total :: "scheduler_state \<Rightarrow> nat" where
  "parked_total s = sum_list (map (\<lambda>p. length (res_queue (snd p))) (reservations s))"

definition waiting_total :: "scheduler_state \<Rightarrow> nat" where
  "waiting_total s = length (candidates s) + parked_total s"

lemma parked_insert:
  "parked_total (s\<lparr>reservations := hm_insert w res (reservations s)\<rparr>)
     + (case hm_get (reservations s) w of None \<Rightarrow> 0 | Some r \<Rightarrow> length (res_queue r))
   = parked_total s + length (res_queue res)"
proof -
  have "sum_list (map (\<lambda>p. length (res_queue (snd p))) (hm_insert w res m))
      + (case hm_get m w of None \<Rightarrow> 0 | Some r \<Rightarrow> length (res_queue r))
    = sum_list (map (\<lambda>p. length (res_queue (snd p))) m) + length (res_queue res)" for m
    by (induction m) (auto split: option.splits)
  then show ?thesis by (simp add: parked_total_def)
qed

lemma parked_remove:
  assumes "hm_get (reservations s) w = Some r"
  shows "parked_total (s\<lparr>reservations := hm_remove w (reservations s)\<rparr>) + length (res_queue r)
    \<le> parked_total s"
proof -
  have le: "sum_list (map f (filter P m)) \<le> sum_list (map f m)" for f :: "'a \<Rightarrow> nat" and P m
    by (induction m) auto
  have "hm_get m w = Some r \<Longrightarrow>
    sum_list (map (\<lambda>p. length (res_queue (snd p))) (hm_remove w m)) + length (res_queue r)
    \<le> sum_list (map (\<lambda>p. length (res_queue (snd p))) m)" for m
  proof (induction m)
    case (Cons p m)
    then show ?case
      using le[of "\<lambda>p. length (res_queue (snd p))" "\<lambda>p. fst p \<noteq> w" m]
      by (auto simp: hm_remove_def split: if_splits)
  qed simp
  with assms show ?thesis by (simp add: parked_total_def)
qed

lemma push_job_candidate_frame [simp]:
  "reservations (push_job_candidate j now s) = reservations s"
  "length (jobs (push_job_candidate j now s)) = length (jobs s)"
  "length (candidates (push_job_candidate j now s)) \<le> Suc (length (candidates s))"
  by (auto simp: push_job_candidate_def schedule_aging_def Let_def split: option.split)

lemma schedule_aging_frame [simp]:
  "reservations (schedule_aging r e b t u) = reservations u"
  "jobs (schedule_aging r e b t u) = jobs u"
  "lanes (schedule_aging r e b t u) = lanes u"
  by (simp_all add: schedule_aging_def Let_def)

lemma push_lane_head_frame [simp]:
  "reservations (push_lane_head_candidate l now s) = reservations s"
  "jobs (push_lane_head_candidate l now s) = jobs s"
  "length (candidates (push_lane_head_candidate l now s)) \<le> Suc (length (candidates s))"
  by (cases rule: push_lane_head_cases[of l now s]; simp)+

lemma push_reference_frame [simp]:
  "reservations (push_reference r now s) = reservations s"
  "length (jobs (push_reference r now s)) = length (jobs s)"
  "length (candidates (push_reference r now s)) \<le> Suc (length (candidates s))"
  by (cases r; simp)+

lemma unpark_frame [simp]:
  "reservations (unpark w r s) = reservations s"
  "length (jobs (unpark w r s)) = length (jobs s)"
  "candidates (unpark w r s) = candidates s"
  by (cases r; simp add: unpark_def)+

lemma fold_push_frame:
  "reservations (fold (\<lambda>r t. push_reference r now (unpark w r t)) rs s) = reservations s
   \<and> length (jobs (fold (\<lambda>r t. push_reference r now (unpark w r t)) rs s)) = length (jobs s)
   \<and> length (candidates (fold (\<lambda>r t. push_reference r now (unpark w r t)) rs s))
       \<le> length (candidates s) + length rs"
proof (induction rs arbitrary: s)
  case (Cons r rs)
  have "length (candidates (push_reference r now (unpark w r s))) \<le> Suc (length (candidates s))"
    using push_reference_frame(3)[of r now "unpark w r s"] by simp
  with Cons[of "push_reference r now (unpark w r s)"] show ?case by simp
qed simp

lemma parked_total_cong: "reservations s = reservations t \<Longrightarrow> parked_total s = parked_total t"
  by (simp add: parked_total_def)

lemma release_reservation_frame:
  "length (jobs (release_reservation w r now s)) = length (jobs s)
   \<and> waiting_total (release_reservation w r now s) \<le> waiting_total s"
proof (cases "hm_get (reservations s) w")
  case (Some res)
  let ?s = "s\<lparr>reservations := hm_remove w (reservations s)\<rparr>"
  let ?t = "fold (\<lambda>r t. push_reference r now (unpark w r t)) (res_queue res) ?s"
  have "parked_total ?t = parked_total ?s"
    using fold_push_frame[of now w "res_queue res" ?s] by (intro parked_total_cong) simp
  then have "waiting_total ?t \<le> waiting_total s"
    using fold_push_frame[of now w "res_queue res" ?s] parked_remove[OF Some]
    by (simp add: waiting_total_def)
  then show ?thesis
    using Some fold_push_frame[of now w "res_queue res" ?s] by (simp add: release_reservation_def)
qed (simp add: release_reservation_def)

lemma waiting_total_cong:
  "reservations s = reservations t \<Longrightarrow> length (candidates s) = length (candidates t)
   \<Longrightarrow> waiting_total s = waiting_total t"
  by (simp add: waiting_total_def parked_total_def)

lemma release_previous_frame:
  "length (jobs (release_previous_reservation_if_changed c w now s)) = length (jobs s)
   \<and> waiting_total (release_previous_reservation_if_changed c w now s) \<le> waiting_total s"
proof -
  have "waiting_total (t\<lparr>jobs := js\<rparr>) = waiting_total t" for t js
    by (intro waiting_total_cong) simp_all
  then show ?thesis
    using release_reservation_frame
    by (auto simp: release_previous_reservation_if_changed_def Let_def split: option.split)
qed

lemma reserve_window_frame:
  "length (jobs (reserve_window c u w s)) = length (jobs s)
   \<and> waiting_total (reserve_window c u w s) = waiting_total s"
proof -
  have jobs_only: "waiting_total (t\<lparr>jobs := js\<rparr>) = waiting_total t" for t js
    by (intro waiting_total_cong) simp_all
  have "waiting_total (s\<lparr>reservations := hm_insert w res (reservations s)\<rparr>) = waiting_total s"
    if "length (res_queue res)
      = (case hm_get (reservations s) w of None \<Rightarrow> 0 | Some r \<Rightarrow> length (res_queue r))" for res
    using parked_insert[where s = s and w = w and res = res] that by (simp add: waiting_total_def)
  then show ?thesis
    using jobs_only
    by (cases "hm_get (reservations s) w") (simp_all add: reserve_window_def Let_def)
qed

lemma block_candidate_frame:
  assumes "block_candidate c u p s = Some t"
  shows "length (jobs t) = length (jobs s) \<and> waiting_total t = waiting_total s"
proof -
  have "reservations t = reservations s \<and> candidates t = candidates s
      \<and> length (jobs t) = length (jobs s)"
    using assms by (auto simp: block_candidate_def Let_def split: option.splits)
  then show ?thesis using waiting_total_cong[of t s] by simp
qed

lemma park_candidate_frame:
  assumes "hm_get (reservations s) w \<noteq> None"
  shows "length (jobs (park_candidate c w now s)) = length (jobs s)
    \<and> waiting_total (park_candidate c w now s) = Suc (waiting_total s)
    \<and> candidates (park_candidate c w now s) = candidates s"
proof -
  have jobs_only: "waiting_total (t\<lparr>jobs := js\<rparr>) = waiting_total t" for t js
    by (intro waiting_total_cong) simp_all
  from assms obtain res where res: "hm_get (reservations s) w = Some res" by auto
  have "waiting_total (s\<lparr>reservations := hm_insert w (res\<lparr>res_queue := res_queue res @ [r]\<rparr>)
      (reservations s)\<rparr>) = Suc (waiting_total s)" for r
    using parked_insert[where s = s and w = w and res = "res\<lparr>res_queue := res_queue res @ [r]\<rparr>"] res
    by (simp add: waiting_total_def)
  then show ?thesis
    using res jobs_only
    by (simp add: park_candidate_def Let_def split: candidate_ref.split)
qed

lemma pop_again_frame:
  assumes "pop_step now s = (PopAgain, s')"
  shows "reservations s' = reservations s"
proof -
  have lane: "reservations s' = reservations s" if "pop_lane_key k l now s = (PopAgain, s')" for k l s
    using that by (auto simp: pop_lane_key_def bump_stale_def Let_def split: option.splits if_splits)
  show ?thesis using assms
    by (auto simp: pop_step_def pop_job_key_def bump_stale_def Let_def
        split: list.splits candidate_ref.splits option.splits if_splits dest!: lane)
qed

lemma pop_found_frame:
  assumes "pop_step now s = (PopCandidate c, s')"
  shows "reservations s' = reservations s" and "length (jobs s') = length (jobs s)"
    and "length (candidates s') < length (candidates s)" and "hm_get (jobs s') (c_job c) \<noteq> None"
proof -
  have lane: "reservations s' = reservations s \<and> jobs s' = jobs s \<and> candidates s' = candidates s
      \<and> hm_get (jobs s) (c_job c) \<noteq> None"
    if "pop_lane_key k l now s = (PopCandidate c, s')" for k l s
    using that by (auto simp: pop_lane_key_def Let_def split: option.splits if_splits list.splits)
  have "reservations s' = reservations s \<and> length (jobs s') = length (jobs s)
      \<and> length (candidates s') < length (candidates s) \<and> hm_get (jobs s') (c_job c) \<noteq> None"
    using assms
    by (auto simp: pop_step_def pop_job_key_def Let_def
        split: list.splits candidate_ref.splits option.splits if_splits dest!: lane)
  then show "reservations s' = reservations s" "length (jobs s') = length (jobs s)"
    "length (candidates s') < length (candidates s)" "hm_get (jobs s') (c_job c) \<noteq> None" by auto
qed

lemma pop_candidate_frame:
  assumes "pop_candidate now s = (Some c, s')"
  shows "reservations s' = reservations s \<and> length (jobs s') = length (jobs s)
    \<and> length (candidates s') < length (candidates s) \<and> hm_get (jobs s') (c_job c) \<noteq> None"
  using assms
proof (induction now s rule: pop_candidate.induct)
  case (1 now s)
  obtain o1 s1 where step: "pop_step now s = (o1, s1)" by (cases "pop_step now s")
  show ?case
  proof (cases o1)
    case PopEmpty
    with 1 step show ?thesis by (simp add: pop_candidate.simps)
  next
    case PopAgain
    with "1.IH" "1.prems" step
    show ?thesis using pop_again_cost[of now s s1] pop_again_frame[of now s s1]
      by (fastforce simp: pop_candidate.simps[of now s] heads_agree_def)
  next
    case (PopCandidate c1)
    with 1 step show ?thesis using pop_found_frame[of now s c1 s1]
      by (simp add: pop_candidate.simps[of now s])
  qed
qed

lemma admission_frame:
  assumes "admission c now s = (v, t)"
  shows "reservations t = reservations s" and "jobs t = jobs s" and "candidates t = candidates s"
    and "lanes t = lanes s"
proof -
  have "reservations t = reservations s \<and> jobs t = jobs s \<and> candidates t = candidates s
      \<and> lanes t = lanes s"
    using assms
    by (auto simp: admission_def admit_windows_def admit_global_def admit_class_global_def
        admit_scope_def admit_chat_def admit_class_chat_def Let_def
        split: if_splits option.splits prod.splits outbound_scope.splits)
  then show "reservations t = reservations s" "jobs t = jobs s" "candidates t = candidates s"
    "lanes t = lanes s" by auto
qed

lemma reservation_window_parked:
  "reservation_window c now s = Some w \<Longrightarrow> hm_get (reservations s) w \<noteq> None"
  by (auto simp: reservation_window_def reservation_active_def find_Some_iff split: option.splits)

lemma grant_frame:
  assumes "grant c now s = Some t"
  shows "length (jobs t) < length (jobs s)" and "hm_get (jobs t) (c_job c) = None"
proof -
  obtain job where job: "hm_get (jobs s) (c_job c) = Some job"
    using assms by (auto simp: grant_def split: option.splits)
  have coalesce: "jobs (remove_coalesce_entry j k u) = jobs u" for j k u
    by (simp add: remove_coalesce_entry_def split: option.split)
  have lane: "jobs u' = jobs u" if "grant_in_lane j l u = Some u'" for j l u u'
    using that by (auto simp: grant_in_lane_def split: option.splits)
  have windows: "jobs (consume_windows now j m u) = jobs u" for j m u
    by (simp add: consume_windows_def Let_def split: outbound_scope.split)
  have rearm: "jobs (rearm_bounded_lane l now u) = jobs u" for l u
    by (simp add: rearm_bounded_lane_def split: option.split outbound_lane_mode.split)
  have "jobs t = hm_remove (c_job c) (jobs s)"
    using assms job by (auto simp: grant_def Let_def coalesce windows rearm dest!: lane split: option.splits)
  then show "length (jobs t) < length (jobs s)" "hm_get (jobs t) (c_job c) = None"
    using length_hm_remove_less[OF job] by simp_all
qed

lemma rearm_reservations_jobs [simp]: "jobs (rearm_reservations c now s) = jobs s"
proof -
  have "jobs (rearm_window w now u) = jobs u" for w u
    by (auto simp: rearm_window_def split: option.split list.split)
  then have "jobs (fold (\<lambda>w t. rearm_window w now t) ws u) = jobs u" for ws u
    by (induction ws arbitrary: u) auto
  then show ?thesis by (simp add: rearm_reservations_def)
qed

definition turn_measure :: "scheduler_state \<Rightarrow> nat \<times> nat \<times> nat" where
  "turn_measure s = (length (jobs s), waiting_total s, length (candidates s))"

lemma settle_decreases:
  assumes "settle c v now s = TurnMore gs t"
  shows "length (jobs t) < length (jobs s)
    \<or> length (jobs t) = length (jobs s) \<and> waiting_total t \<le> waiting_total s
    \<or> length (jobs t) = length (jobs s) \<and> waiting_total t = Suc (waiting_total s)
        \<and> candidates t = candidates s"
proof (cases v)
  case Pass
  then show ?thesis using assms grant_frame
    by (auto simp: settle_def turn_of_def Let_def split: option.splits)
next
  case (Blocked until reserve)
  then show ?thesis
    using assms block_candidate_frame release_previous_frame reserve_window_frame
    by (fastforce simp: settle_def turn_of_def Let_def split: option.splits)
next
  case BlockedForever
  then show ?thesis using assms block_candidate_frame release_previous_frame
    by (fastforce simp: settle_def turn_of_def Let_def split: option.splits)
next
  case Reserved
  then show ?thesis using assms park_candidate_frame reservation_window_parked
    by (fastforce simp: settle_def split: option.splits)
qed

lemma grant_turn_decreases:
  assumes "grant_turn now s = TurnMore gs t"
  shows "(turn_measure t, turn_measure s) \<in> less_than <*lex*> less_than <*lex*> less_than"
proof -
  obtain c s1 where pop: "pop_candidate now s = (Some c, s1)"
    using assms by (auto simp: grant_turn_def split: prod.splits option.splits)
  obtain v s2 where adm: "admission c now s1 = (Some v, s2)" and set: "settle c v now s2 = TurnMore gs t"
    using assms pop by (auto simp: grant_turn_def split: prod.splits option.splits)
  have "length (jobs s2) = length (jobs s)" "waiting_total s2 < waiting_total s"
    "length (candidates s2) < length (candidates s)"
    using pop_candidate_frame[OF pop] admission_frame[OF adm]
    by (simp_all add: waiting_total_def parked_total_def)
  with settle_decreases[OF set] show ?thesis by (auto simp: turn_measure_def)
qed

function grant_loop :: "instant \<Rightarrow> scheduler_state \<Rightarrow> (grant_rec list \<times> scheduler_state) option" where
  "grant_loop now s =
     (case grant_turn now s of
        TurnPanic \<Rightarrow> None
      | TurnDone s1 \<Rightarrow> Some ([], s1)
      | TurnMore gs s1 \<Rightarrow> map_option (\<lambda>(gs', s2). (gs @ gs', s2)) (grant_loop now s1))"
  by pat_completeness auto
termination
  by (relation "inv_image (less_than <*lex*> less_than <*lex*> less_than) (\<lambda>(now, s). turn_measure s)")
     (auto dest: grant_turn_decreases)

declare grant_loop.simps [simp del]

subsection \<open>The pass\<close>

definition prune_expired_penalties :: "instant \<Rightarrow> scheduler_state \<Rightarrow> scheduler_state" where
  "prune_expired_penalties now s = s\<lparr>penalties := hm_retain (\<lambda>_ until. now < until) (penalties s)\<rparr>"

text \<open>\<open>any(!is_idle)\<close> stops at the first window in use, as \<open>all(is_idle)\<close> does.\<close>

definition prune_idle_chat_windows :: "instant \<Rightarrow> scheduler_state \<Rightarrow> scheduler_state" where
  "prune_idle_chat_windows now s =
     s\<lparr>chat_window_sets := hm_map_values (\<lambda>_ ws. snd (ws_is_idle now ws))
         (hm_retain (\<lambda>_ ws. \<not> fst (ws_is_idle now ws)) (chat_window_sets s))\<rparr>"

definition promote_all :: "instant \<Rightarrow> scheduler_state \<Rightarrow> scheduler_state option" where
  "promote_all now s =
     map_option (\<lambda>s1. compact_lanes_if_needed
       (promote_reservations now (promote_blocked now (promote_delayed now s1)))) (promote_aging now s)"

definition finish_pass :: "instant \<Rightarrow> scheduler_state \<Rightarrow> scheduler_state" where
  "finish_pass now s =
     compact_reservations_if_needed (prune_idle_chat_windows now (prune_expired_penalties now s))"

definition grant_ready :: "instant \<Rightarrow> scheduler_state \<Rightarrow> (grant_rec list \<times> scheduler_state) option" where
  "grant_ready now s =
     (case promote_all now s of
        None \<Rightarrow> None
      | Some s1 \<Rightarrow> map_option (\<lambda>(gs, s2). (gs, finish_pass now s2)) (grant_loop now s1))"

end
