(* ===== verification/Scheduler_Enqueue.thy ===== *)
theory Scheduler_Enqueue
  imports Scheduler_Queue
begin

text \<open>
  Admission to the queue: the weight checks, the latest-wins slot, sequence numbers with their
  rebase before the counter wraps, lane positions, and \<open>enqueue_with_lane_mode_and_correlation\<close>.
\<close>

subsection \<open>Sequence numbers\<close>

text \<open>The dense renumbering: every live sequence becomes its rank.\<close>

definition renumber :: "nat list \<Rightarrow> nat \<Rightarrow> nat" where
  "renumber ordered old = length (takeWhile (\<lambda>n. n \<noteq> old) ordered)"

definition rebase_delayed_node ::
    "(job_id, job_rec) hmap \<Rightarrow> delayed_job reverse \<Rightarrow> delayed_job reverse option" where
  "rebase_delayed_node js d =
     (case the_rev d of DelayedJob nb n j \<Rightarrow>
        map_option (\<lambda>job. Reverse (DelayedJob nb (j_sequence job) j)) (hm_get js j))"

text \<open>
  One drained candidate entry of the dense rebase: a dead job drops out, a lane entry is re-keyed
  from its live head, and a lane without one gives up its candidate state.
\<close>

definition rebase_candidate ::
    "candidate_key \<Rightarrow> scheduler_state \<times> candidate_key list \<Rightarrow> scheduler_state \<times> candidate_key list" where
  "rebase_candidate key acc =
     (case acc of (s, rebuilt) \<Rightarrow>
        (case ck_reference key of
           RefJob j \<Rightarrow>
             (case hm_get (jobs s) j of
                None \<Rightarrow> (s, rebuilt)
              | Some job \<Rightarrow>
                  (s, heap_push (CandidateKey (ck_effective key) (j_sequence job) (RefJob j)) rebuilt))
         | RefLane l \<Rightarrow>
             (case hm_get (lanes s) l of
                None \<Rightarrow> (s, rebuilt)
              | Some ln0 \<Rightarrow>
                  let ln = drain_lane (jobs s) ln0;
                      s1 = s\<lparr>lanes := hm_insert l ln (lanes s)\<rparr>
                  in case (case ln_pending ln of [] \<Rightarrow> None | p # _ \<Rightarrow> hm_get (jobs s1) (snd p)) of
                       Some head \<Rightarrow>
                         (s1, heap_push (CandidateKey (ck_effective key) (j_sequence head) (RefLane l)) rebuilt)
                     | None \<Rightarrow>
                         let ln' = ln\<lparr>ln_in_candidate_heap := False, ln_candidate_effective := 0\<rparr>;
                             s2 = s1\<lparr>lanes := hm_insert l ln' (lanes s1)\<rparr>
                         in (if lane_is_idle ln' then s2\<lparr>lanes := hm_remove l (lanes s2)\<rparr> else s2,
                             rebuilt))))"

definition rebase_jobs :: "nat list \<Rightarrow> scheduler_state \<Rightarrow> scheduler_state" where
  "rebase_jobs ordered s =
     (let s1 = s\<lparr>jobs := hm_map_values (\<lambda>_ b. b\<lparr>j_sequence := renumber ordered (j_sequence b)\<rparr>) (jobs s)\<rparr>
      in s1\<lparr>delayed := heap_of (List.map_filter (rebase_delayed_node (jobs s1)) (delayed s1)),
            stale_delayed := 0\<rparr>)"

definition rebase_dense :: "scheduler_state \<Rightarrow> scheduler_state" where
  "rebase_dense s =
     (let ordered = sort (map j_sequence (hm_values (jobs s)));
          s1 = rebase_jobs ordered s;
          (s2, rebuilt) = fold rebase_candidate (candidates s1) (s1, [])
      in s2\<lparr>candidates := rebuilt, next_sequence := length ordered\<rparr>)"

definition rebase_shift :: "nat \<Rightarrow> scheduler_state \<Rightarrow> scheduler_state" where
  "rebase_shift mn s =
     (let s1 = s\<lparr>jobs := hm_map_values (\<lambda>_ b. b\<lparr>j_sequence := j_sequence b - mn\<rparr>) (jobs s)\<rparr>;
          s2 = s1\<lparr>delayed := heap_of (map (\<lambda>d. case the_rev d of DelayedJob nb n j \<Rightarrow>
                                      Reverse (DelayedJob nb (wrapping_sub n mn) j)) (delayed s1))\<rparr>;
          s3 = s2\<lparr>candidates := heap_of (map (\<lambda>k. CandidateKey (ck_effective k)
                                      (wrapping_sub (ck_sequence k) mn) (ck_reference k)) (candidates s2))\<rparr>
      in s3\<lparr>next_sequence := Max (set (map j_sequence (hm_values (jobs s3)))) + 1\<rparr>)"

definition rebase_sequences :: "scheduler_state \<Rightarrow> scheduler_state" where
  "rebase_sequences s =
     (if jobs s = [] then s\<lparr>next_sequence := 0\<rparr>
      else let mn = Min (set (map j_sequence (hm_values (jobs s))))
           in if mn = 0 then rebase_dense s else rebase_shift mn s)"

definition take_sequence :: "scheduler_state \<Rightarrow> nat \<times> scheduler_state" where
  "take_sequence s =
     (let s1 = (if next_sequence s = u64_MAX then rebase_sequences s else s)
      in (next_sequence s1, s1\<lparr>next_sequence := wrapping_add (next_sequence s1) 1\<rparr>))"

subsection \<open>Lane positions\<close>

definition lane_new :: "outbound_lane_mode \<Rightarrow> lane_state" where
  "lane_new mode = \<lparr>ln_pending = [], ln_mode = mode, ln_in_flight = None, ln_in_flight_count = 0,
     ln_next_order = 0, ln_stale = 0, ln_in_candidate_heap = False, ln_in_blocked_heap = False,
     ln_blocked_generation = 0, ln_candidate_effective = 0\<rparr>"

text \<open>The window of pending orders is renumbered densely once the lane's counter has wrapped.\<close>

definition set_order :: "nat \<times> job_id \<Rightarrow> (job_id, job_rec) hmap \<Rightarrow> (job_id, job_rec) hmap" where
  "set_order p js = hm_adjust (snd p) (\<lambda>b. b\<lparr>j_lane_order := Some (fst p)\<rparr>) js"

definition renumbered :: "(nat \<times> job_id) list \<Rightarrow> (nat \<times> job_id) list" where
  "renumbered ps = map (\<lambda>(i, p). (i, snd p)) (List.enumerate 0 ps)"

definition rebase_lane_orders :: "lane_key \<Rightarrow> scheduler_state \<Rightarrow> scheduler_state" where
  "rebase_lane_orders l s =
     (case hm_get (lanes s) l of
        None \<Rightarrow> s
      | Some ln \<Rightarrow>
          if ln_next_order ln = 0 \<and> ln_pending ln \<noteq> [] then
            let rebuilt = renumbered (ln_pending ln)
            in s\<lparr>jobs := fold set_order rebuilt (jobs s),
                 lanes := hm_insert l (ln\<lparr>ln_pending := rebuilt, ln_next_order := length rebuilt\<rparr>)
                          (lanes s)\<rparr>
          else s)"

definition insert_lane_pending ::
    "lane_key \<Rightarrow> job_id \<Rightarrow> nat option \<Rightarrow> outbound_lane_mode \<Rightarrow> scheduler_state \<Rightarrow> nat \<times> scheduler_state" where
  "insert_lane_pending l j inherited mode s =
     (let s1 = (if hm_has (lanes s) l then s else s\<lparr>lanes := hm_insert l (lane_new mode) (lanes s)\<rparr>)
      in case inherited of
           Some order \<Rightarrow>
             (order, s1\<lparr>lanes := hm_adjust l (\<lambda>n. n\<lparr>ln_pending := bts_insert (order, j) (ln_pending n)\<rparr>)
                                 (lanes s1)\<rparr>)
         | None \<Rightarrow>
             let s2 = rebase_lane_orders l s1;
                 order = (case hm_get (lanes s2) l of None \<Rightarrow> 0 | Some n \<Rightarrow> ln_next_order n)
             in (order, s2\<lparr>lanes := hm_adjust l (\<lambda>n. n\<lparr>ln_next_order := wrapping_add order 1,
                           ln_pending := bts_insert (order, j) (ln_pending n)\<rparr>) (lanes s2)\<rparr>))"

subsection \<open>Enqueue\<close>

text \<open>The first window that a weight can never fit, in the order the code looks.\<close>

definition misfit_limit :: "nat \<Rightarrow> window_limit list \<Rightarrow> window_limit option" where
  "misfit_limit weight ls = find (\<lambda>w. wl_capacity w \<noteq> 0 \<and> wl_capacity w < weight) ls"

definition misfit_class :: "nat \<Rightarrow> outbound_class \<Rightarrow> class_window_limit list \<Rightarrow> class_window_limit option" where
  "misfit_class weight c ls =
     find (\<lambda>w. cl_capacity w < weight) (filter (\<lambda>w. cl_class w = c \<and> cl_capacity w \<noteq> 0) ls)"

definition kind_limits :: "outbound_chat_key \<Rightarrow> window_limit list \<Rightarrow> window_limit list" where
  "kind_limits chat ls =
     filter (\<lambda>w. wl_kind w = AnyKind \<or> wl_kind w = window_chat_kind_of chat) ls"

definition weight_error :: "outbound_meta \<Rightarrow> scheduler_state \<Rightarrow> enqueue_error option" where
  "weight_error meta s =
     (let weight = m_weight meta;
          err = (\<lambda>capacity. WeightExceedsWindow (m_scope meta) weight capacity)
      in case misfit_limit weight (global_limits s) of
           Some w \<Rightarrow> Some (err (wl_capacity w))
         | None \<Rightarrow>
        (case misfit_class weight (m_class meta) (clim_global (class_limits s)) of
           Some w \<Rightarrow> Some (err (cl_capacity w))
         | None \<Rightarrow>
        (case m_scope meta of
           ScopeGlobal \<Rightarrow> None
         | ScopeChat chat \<Rightarrow>
        (case misfit_limit weight (kind_limits chat (chat_limits s)) of
           Some w \<Rightarrow> Some (err (wl_capacity w))
         | None \<Rightarrow>
           map_option (\<lambda>w. err (cl_capacity w))
             (misfit_class weight (m_class meta) (clim_chat (class_limits s)))))))"

definition coalesce_key_of :: "outbound_meta \<Rightarrow> outbound_enqueue_mode \<Rightarrow> coalesce_key option" where
  "coalesce_key_of meta mode =
     (case mode of
        Fifo \<Rightarrow> None
      | ReplacePending user_key \<Rightarrow>
          Some \<lparr>ck_scope = m_scope meta, ck_lane = m_lane meta, ck_class = m_class meta,
                ck_user_key = user_key\<rparr>)"

text \<open>The pending job of the slot, if the slot names one that can still be replaced.\<close>

definition replaceable :: "coalesce_key option \<Rightarrow> scheduler_state \<Rightarrow> job_id option" where
  "replaceable key s =
     (case key of
        None \<Rightarrow> None
      | Some k \<Rightarrow>
          (case hm_get (coalesce s) k of
             None \<Rightarrow> None
           | Some old \<Rightarrow> if hm_has (jobs s) old \<and> \<not> hm_has (in_flight s) old then Some old else None))"

record inheritance =
  ih_sequence :: nat
  ih_superseded :: "job_id option"
  ih_ready_at :: "instant option"
  ih_lane_order :: "nat option"

text \<open>
  The sequence of the new job: a fresh one, or the superseded job's with its age and its lane
  position, unless the weight of the slot would change.
\<close>

definition supersede ::
    "outbound_meta \<Rightarrow> coalesce_key option \<Rightarrow> instant \<Rightarrow> scheduler_state
      \<Rightarrow> enqueue_error + (inheritance \<times> scheduler_state)" where
  "supersede meta key now s =
     (case replaceable key s of
        None \<Rightarrow>
          (let (n, s') = take_sequence s
           in Inr (\<lparr>ih_sequence = n, ih_superseded = None, ih_ready_at = None, ih_lane_order = None\<rparr>, s'))
      | Some old \<Rightarrow>
          (case hm_get (jobs s) old of
             None \<Rightarrow> Inl IncompatibleCoalesceMetadata
           | Some job \<Rightarrow>
               if m_weight (j_meta job) \<noteq> m_weight meta then Inl IncompatibleCoalesceMetadata
               else Inr (\<lparr>ih_sequence = j_sequence job, ih_superseded = Some old,
                          ih_ready_at = (if j_not_before job = None then Some (j_ready_at job) else None),
                          ih_lane_order = j_lane_order job\<rparr>,
                         remove_waiting old now s)))"

definition new_job :: "outbound_meta \<Rightarrow> enqueue_options \<Rightarrow> coalesce_key option \<Rightarrow> inheritance \<Rightarrow> job_rec" where
  "new_job meta opts key ih =
     \<lparr>j_meta = meta, j_correlation = opt_correlation opts, j_sequence = ih_sequence ih,
      j_ready_at = (case (opt_not_before opts, ih_ready_at ih) of
                      (None, Some t) \<Rightarrow> t | _ \<Rightarrow> opt_now opts),
      j_not_before = opt_not_before opts, j_coalesce_key = key,
      j_lane_order = (case (m_lane meta, ih_lane_order ih) of (Some _, Some n) \<Rightarrow> Some n | _ \<Rightarrow> None),
      j_in_candidate_heap = False, j_candidate_effective = 0, j_in_blocked_heap = False,
      j_parked_in = None, j_reservation_owner = None\<rparr>"

text \<open>The job enters its lane, or the candidate heap if it has no lane and no delay.\<close>

definition place_job ::
    "job_id \<Rightarrow> job_rec \<Rightarrow> job_id option \<Rightarrow> enqueue_options \<Rightarrow> scheduler_state \<Rightarrow> scheduler_state" where
  "place_job j job superseded opts s =
     (case m_lane (j_meta job) of
        Some l \<Rightarrow>
          let (order, s1) = insert_lane_pending l j (j_lane_order job) (opt_lane_mode opts) s;
              s2 = s1\<lparr>jobs := set_order (order, j) (jobs s1)\<rparr>;
              head_replaced = (case superseded of
                  None \<Rightarrow> False
                | Some old \<Rightarrow>
                    (case hm_get (lanes s2) l of
                       None \<Rightarrow> False
                     | Some n \<Rightarrow> (case ln_pending n of [] \<Rightarrow> False | p # _ \<Rightarrow> snd p = old)));
              s3 = (if head_replaced
                      then s2\<lparr>lanes := hm_adjust l (\<lambda>n. n\<lparr>ln_in_candidate_heap := False,
                                                       ln_candidate_effective := 0\<rparr>) (lanes s2)\<rparr>
                      else s2)
          in push_lane_head_candidate l (opt_now opts) s3
      | None \<Rightarrow> if opt_not_before opts = None then push_job_candidate j (opt_now opts) s else s)"

definition insert_job ::
    "outbound_meta \<Rightarrow> enqueue_options \<Rightarrow> coalesce_key option \<Rightarrow> inheritance \<Rightarrow> scheduler_state
      \<Rightarrow> enqueue_outcome \<times> scheduler_state" where
  "insert_job meta opts key ih s =
     (let j = next_job_id s;
          job = new_job meta opts key ih;
          s1 = s\<lparr>next_job_id := next_job_id s + 1, jobs := hm_insert j job (jobs s)\<rparr>;
          s2 = (case opt_not_before opts of
                  None \<Rightarrow> s1
                | Some nb \<Rightarrow> s1\<lparr>delayed := heap_push (Reverse (DelayedJob nb (ih_sequence ih) j))
                                                    (delayed s1)\<rparr>);
          s3 = place_job j job (ih_superseded ih) opts s2;
          s4 = (case key of None \<Rightarrow> s3 | Some k \<Rightarrow> s3\<lparr>coalesce := hm_insert k j (coalesce s3)\<rparr>)
      in (\<lparr>eo_job = j, eo_superseded = ih_superseded ih\<rparr>,
          compact_blocked_if_needed (compact_candidate_heap_if_needed (compact_delayed_if_needed s4))))"

definition enqueue ::
    "outbound_meta \<Rightarrow> enqueue_options \<Rightarrow> scheduler_state
      \<Rightarrow> (enqueue_error + enqueue_outcome) \<times> scheduler_state" where
  "enqueue meta opts s =
     (case weight_error meta s of
        Some e \<Rightarrow> (Inl e, s)
      | None \<Rightarrow>
          let key = coalesce_key_of meta (opt_mode opts)
          in case supersede meta key (opt_now opts) s of
               Inl e \<Rightarrow> (Inl e, s)
             | Inr (ih, s1) \<Rightarrow>
                 if ih_superseded ih = None \<and> opt_queue_capacity opts \<le> length (jobs s1)
                   then (Inl QueueFull, s1)
                 else (case insert_job meta opts key ih s1 of (out, s2) \<Rightarrow> (Inr out, s2)))"

end
