(* ===== verification/Scheduler_Lifecycle.thy ===== *)
theory Scheduler_Lifecycle
  imports Scheduler_Pass Scheduler_Enqueue
begin

text \<open>
  What follows a grant, and the controls: \<open>start\<close>, \<open>complete\<close> with its refunds and penalties, the
  replacement of the limits, the snapshot and \<open>next_deadline\<close>.
\<close>

subsection \<open>Start\<close>

definition release_start :: "job_id \<Rightarrow> lane_state \<Rightarrow> lane_state option" where
  "release_start j ln =
     (if ln_mode ln \<noteq> OrderedStart \<or> ln_in_flight ln \<noteq> Some j then None
      else Some (ln\<lparr>ln_in_flight := None, ln_in_flight_count := 0\<rparr>))"

definition start :: "job_id \<Rightarrow> instant \<Rightarrow> scheduler_state \<Rightarrow> scheduler_state" where
  "start j now s =
     (case Option.bind (hm_get (in_flight s) j) if_lane of
        None \<Rightarrow> s
      | Some l \<Rightarrow>
          (case Option.bind (hm_get (lanes s) l) (release_start j) of
             None \<Rightarrow> s
           | Some ln \<Rightarrow>
               let s1 = s\<lparr>lanes := hm_insert l ln (lanes s)\<rparr>
               in if ln_pending ln \<noteq> [] then push_lane_head_candidate l now s1
                  else s1\<lparr>lanes := hm_remove l (lanes s1)\<rparr>))"

subsection \<open>Completion\<close>

definition release_complete :: "job_id \<Rightarrow> lane_state \<Rightarrow> lane_state option" where
  "release_complete j ln =
     (case ln_mode ln of
        BoundedOrderedStart _ \<Rightarrow>
          if ln_in_flight_count ln = 0 then None
          else Some (ln\<lparr>ln_in_flight_count := ln_in_flight_count ln - 1\<rparr>)
      | _ \<Rightarrow>
          if ln_in_flight ln \<noteq> Some j then None
          else Some (ln\<lparr>ln_in_flight := None, ln_in_flight_count := 0\<rparr>))"

definition complete_lane :: "job_id \<Rightarrow> lane_key \<Rightarrow> instant \<Rightarrow> scheduler_state \<Rightarrow> scheduler_state" where
  "complete_lane j l now s =
     (case hm_get (lanes s) l of
        None \<Rightarrow> s
      | Some ln0 \<Rightarrow>
          (case release_complete j ln0 of
             Some ln \<Rightarrow>
               let s1 = s\<lparr>lanes := hm_insert l ln (lanes s)\<rparr>
               in if ln_pending ln \<noteq> [] then push_lane_head_candidate l now s1
                  else if lane_is_idle ln then s1\<lparr>lanes := hm_remove l (lanes s1)\<rparr>
                  else s1
           | None \<Rightarrow> if lane_is_idle ln0 then s\<lparr>lanes := hm_remove l (lanes s)\<rparr> else s))"

definition rearm_reservation_owner :: "window_ref \<Rightarrow> instant \<Rightarrow> scheduler_state \<Rightarrow> scheduler_state" where
  "rearm_reservation_owner w now s =
     (case Option.bind (hm_get (reservations s) w) res_owner of
        None \<Rightarrow> s
      | Some (RefJob j) \<Rightarrow>
          (case hm_get (jobs s) j of
             None \<Rightarrow> s
           | Some job \<Rightarrow>
               if \<not> j_in_blocked_heap job then s
               else push_job_candidate j now
                      (s\<lparr>jobs := hm_adjust j (\<lambda>b. b\<lparr>j_in_blocked_heap := False\<rparr>) (jobs s),
                         stale_blocked := stale_blocked s + 1\<rparr>))
      | Some (RefLane l) \<Rightarrow>
          (case hm_get (lanes s) l of
             None \<Rightarrow> s
           | Some ln \<Rightarrow>
               if \<not> ln_in_blocked_heap ln then s
               else push_lane_head_candidate l now
                      (s\<lparr>lanes := hm_insert l (ln\<lparr>ln_in_blocked_heap := False,
                           ln_blocked_generation := wrapping_add (ln_blocked_generation ln) 1\<rparr>) (lanes s),
                         stale_blocked := stale_blocked s + 1\<rparr>)))"

text \<open>
  A refund per window set: the new state, and the window itself when an event was found.  The set
  of a chat is dropped when the refund left it idle.
\<close>

definition refund_global :: "instant \<Rightarrow> job_id \<Rightarrow> nat \<Rightarrow> scheduler_state \<Rightarrow> window_ref list \<times> scheduler_state" where
  "refund_global now j weight s =
     (let (hit, ws) = ws_refund now j weight (global_windows s)
      in (if hit then [WinGlobal] else [], s\<lparr>global_windows := ws\<rparr>))"

definition refund_class_global ::
    "instant \<Rightarrow> job_id \<Rightarrow> nat \<Rightarrow> outbound_class \<Rightarrow> scheduler_state \<Rightarrow> window_ref list \<times> scheduler_state" where
  "refund_class_global now j weight cl s =
     (case hm_get (class_global_windows s) cl of
        None \<Rightarrow> ([], s)
      | Some ws0 \<Rightarrow>
          let (hit, ws) = ws_refund now j weight ws0
          in (if hit then [WinClassGlobal cl] else [],
              s\<lparr>class_global_windows := hm_insert cl ws (class_global_windows s)\<rparr>))"

definition refund_chat ::
    "instant \<Rightarrow> job_id \<Rightarrow> nat \<Rightarrow> outbound_chat_key \<Rightarrow> scheduler_state \<Rightarrow> window_ref list \<times> scheduler_state" where
  "refund_chat now j weight chat s =
     (case hm_get (chat_window_sets s) chat of
        None \<Rightarrow> ([], s)
      | Some ws0 \<Rightarrow>
          let (hit, ws1) = ws_refund now j weight ws0;
              (idle, ws2) = ws_is_idle now ws1
          in (if hit then [WinChat chat] else [],
              s\<lparr>chat_window_sets := (if idle then hm_remove chat (chat_window_sets s)
                                     else hm_insert chat ws2 (chat_window_sets s))\<rparr>))"

definition refund_class_chat ::
    "instant \<Rightarrow> job_id \<Rightarrow> nat \<Rightarrow> outbound_chat_key \<Rightarrow> outbound_class \<Rightarrow> scheduler_state
      \<Rightarrow> window_ref list \<times> scheduler_state" where
  "refund_class_chat now j weight chat cl s =
     (case hm_get (class_chat_window_sets s) (chat, cl) of
        None \<Rightarrow> ([], s)
      | Some ws0 \<Rightarrow>
          let (hit, ws) = ws_refund now j weight ws0
          in (if hit then [WinClassChat chat cl] else [],
              s\<lparr>class_chat_window_sets := hm_insert (chat, cl) ws (class_chat_window_sets s)\<rparr>))"

definition refund_windows ::
    "instant \<Rightarrow> job_id \<Rightarrow> in_flight_rec \<Rightarrow> scheduler_state \<Rightarrow> window_ref list \<times> scheduler_state" where
  "refund_windows now j fl s =
     (let (r1, s1) = refund_global now j (if_weight fl) s;
          (r2, s2) = refund_class_global now j (if_weight fl) (if_class fl) s1
      in case if_scope fl of
           ScopeGlobal \<Rightarrow> (r1 @ r2, s2)
         | ScopeChat chat \<Rightarrow>
             let (r3, s3) = refund_chat now j (if_weight fl) chat s2;
                 (r4, s4) = refund_class_chat now j (if_weight fl) chat (if_class fl) s3
             in (r1 @ r2 @ r3 @ r4, s4))"

definition penalize :: "outbound_scope \<Rightarrow> instant \<Rightarrow> scheduler_state \<Rightarrow> scheduler_state" where
  "penalize sc until s =
     (let key = (case sc of ScopeGlobal \<Rightarrow> PenaltyGlobal | ScopeChat chat \<Rightarrow> PenaltyChat chat);
          old = (case hm_get (penalties s) key of None \<Rightarrow> until | Some t \<Rightarrow> t)
      in s\<lparr>penalties := hm_insert key (if old < until then until else old) (penalties s)\<rparr>)"

definition complete ::
    "job_id \<Rightarrow> outbound_completion \<Rightarrow> instant \<Rightarrow> instant \<Rightarrow> scheduler_state \<Rightarrow> scheduler_state" where
  "complete j completion now observed_at s =
     (case hm_get (in_flight s) j of
        None \<Rightarrow> s
      | Some fl \<Rightarrow>
          let s1 = s\<lparr>in_flight := hm_remove j (in_flight s)\<rparr>;
              s2 = (case if_lane fl of None \<Rightarrow> s1 | Some l \<Rightarrow> complete_lane j l now s1);
              s3 = (if completion = NoRequest
                      then (let (refunded, t) = refund_windows now j fl s2
                            in fold (\<lambda>w u. rearm_reservation_owner w now u) refunded t)
                      else s2)
          in case completion of
               RetryAfter sc d \<Rightarrow> if d = 0 then s3 else penalize sc (observed_at + d) s3
             | _ \<Rightarrow> s3)"

subsection \<open>Replacing the limits\<close>

definition rearm_reference :: "candidate_ref \<Rightarrow> instant \<Rightarrow> scheduler_state \<Rightarrow> scheduler_state" where
  "rearm_reference r now s =
     (case r of
        RefJob j \<Rightarrow>
          if hm_has (jobs s) j
            then push_job_candidate j now
                   (s\<lparr>jobs := hm_adjust j (\<lambda>b. b\<lparr>j_in_blocked_heap := False, j_parked_in := None,
                                              j_reservation_owner := None\<rparr>) (jobs s)\<rparr>)
            else s
      | RefLane l \<Rightarrow>
          push_lane_head_candidate l now
            (s\<lparr>lanes := hm_adjust l (\<lambda>n. n\<lparr>ln_in_blocked_heap := False\<rparr>) (lanes s)\<rparr>))"

definition rearm_blocked_and_parked :: "instant \<Rightarrow> scheduler_state \<Rightarrow> scheduler_state" where
  "rearm_blocked_and_parked now s =
     (let s1 = fold (\<lambda>b t. rearm_reference (bj_reference (the_rev b)) now t) (blocked s)
                 (s\<lparr>blocked := [], stale_blocked := 0\<rparr>)
      in fold (\<lambda>r t. rearm_reference r now t)
           (concat (map (\<lambda>p. res_queue (snd p)) (reservations s1))) (s1\<lparr>reservations := []\<rparr>))"

definition pending_misfit :: "outbound_limits \<Rightarrow> outbound_meta \<Rightarrow> scheduler_config_error option" where
  "pending_misfit limits meta =
     (let err = (\<lambda>w. PendingWeightExceedsWindow (m_scope meta) (m_weight meta) (wl_capacity w))
      in case misfit_limit (m_weight meta) (lim_global limits) of
           Some w \<Rightarrow> Some (err w)
         | None \<Rightarrow>
             (case m_scope meta of
                ScopeGlobal \<Rightarrow> None
              | ScopeChat chat \<Rightarrow>
                  map_option err (misfit_limit (m_weight meta) (kind_limits chat (lim_chat limits)))))"

definition pending_misfit_class :: "outbound_class_limits \<Rightarrow> outbound_meta \<Rightarrow> scheduler_config_error option" where
  "pending_misfit_class limits meta =
     (let err = (\<lambda>w. PendingWeightExceedsWindow (m_scope meta) (m_weight meta) (cl_capacity w))
      in case misfit_class (m_weight meta) (m_class meta) (clim_global limits) of
           Some w \<Rightarrow> Some (err w)
         | None \<Rightarrow>
             (case m_scope meta of
                ScopeGlobal \<Rightarrow> None
              | ScopeChat _ \<Rightarrow>
                  map_option err (misfit_class (m_weight meta) (m_class meta) (clim_chat limits))))"

definition first_misfit ::
    "(outbound_meta \<Rightarrow> scheduler_config_error option) \<Rightarrow> scheduler_state \<Rightarrow> scheduler_config_error option" where
  "first_misfit check s =
     (case List.map_filter (\<lambda>job. check (j_meta job)) (hm_values (jobs s)) of [] \<Rightarrow> None | e # _ \<Rightarrow> Some e)"

text \<open>The live events of a chat's longest window; unlike the global set it is not pruned.\<close>

definition live_chat_events :: "instant \<Rightarrow> window_set \<Rightarrow> window_event list" where
  "live_chat_events now ws =
     (case longest_window ws of
        None \<Rightarrow> []
      | Some r \<Rightarrow>
          (case checked_sub now (rw_window r) of
             None \<Rightarrow> rw_history r
           | Some cutoff \<Rightarrow> filter (\<lambda>e. cutoff < fst e) (rw_history r)))"

definition collect_global_events :: "instant \<Rightarrow> scheduler_state \<Rightarrow> window_event list \<times> scheduler_state" where
  "collect_global_events now s =
     (let ws = map (rw_prune now) (global_windows s)
      in (case longest_window ws of None \<Rightarrow> [] | Some r \<Rightarrow> rw_history r, s\<lparr>global_windows := ws\<rparr>))"

definition rebuild_sets ::
    "instant \<Rightarrow> ('k \<Rightarrow> window_set) \<Rightarrow> ('k, window_event list) hmap \<Rightarrow> ('k, window_set) hmap" where
  "rebuild_sets now fresh events =
     fold (\<lambda>(k, es) m.
             if es = [] then m
             else let ws = ws_insert_events now es (fresh k)
                  in if list_ex (\<lambda>r. rw_history r \<noteq> []) ws then hm_insert k ws m else m)
          events []"

definition set_limits ::
    "outbound_limits \<Rightarrow> instant \<Rightarrow> scheduler_state \<Rightarrow> (scheduler_config_error + unit) \<times> scheduler_state" where
  "set_limits limits now s =
     (if \<exists>w\<in>set (lim_global limits @ lim_chat limits). wl_window w = 0 then (Inl ZeroWindowDuration, s)
      else if \<exists>w\<in>set (lim_global limits). wl_kind w \<noteq> AnyKind then (Inl KindSpecificGlobalWindow, s)
      else case first_misfit (pending_misfit limits) s of
             Some e \<Rightarrow> (Inl e, s)
           | None \<Rightarrow>
               let (global_events, s1) = collect_global_events now s;
                   chat_events = hm_map_values (\<lambda>_ ws. live_chat_events now ws) (chat_window_sets s1);
                   s2 = s1\<lparr>global_limits := lim_global limits,
                           global_windows := ws_insert_events now global_events
                                               (ws_new (lim_global limits) AnyKind),
                           chat_limits := lim_chat limits,
                           chat_window_sets := rebuild_sets now
                             (\<lambda>chat. ws_new (lim_chat limits) (window_chat_kind_of chat)) chat_events\<rparr>
               in (Inr (), rearm_blocked_and_parked now s2))"

definition set_class_limits ::
    "outbound_class_limits \<Rightarrow> instant \<Rightarrow> scheduler_state
      \<Rightarrow> (scheduler_config_error + unit) \<times> scheduler_state" where
  "set_class_limits limits now s =
     (if \<exists>w\<in>set (clim_global limits @ clim_chat limits). cl_window w = 0 then (Inl ZeroWindowDuration, s)
      else case first_misfit (pending_misfit_class limits) s of
             Some e \<Rightarrow> (Inl e, s)
           | None \<Rightarrow>
               let global_events = hm_map_values (\<lambda>_ ws. fst (ws_collect_events now ws)) (class_global_windows s);
                   chat_events = hm_map_values (\<lambda>_ ws. fst (ws_collect_events now ws)) (class_chat_window_sets s);
                   windows = fold (\<lambda>(cl, es). hm_adjust cl (ws_insert_events now es)) global_events
                               (class_window_sets (clim_global limits));
                   s1 = s\<lparr>class_limits := limits, class_global_windows := windows,
                          class_chat_window_sets := rebuild_sets now
                            (\<lambda>(_, cl). ws_new_class (clim_chat limits) cl) chat_events\<rparr>
               in (Inr (), rearm_blocked_and_parked now s1))"

subsection \<open>Snapshot and the next deadline\<close>

definition snapshot :: "scheduler_state \<Rightarrow> outbound_snapshot" where
  "snapshot s = \<lparr>sn_pending = length (jobs s), sn_in_flight = length (in_flight s),
     sn_blocked = length (blocked s), sn_delayed = length (delayed s),
     sn_candidates = length (candidates s), sn_reservations = length (reservations s)\<rparr>"

fun drop_dead_delayed ::
    "scheduler_state \<Rightarrow> delayed_job reverse list \<Rightarrow> nat \<Rightarrow> delayed_job reverse list \<times> nat" where
  "drop_dead_delayed s [] stale = ([], stale)"
| "drop_dead_delayed s (d # ds) stale =
     (if hm_has (jobs s) (dj_job (the_rev d)) then (d # ds, stale) else drop_dead_delayed s ds (stale - 1))"

fun drop_dead_blocked ::
    "scheduler_state \<Rightarrow> blocked_job reverse list \<Rightarrow> nat \<Rightarrow> blocked_job reverse list \<times> nat" where
  "drop_dead_blocked s [] stale = ([], stale)"
| "drop_dead_blocked s (b # bs) stale =
     (if blocked_node_alive (the_rev b) s then (b # bs, stale) else drop_dead_blocked s bs (stale - 1))"

definition aging_event_active :: "scheduler_state \<Rightarrow> aging_event \<Rightarrow> bool" where
  "aging_event_active s e =
     (case ae_reference e of
        RefJob j \<Rightarrow> (case hm_get (jobs s) j of None \<Rightarrow> False | Some job \<Rightarrow> j_in_candidate_heap job)
      | RefLane l \<Rightarrow> (case hm_get (lanes s) l of None \<Rightarrow> False | Some ln \<Rightarrow> ln_in_candidate_heap ln))"

definition drop_stale_heads :: "scheduler_state \<Rightarrow> scheduler_state" where
  "drop_stale_heads s =
     (let (ds, sd) = drop_dead_delayed s (delayed s) (stale_delayed s);
          (bs, sb) = drop_dead_blocked s (blocked s) (stale_blocked s)
      in s\<lparr>delayed := ds, stale_delayed := sd, blocked := bs, stale_blocked := sb,
           aging_events := dropWhile (\<lambda>e. \<not> aging_event_active s (the_rev e)) (aging_events s)\<rparr>)"

definition deadlines :: "instant \<Rightarrow> scheduler_state \<Rightarrow> instant list" where
  "deadlines now s =
     (case delayed s of [] \<Rightarrow> [] | d # _ \<Rightarrow> [dj_not_before (the_rev d)])
     @ (case blocked s of [] \<Rightarrow> [] | b # _ \<Rightarrow> if bj_permanent (the_rev b) then [] else [bj_until (the_rev b)])
     @ (case aging_events s of [] \<Rightarrow> [] | e # _ \<Rightarrow> [ae_at (the_rev e)])
     @ filter (\<lambda>t. now < t) (map res_until (hm_values (reservations s)))"

definition wakeup_of :: "instant \<Rightarrow> instant list \<Rightarrow> scheduler_wakeup" where
  "wakeup_of now ts =
     (case ts of [] \<Rightarrow> ExternalEvent
      | t # ts' \<Rightarrow> let at = fold min ts' t in if at \<le> now then Immediate else At at)"

definition next_deadline :: "instant \<Rightarrow> scheduler_state \<Rightarrow> scheduler_wakeup \<times> scheduler_state" where
  "next_deadline now s = (let s1 = drop_stale_heads s in (wakeup_of now (deadlines now s1), s1))"

end
