(* ===== verification/Scheduler_Frame.thy ===== *)
theory Scheduler_Frame
  imports Scheduler_Lifecycle
begin

text \<open>
  What the bookkeeping of the scheduler never touches.  \<open>quiet s t\<close> says that \<open>t\<close> holds the same
  pending jobs with the same requests, the same permits, configuration and penalties as \<open>s\<close>, and
  that lanes lose nothing but entries of dead jobs.  Pushing, promoting, parking, blocking,
  compacting, popping and renumbering are all quiet.
\<close>

named_theorems quiet_intros "operations that are quiet"

definition static :: "job_rec \<Rightarrow> outbound_meta \<times> correlation_id option \<times> coalesce_key option \<times> nat option" where
  "static b = (j_meta b, j_correlation b, j_coalesce_key b, j_lane_order b)"

definition job_static :: "scheduler_state \<Rightarrow> job_id
    \<Rightarrow> (outbound_meta \<times> correlation_id option \<times> coalesce_key option \<times> nat option) option" where
  "job_static s j = map_option static (hm_get (jobs s) j)"

definition lane_free :: "lane_state \<Rightarrow> bool" where
  "lane_free ln \<longleftrightarrow>
     (case ln_mode ln of
        BoundedOrderedStart mx \<Rightarrow> ln_in_flight_count ln < mx \<or> ln_in_flight_count ln = 0
      | _ \<Rightarrow> ln_in_flight_count ln = 0 \<or> ln_in_flight ln = None)"

abbreviation live_pending :: "(job_id, job_rec) hmap \<Rightarrow> lane_state \<Rightarrow> (nat \<times> job_id) list" where
  "live_pending js ln \<equiv> filter (\<lambda>p. hm_has js (snd p)) (ln_pending ln)"

definition lane_kept :: "(job_id, job_rec) hmap \<Rightarrow> lane_state option \<Rightarrow> lane_state option \<Rightarrow> bool" where
  "lane_kept js lo lo' \<longleftrightarrow>
     (case (lo, lo') of
        (None, None) \<Rightarrow> True
      | (None, Some _) \<Rightarrow> False
      | (Some ln, None) \<Rightarrow> live_pending js ln = [] \<and> lane_free ln
      | (Some ln, Some ln') \<Rightarrow>
          ln_mode ln' = ln_mode ln \<and> ln_in_flight ln' = ln_in_flight ln
          \<and> ln_in_flight_count ln' = ln_in_flight_count ln \<and> ln_next_order ln' = ln_next_order ln
          \<and> live_pending js ln' = live_pending js ln \<and> set (ln_pending ln') \<subseteq> set (ln_pending ln)
          \<and> (sorted_wrt (<) (ln_pending ln) \<longrightarrow> sorted_wrt (<) (ln_pending ln')))"

definition quiet :: "scheduler_state \<Rightarrow> scheduler_state \<Rightarrow> bool" where
  "quiet s t \<longleftrightarrow>
     (\<forall>j. job_static t j = job_static s j) \<and> map fst (jobs t) = map fst (jobs s)
     \<and> in_flight t = in_flight s \<and> next_job_id t = next_job_id s \<and> coalesce t = coalesce s
     \<and> aging t = aging s \<and> global_limits t = global_limits s \<and> chat_limits t = chat_limits s
     \<and> class_limits t = class_limits s \<and> penalties t = penalties s
     \<and> (\<forall>l. lane_kept (jobs s) (hm_get (lanes s) l) (hm_get (lanes t) l))"

lemma job_static_has: "hm_has (jobs s) j \<longleftrightarrow> job_static s j \<noteq> None"
  by (simp add: job_static_def)

lemma quiet_has: "quiet s t \<Longrightarrow> hm_has (jobs t) j \<longleftrightarrow> hm_has (jobs s) j"
  by (simp only: quiet_def job_static_has)

lemma quiet_live_pending: "quiet s t \<Longrightarrow> live_pending (jobs t) ln = live_pending (jobs s) ln"
  using quiet_has by presburger

lemma lane_kept_refl [simp]: "lane_kept js lo lo"
  by (simp add: lane_kept_def split: option.split)

lemma lane_kept_trans: "lane_kept js a b \<Longrightarrow> lane_kept js b c \<Longrightarrow> lane_kept js a c"
  by (cases a; cases b; cases c) (auto simp: lane_kept_def lane_free_def split: outbound_lane_mode.splits)

lemma quiet_refl [simp]: "quiet s s"
  by (simp add: quiet_def)

lemma lane_kept_live_cong:
  "(\<And>j. hm_has js j = hm_has js' j) \<Longrightarrow> lane_kept js a b = lane_kept js' a b"
  unfolding lane_kept_def by presburger

lemma quiet_trans: 
  assumes "quiet s t" and "quiet t u"
  shows "quiet s u"
proof -
  have "lane_kept (jobs s) (hm_get (lanes t) l) (hm_get (lanes u) l)" for l
    using assms quiet_has[OF assms(1)] lane_kept_live_cong[of "jobs s" "jobs t"]
    by (simp only: quiet_def)
  then have "lane_kept (jobs s) (hm_get (lanes s) l) (hm_get (lanes u) l)" for l
    using assms(1) lane_kept_trans by (fastforce simp: quiet_def)
  then show ?thesis using assms by (simp add: quiet_def)
qed

lemma quiet_update [simp]:
  "quiet s (t\<lparr>candidates := c\<rparr>) = quiet s t"
  "quiet s (t\<lparr>blocked := b\<rparr>) = quiet s t"
  "quiet s (t\<lparr>aging_events := a\<rparr>) = quiet s t"
  "quiet s (t\<lparr>reservations := r\<rparr>) = quiet s t"
  "quiet s (t\<lparr>delayed := d\<rparr>) = quiet s t"
  "quiet s (t\<lparr>stale_candidates := n\<rparr>) = quiet s t"
  "quiet s (t\<lparr>stale_blocked := n\<rparr>) = quiet s t"
  "quiet s (t\<lparr>stale_delayed := n\<rparr>) = quiet s t"
  "quiet s (t\<lparr>next_sequence := n\<rparr>) = quiet s t"
  "quiet s (t\<lparr>global_windows := w\<rparr>) = quiet s t"
  "quiet s (t\<lparr>chat_window_sets := cw\<rparr>) = quiet s t"
  "quiet s (t\<lparr>class_global_windows := gw\<rparr>) = quiet s t"
  "quiet s (t\<lparr>class_chat_window_sets := ccw\<rparr>) = quiet s t"
  by (simp_all add: quiet_def job_static_def)

lemma quiet_jobs:
  assumes "jobs u = jobs t" and "\<And>b. static (f b) = static b"
  shows "quiet s (u\<lparr>jobs := hm_adjust j f (jobs t)\<rparr>) = quiet s u"
proof -
  have "job_static (u\<lparr>jobs := hm_adjust j f (jobs t)\<rparr>) i = job_static u i" for i
    by (cases "hm_get (jobs t) j"; cases "i = j") (simp_all add: job_static_def assms)
  then show ?thesis by (simp add: quiet_def assms(1))
qed

lemma quiet_map_jobs:
  assumes "\<And>k b. static (f k b) = static b"
  shows "quiet s (t\<lparr>jobs := hm_map_values f (jobs t)\<rparr>) = quiet s t"
proof -
  have "job_static (t\<lparr>jobs := hm_map_values f (jobs t)\<rparr>) i = job_static t i" for i
    by (cases "hm_get (jobs t) i") (simp_all add: job_static_def assms)
  then show ?thesis by (simp add: quiet_def)
qed

lemma quiet_lane_insert:
  assumes "hm_get (lanes t) l = Some ln" and "lane_kept (jobs t) (Some ln) (Some ln')" and "quiet s t"
  shows "quiet s (t\<lparr>lanes := hm_insert l ln' (lanes t)\<rparr>)"
proof (rule quiet_trans[OF assms(3)])
  show "quiet t (t\<lparr>lanes := hm_insert l ln' (lanes t)\<rparr>)"
    using assms(1,2) by (simp add: quiet_def job_static_def)
qed

lemma quiet_lane_adjust:
  assumes "\<And>ln. lane_kept (jobs t) (Some ln) (Some (f ln))" and "quiet s t"
  shows "quiet s (t\<lparr>lanes := hm_adjust l f (lanes t)\<rparr>)"
proof (rule quiet_trans[OF assms(2)])
  have "lane_kept (jobs t) (hm_get (lanes t) l) (map_option f (hm_get (lanes t) l))"
    by (cases "hm_get (lanes t) l") (simp_all add: assms(1))
  then show "quiet t (t\<lparr>lanes := hm_adjust l f (lanes t)\<rparr>)"
    by (simp add: quiet_def job_static_def)
qed

lemma quiet_lane_remove:
  assumes "hm_get (lanes t) l = Some ln" and "live_pending (jobs t) ln = []" and "lane_free ln"
    and "quiet s t"
  shows "quiet s (t\<lparr>lanes := hm_remove l (lanes t)\<rparr>)"
proof (rule quiet_trans[OF assms(4)])
  have "lane_kept (jobs t) (Some ln) None" using assms(2,3) by (simp add: lane_kept_def)
  then show "quiet t (t\<lparr>lanes := hm_remove l (lanes t)\<rparr>)"
    using assms(1) by (simp add: quiet_def job_static_def)
qed

subsection \<open>Lane upkeep\<close>

lemma live_pending_dropWhile:
  "filter (\<lambda>p. \<exists>y. hm_get js (snd p) = Some y) (dropWhile (\<lambda>p. hm_get js (snd p) = None) ps)
     = filter (\<lambda>p. \<exists>y. hm_get js (snd p) = Some y) ps"
  by (induction ps) auto

lemma sorted_wrt_dropWhile: "sorted_wrt P xs \<Longrightarrow> sorted_wrt P (dropWhile Q xs)"
  by (induction xs) auto

lemma lane_kept_drain: "lane_kept js (Some ln) (Some (drain_lane js ln))"
  by (auto simp: lane_kept_def drain_lane_pending live_pending_dropWhile sorted_wrt_dropWhile
      dest: set_dropWhileD)

lemma lane_kept_drained:
  "lane_kept js (Some ln) (Some ln') \<Longrightarrow> lane_kept js (Some ln) (Some (drain_lane js ln'))"
  using lane_kept_trans lane_kept_drain by blast

lemma lane_kept_flags [simp]:
  "lane_kept js lo (Some (ln\<lparr>ln_in_candidate_heap := b\<rparr>)) = lane_kept js lo (Some ln)"
  "lane_kept js lo (Some (ln\<lparr>ln_in_blocked_heap := b\<rparr>)) = lane_kept js lo (Some ln)"
  "lane_kept js lo (Some (ln\<lparr>ln_blocked_generation := g\<rparr>)) = lane_kept js lo (Some ln)"
  "lane_kept js lo (Some (ln\<lparr>ln_candidate_effective := e\<rparr>)) = lane_kept js lo (Some ln)"
  "lane_kept js lo (Some (ln\<lparr>ln_stale := n\<rparr>)) = lane_kept js lo (Some ln)"
  by (simp_all add: lane_kept_def split: option.split)

lemma drained_no_live: "ln_pending (drain_lane js ln) = [] \<Longrightarrow> live_pending js ln = []"
  using lane_kept_drain[of js ln] by (simp add: lane_kept_def)

lemma lane_free_capacity: "lane_has_capacity ln \<Longrightarrow> lane_free ln"
  by (cases "ln_mode ln") (simp_all add: lane_has_capacity_def lane_free_def)

lemma lane_free_idle: "lane_is_idle ln \<Longrightarrow> lane_free ln"
  by (simp add: lane_is_idle_def lane_free_def split: outbound_lane_mode.splits)

lemma lane_free_drain [simp]: "lane_free (drain_lane js ln) = lane_free ln"
  by (simp add: lane_free_def split: outbound_lane_mode.split)

lemma quiet_schedule_aging [simp]: "quiet s (schedule_aging r e b t u) = quiet s u"
  by (simp add: schedule_aging_def Let_def)

lemma quiet_push_job [quiet_intros]: "quiet s t \<Longrightarrow> quiet s (push_job_candidate j now t)"
  by (simp add: push_job_candidate_def Let_def quiet_jobs static_def split: option.split)

lemma quiet_drain_insert:
  "hm_get (lanes t) l = Some ln \<Longrightarrow> quiet s t
   \<Longrightarrow> quiet s (t\<lparr>lanes := hm_insert l (drain_lane (jobs t) ln) (lanes t)\<rparr>)"
  by (rule quiet_lane_insert[OF _ lane_kept_drain])

lemma quiet_push_lane [quiet_intros]:
  assumes "quiet s t"
  shows "quiet s (push_lane_head_candidate l now t)"
proof (cases rule: push_lane_head_cases[of l now t])
  case same
  with assms show ?thesis by simp
next
  case (gone ln)
  let ?u = "t\<lparr>lanes := hm_insert l (drain_lane (jobs t) ln) (lanes t)\<rparr>"
  have "quiet s (?u\<lparr>lanes := hm_remove l (lanes ?u)\<rparr>)"
    using quiet_drain_insert[OF gone(1) assms] gone(4) lane_free_capacity[OF gone(2)]
    by (intro quiet_lane_remove[where ln = "drain_lane (jobs t) ln"]) simp_all
  with gone show ?thesis by simp
next
  case (kept ln p ps job)
  with quiet_drain_insert[OF _ assms] show ?thesis by simp
next
  case (pushed ln p ps job e)
  let ?u = "t\<lparr>lanes := hm_insert l (drain_lane (jobs t) ln) (lanes t)\<rparr>"
  have "quiet s (?u\<lparr>lanes := hm_adjust l (\<lambda>b. b\<lparr>ln_in_candidate_heap := True,
      ln_candidate_effective := e\<rparr>) (lanes ?u)\<rparr>)"
    using quiet_drain_insert[OF pushed(1) assms] by (intro quiet_lane_adjust) simp_all
  with pushed show ?thesis by simp
qed

lemma quiet_push_reference [quiet_intros]: "quiet s t \<Longrightarrow> quiet s (push_reference r now t)"
  by (cases r) (simp_all add: quiet_push_job quiet_push_lane)

lemma quiet_unpark [quiet_intros]: "quiet s t \<Longrightarrow> quiet s (unpark w r t)"
  by (cases r) (simp_all add: unpark_def quiet_jobs static_def)

lemma quiet_fold [quiet_intros]:
  "(\<And>x u. quiet s u \<Longrightarrow> quiet s (f x u)) \<Longrightarrow> quiet s t \<Longrightarrow> quiet s (fold f xs t)"
  by (induction xs arbitrary: t) simp_all

lemma quiet_release [quiet_intros]: "quiet s t \<Longrightarrow> quiet s (release_reservation w r now t)"
  by (auto simp: release_reservation_def intro!: quiet_intros split: option.split)

lemma lane_kept_filter:
  "lane_kept js (Some ln) (Some (ln\<lparr>ln_pending := filter (\<lambda>p. hm_has js (snd p)) (ln_pending ln), ln_stale := n\<rparr>))"
  by (simp add: lane_kept_def sorted_wrt_filter)

lemma quiet_compact [quiet_intros]:
  "quiet s t \<Longrightarrow> quiet s (compact_delayed_if_needed t)"
  "quiet s t \<Longrightarrow> quiet s (compact_candidate_heap_if_needed t)"
  "quiet s t \<Longrightarrow> quiet s (compact_blocked_if_needed t)"
  "quiet s t \<Longrightarrow> quiet s (compact_reservations_if_needed t)"
  "quiet s t \<Longrightarrow> quiet s (compact_lanes_if_needed t)"
proof -
  assume q: "quiet s t"
  show "quiet s (compact_lanes_if_needed t)"
  proof (rule quiet_trans[OF q])
    have "lane_kept (jobs t) (hm_get (lanes t) l)
        (map_option (compact_lane (jobs t)) (hm_get (lanes t) l))" for l
      using lane_kept_filter by (cases "hm_get (lanes t) l") (simp_all add: compact_lane_def)
    then show "quiet t (compact_lanes_if_needed t)"
      by (simp add: quiet_def job_static_def compact_lanes_if_needed_def)
  qed
qed (simp_all add: compact_delayed_if_needed_def compact_candidate_heap_if_needed_def
    compact_blocked_if_needed_def compact_reservations_if_needed_def)

subsection \<open>Promotions\<close>

lemma quiet_lane_flag:
  "quiet s t \<Longrightarrow> quiet s (t\<lparr>lanes := hm_adjust l (\<lambda>b. b\<lparr>ln_candidate_effective := e\<rparr>) (lanes t)\<rparr>)"
  "quiet s t \<Longrightarrow> quiet s (t\<lparr>lanes := hm_adjust l (\<lambda>b. b\<lparr>ln_in_blocked_heap := x\<rparr>) (lanes t)\<rparr>)"
  by (rule quiet_lane_adjust; simp)+

lemma quiet_aging_event: "quiet s t \<Longrightarrow> quiet s (promote_aging_event r now t)"
  by (simp add: promote_aging_event_def Let_def quiet_jobs static_def quiet_lane_flag
      split: candidate_ref.split option.split list.split)

lemma quiet_aging_loop: "promote_aging_loop n now t = Some u \<Longrightarrow> quiet s t \<Longrightarrow> quiet s u"
proof (induction n arbitrary: t)
  case (Suc n)
  show ?case
  proof (cases "aging_events t")
    case (Cons e es)
    with Suc show ?thesis
      using quiet_aging_event[of s "t\<lparr>aging_events := es\<rparr>"] by (auto split: if_splits)
  qed (use Suc in simp)
qed simp

lemma quiet_promote_aging: "promote_aging now t = Some u \<Longrightarrow> quiet s t \<Longrightarrow> quiet s u"
  unfolding promote_aging_def by (rule quiet_aging_loop)

lemma quiet_delayed_job: "quiet s t \<Longrightarrow> quiet s (promote_delayed_job j now t)"
  by (auto simp: promote_delayed_job_def Let_def quiet_jobs static_def
      intro!: quiet_intros split: option.split)

lemma quiet_delayed_loop: "quiet s t \<Longrightarrow> quiet s (promote_delayed_loop now ds t)"
  by (induction ds arbitrary: t) (simp_all add: quiet_delayed_job)

lemma quiet_promote_delayed [quiet_intros]: "quiet s t \<Longrightarrow> quiet s (promote_delayed now t)"
  by (simp add: promote_delayed_def quiet_delayed_loop)

lemma quiet_blocked_node: "quiet s t \<Longrightarrow> quiet s (promote_blocked_node n now t)"
  by (auto simp: promote_blocked_node_def drop_stale_blocked_def Let_def quiet_jobs static_def
      intro!: quiet_intros quiet_lane_flag split: candidate_ref.split option.split)

lemma quiet_blocked_loop: "quiet s t \<Longrightarrow> quiet s (promote_blocked_loop now bs t)"
  by (induction bs arbitrary: t) (simp_all add: quiet_blocked_node)

lemma quiet_promote_blocked [quiet_intros]: "quiet s t \<Longrightarrow> quiet s (promote_blocked now t)"
  by (simp add: promote_blocked_def quiet_blocked_loop)

lemma quiet_promote_reservations [quiet_intros]: "quiet s t \<Longrightarrow> quiet s (promote_reservations now t)"
proof -
  have "quiet s (promote_reservation w now u)" if "quiet s u" for w u
    using that by (auto simp: promote_reservation_def Let_def quiet_jobs static_def
      intro!: quiet_push_lane quiet_push_job split: option.split list.split prod.split candidate_ref.split)
  then show "quiet s t \<Longrightarrow> ?thesis" unfolding promote_reservations_def by (rule quiet_fold)
qed

lemma quiet_promote_all: "promote_all now t = Some u \<Longrightarrow> quiet s t \<Longrightarrow> quiet s u"
  by (auto simp: promote_all_def dest: quiet_promote_aging intro!: quiet_intros)

subsection \<open>Popping, blocking, parking\<close>

lemma quiet_pop_job: "pop_job_key k j t = (r, u) \<Longrightarrow> quiet s t \<Longrightarrow> quiet s u"
  by (auto simp: pop_job_key_def bump_stale_def quiet_jobs static_def split: option.splits if_splits)

lemma quiet_pop_lane:
  assumes "pop_lane_key k l now t = (r, u)" and "quiet s t"
  shows "quiet s u"
proof (cases "hm_get (lanes t) l")
  case None
  with assms show ?thesis by (auto simp: pop_lane_key_def bump_stale_def)
next
  case lane: (Some ln0)
  let ?ln1 = "ln0\<lparr>ln_in_candidate_heap := False\<rparr>"
  let ?d = "drain_lane (jobs t) ?ln1"
  let ?t1 = "t\<lparr>lanes := hm_insert l ?ln1 (lanes t)\<rparr>"
  let ?t2 = "t\<lparr>lanes := hm_insert l ?d (hm_insert l ?ln1 (lanes t))\<rparr>"
  have t1: "quiet s ?t1" by (rule quiet_lane_insert[OF lane _ assms(2)]) simp
  then have t2: "quiet s ?t2"
    using quiet_drain_insert[of ?t1 l ?ln1 s] by simp
  have t3: "quiet s (?t2\<lparr>lanes := hm_remove l (lanes ?t2)\<rparr>)" if "lane_is_idle ?d"
  proof (rule quiet_lane_remove[where ln = ?d, OF _ _ lane_free_idle[OF that] t2])
    show "live_pending (jobs ?t2) ?d = []" using that by (simp add: lane_is_idle_def)
  qed simp
  from assms(1) show ?thesis
    using assms(2) t1 t2 t3 quiet_push_lane[OF t2, of l now]
    by (auto simp: pop_lane_key_def lane Let_def bump_stale_def split: if_splits option.splits list.splits)
qed

lemma quiet_pop_step: "pop_step now t = (r, u) \<Longrightarrow> quiet s t \<Longrightarrow> quiet s u"
  by (auto simp: pop_step_def Let_def split: list.splits candidate_ref.splits
      dest!: quiet_pop_job[where s = s] quiet_pop_lane[where s = s])

lemma quiet_pop: "pop_candidate now t = (r, u) \<Longrightarrow> quiet s t \<Longrightarrow> quiet s u"
proof (induction now t arbitrary: u rule: pop_candidate.induct)
  case (1 now t)
  obtain o1 t1 where step: "pop_step now t = (o1, t1)" by (cases "pop_step now t")
  then have "quiet s t1" using quiet_pop_step 1 by blast
  with 1 step show ?case
    by (cases o1) (auto simp: pop_candidate.simps[of now t])
qed

lemma quiet_admission: "admission c now t = (v, u) \<Longrightarrow> quiet s t \<Longrightarrow> quiet s u"
  by (auto simp: admission_def admit_windows_def admit_global_def admit_class_global_def
      admit_scope_def admit_chat_def admit_class_chat_def Let_def
      split: if_splits option.splits prod.splits outbound_scope.splits)

lemma quiet_release_previous [quiet_intros]:
  "quiet s t \<Longrightarrow> quiet s (release_previous_reservation_if_changed c w now t)"
  by (auto simp: release_previous_reservation_if_changed_def Let_def quiet_jobs static_def
      intro!: quiet_release split: option.split)

lemma quiet_reserve [quiet_intros]: "quiet s t \<Longrightarrow> quiet s (reserve_window c u w t)"
  by (simp add: reserve_window_def Let_def quiet_jobs static_def)

lemma quiet_block: "block_candidate c u p t = Some v \<Longrightarrow> quiet s t \<Longrightarrow> quiet s v"
  by (auto simp: block_candidate_def Let_def quiet_jobs static_def
      intro!: quiet_lane_insert split: option.splits)

lemma quiet_park [quiet_intros]: "quiet s t \<Longrightarrow> quiet s (park_candidate c w now t)"
  by (auto simp: park_candidate_def push_candidate_def Let_def quiet_jobs static_def
      intro!: quiet_push_lane quiet_push_job split: option.split candidate_ref.split)

lemma quiet_rearm [quiet_intros]: "quiet s t \<Longrightarrow> quiet s (rearm_reservations c now t)"
proof -
  have "quiet s (rearm_window w now u)" if "quiet s u" for w u
    using that by (simp add: rearm_window_def split: option.split list.split)
  then show "quiet s t \<Longrightarrow> ?thesis" unfolding rearm_reservations_def by (rule quiet_fold)
qed

lemma quiet_rearm_owner [quiet_intros]: "quiet s t \<Longrightarrow> quiet s (rearm_reservation_owner w now t)"
  by (auto simp: rearm_reservation_owner_def quiet_jobs static_def
      intro!: quiet_push_lane quiet_push_job quiet_lane_insert split: option.split candidate_ref.split)

lemma quiet_rearm_all [quiet_intros]: "quiet s t \<Longrightarrow> quiet s (rearm_blocked_and_parked now t)"
proof -
  have "quiet s (rearm_reference r now u)" if "quiet s u" for r u
    using that by (auto simp: rearm_reference_def quiet_jobs static_def quiet_lane_flag
      intro!: quiet_push_lane quiet_push_job split: candidate_ref.split)
  then show "quiet s t \<Longrightarrow> ?thesis"
    unfolding rearm_blocked_and_parked_def Let_def by (simp add: quiet_fold)
qed

lemma quiet_next_deadline: "next_deadline now t = (w, u) \<Longrightarrow> quiet s t \<Longrightarrow> quiet s u"
  by (auto simp: next_deadline_def drop_stale_heads_def Let_def split: prod.splits)

subsection \<open>Renumbering\<close>

lemma quiet_rebase_candidate:
  assumes "quiet s (fst acc)"
  shows "quiet s (fst (rebase_candidate k acc))"
proof (cases acc)
  case acc: (Pair t rebuilt)
  show ?thesis
  proof (cases "ck_reference k")
    case (RefJob j)
    then show ?thesis using assms acc by (simp add: rebase_candidate_def split: option.split)
  next
    case (RefLane l)
    show ?thesis
    proof (cases "hm_get (lanes t) l")
      case None
      then show ?thesis using assms acc RefLane by (simp add: rebase_candidate_def)
    next
      case lane: (Some ln0)
      let ?ln = "drain_lane (jobs t) ln0"
      let ?ln' = "?ln\<lparr>ln_in_candidate_heap := False, ln_candidate_effective := 0\<rparr>"
      let ?t1 = "t\<lparr>lanes := hm_insert l ?ln (lanes t)\<rparr>"
      let ?t2 = "?t1\<lparr>lanes := hm_insert l ?ln' (lanes ?t1)\<rparr>"
      have t1: "quiet s ?t1" using quiet_drain_insert[OF lane] assms acc by simp
      then have t2: "quiet s ?t2" by (rule quiet_lane_insert[where ln = ?ln, rotated 2]) simp_all
      have t3: "quiet s (?t2\<lparr>lanes := hm_remove l (lanes ?t2)\<rparr>)" if idle: "lane_is_idle ?ln'"
      proof (rule quiet_lane_remove[where ln = ?ln', OF _ _ lane_free_idle[OF idle] t2])
        show "live_pending (jobs ?t2) ?ln' = []" using idle by (simp add: lane_is_idle_def)
      qed simp
      show ?thesis using t1 t2 t3 acc RefLane lane
        by (simp add: rebase_candidate_def Let_def split: option.split list.split)
    qed
  qed
qed

lemma quiet_rebase_fold: "quiet s (fst acc) \<Longrightarrow> quiet s (fst (fold rebase_candidate ks acc))"
  by (induction ks arbitrary: acc) (simp_all add: quiet_rebase_candidate)

lemma quiet_rebase: "quiet s t \<Longrightarrow> quiet s (rebase_sequences t)"
proof -
  assume q: "quiet s t"
  have map: "quiet s (t\<lparr>jobs := hm_map_values (\<lambda>_ b. b\<lparr>j_sequence := f b\<rparr>) (jobs t)\<rparr>)" for f
    using q by (subst quiet_map_jobs) (simp_all add: static_def)
  have "quiet s (rebase_dense t)"
  proof -
    let ?u = "rebase_jobs (sort (map j_sequence (hm_values (jobs t)))) t"
    obtain v rebuilt where v: "fold rebase_candidate (candidates ?u) (?u, []) = (v, rebuilt)"
      by fastforce
    have "quiet s ?u" using map by (simp add: rebase_jobs_def Let_def)
    with quiet_rebase_fold[of s "(?u, [])" "candidates ?u"] v have "quiet s v" by simp
    with v show ?thesis by (simp add: rebase_dense_def Let_def)
  qed
  moreover have "quiet s (rebase_shift mn t)" for mn
    using map by (simp add: rebase_shift_def Let_def)
  ultimately show ?thesis using q by (simp add: rebase_sequences_def Let_def)
qed

lemma quiet_take_sequence: "take_sequence t = (n, u) \<Longrightarrow> quiet s t \<Longrightarrow> quiet s u"
  by (auto simp: take_sequence_def Let_def quiet_rebase)

end
