(* ===== verification/Scheduler_Refs.thy ===== *)
theory Scheduler_Refs
  imports Scheduler_Frame
begin

text \<open>
  Which references the heaps and queues of the scheduler hold: a job is represented by itself only
  when it has no lane, so that a job with a lane is reached through the head of its lane.
  \<open>refs_in s t\<close> says that every reference in \<open>t\<close> is right for the jobs of \<open>s\<close>.
\<close>

definition lane_of :: "scheduler_state \<Rightarrow> job_id \<Rightarrow> lane_key option" where
  "lane_of s j = (case job_static s j of None \<Rightarrow> None | Some b \<Rightarrow> m_lane (fst b))"

definition ref_ok :: "scheduler_state \<Rightarrow> candidate_ref \<Rightarrow> bool" where
  "ref_ok s r = (case r of RefLane _ \<Rightarrow> True | RefJob j \<Rightarrow> j < next_job_id s \<and> lane_of s j = None)"

definition reservation_refs_ok :: "scheduler_state \<Rightarrow> reservation \<Rightarrow> bool" where
  "reservation_refs_ok s res \<longleftrightarrow> list_all (ref_ok s) (res_queue res)
     \<and> (case res_owner res of None \<Rightarrow> True | Some r \<Rightarrow> ref_ok s r)"

definition refs_in :: "scheduler_state \<Rightarrow> scheduler_state \<Rightarrow> bool" where
  "refs_in s t \<longleftrightarrow> list_all (\<lambda>k. ref_ok s (ck_reference k)) (candidates t)
     \<and> list_all (\<lambda>b. ref_ok s (bj_reference (the_rev b))) (blocked t)
     \<and> list_all (\<lambda>e. ref_ok s (ae_reference (the_rev e))) (aging_events t)
     \<and> list_all (\<lambda>p. reservation_refs_ok s (snd p)) (reservations t)"

definition ids_ok :: "scheduler_state \<Rightarrow> bool" where
  "ids_ok s \<longleftrightarrow> (\<forall>j. hm_has (jobs s) j \<longrightarrow> j < next_job_id s)"

lemma ref_ok_lane [simp]: "ref_ok s (RefLane l)"
  by (simp add: ref_ok_def)

lemma quiet_ref_ok: "quiet s t \<Longrightarrow> ref_ok t r = ref_ok s r"
  by (auto simp: ref_ok_def quiet_def lane_of_def split: candidate_ref.split)

lemma quiet_refs_in: "quiet s t \<Longrightarrow> refs_in t u = refs_in s u"
proof -
  assume "quiet s t"
  then have r: "ref_ok t = ref_ok s" by (intro ext) (rule quiet_ref_ok)
  then have "reservation_refs_ok t = reservation_refs_ok s"
    by (intro ext) (simp add: reservation_refs_ok_def split: option.split)
  with r show ?thesis by (simp add: refs_in_def)
qed

lemma ref_ok_job:
  assumes "quiet s t" and "ids_ok s" and "hm_get (jobs t) j = Some job" and "m_lane (j_meta job) = None"
  shows "ref_ok s (RefJob j)"
proof -
  have "job_static s j = Some (static job)"
    using assms(1,3) by (metis job_static_def option.simps(9) quiet_def)
  then show ?thesis using assms
    by (auto simp: ref_ok_def lane_of_def static_def ids_ok_def job_static_def)
qed

lemma list_all_heap_push [simp]: "list_all P (heap_push x h) \<longleftrightarrow> P x \<and> list_all P h"
  by (auto simp: list_all_iff)

lemma list_all_hm_insert: "P (k, v) \<Longrightarrow> list_all P m \<Longrightarrow> list_all P (hm_insert k v m)"
  by (induction m) auto

lemma list_all_filter: "list_all P xs \<Longrightarrow> list_all P (filter Q xs)"
  by (simp add: list_all_iff)

lemma list_all_hm_remove: "list_all P m \<Longrightarrow> list_all P (hm_remove k m)"
  by (simp add: hm_remove_def list_all_filter)

lemma list_all_hm_get: "list_all (\<lambda>p. P (snd p)) m \<Longrightarrow> hm_get m k = Some v \<Longrightarrow> P v"
  using map_of_SomeD[of m k v] by (fastforce simp: list_all_iff)

lemma refs_in_reservation:
  "refs_in s t \<Longrightarrow> hm_get (reservations t) w = Some res \<Longrightarrow> reservation_refs_ok s res"
  using list_all_hm_get[of "reservation_refs_ok s" "reservations t" w res] by (simp add: refs_in_def)

lemma refs_schedule_aging: "refs_in s u \<Longrightarrow> ref_ok s r \<Longrightarrow> refs_in s (schedule_aging r e b t u)"
  by (simp add: schedule_aging_def refs_in_def Let_def)

lemma refs_push_job:
  assumes "refs_in s t" and "ref_ok s (RefJob j)"
  shows "refs_in s (push_job_candidate j now t)"
proof (cases "hm_get (jobs t) j")
  case (Some job)
  have "refs_in s (t\<lparr>jobs := js, candidates := heap_push (CandidateKey e n (RefJob j)) (candidates t)\<rparr>)"
    for js e n using assms by (simp add: refs_in_def)
  then show ?thesis using Some assms refs_schedule_aging
    by (simp add: push_job_candidate_def Let_def)
qed (use assms in \<open>simp add: push_job_candidate_def\<close>)

lemma refs_push_lane:
  assumes "refs_in s t"
  shows "refs_in s (push_lane_head_candidate l now t)"
proof (cases rule: push_lane_head_cases[of l now t])
  case (pushed ln p ps job e)
  have "refs_in s (t\<lparr>lanes := ls, candidates := heap_push (CandidateKey e n (RefLane l)) (candidates t)\<rparr>)"
    for ls n using assms by (simp add: refs_in_def)
  with pushed(9) show ?thesis by (simp only: refs_schedule_aging ref_ok_lane)
qed (use assms in \<open>simp_all add: refs_in_def\<close>)

lemma refs_push_reference: "refs_in s t \<Longrightarrow> ref_ok s r \<Longrightarrow> refs_in s (push_reference r now t)"
  by (cases r) (simp_all add: refs_push_job refs_push_lane)

lemma refs_unpark: "refs_in s (unpark w r t) = refs_in s t"
  by (cases r) (simp_all add: unpark_def refs_in_def)

lemma refs_fold_push:
  "list_all (ref_ok s) rs \<Longrightarrow> refs_in s t
   \<Longrightarrow> refs_in s (fold (\<lambda>r u. push_reference r now (unpark w r u)) rs t)"
  by (induction rs arbitrary: t) (simp_all add: refs_push_reference refs_unpark)

lemma refs_release:
  assumes "refs_in s t"
  shows "refs_in s (release_reservation w r now t)"
proof (cases "hm_get (reservations t) w")
  case (Some res)
  then have "list_all (ref_ok s) (res_queue res)"
    using refs_in_reservation[OF assms] by (simp add: reservation_refs_ok_def)
  moreover have "refs_in s (t\<lparr>reservations := hm_remove w (reservations t)\<rparr>)"
    using assms by (simp add: refs_in_def list_all_hm_remove)
  ultimately show ?thesis using assms Some refs_fold_push by (simp add: release_reservation_def)
qed (use assms in \<open>simp add: release_reservation_def\<close>)

lemma refs_compact:
  "refs_in s t \<Longrightarrow> refs_in s (compact_delayed_if_needed t)"
  "refs_in s t \<Longrightarrow> refs_in s (compact_candidate_heap_if_needed t)"
  "refs_in s t \<Longrightarrow> refs_in s (compact_blocked_if_needed t)"
  "refs_in s t \<Longrightarrow> refs_in s (compact_lanes_if_needed t)"
  "refs_in s t \<Longrightarrow> refs_in s (compact_reservations_if_needed t)"
proof -
  assume r: "refs_in s t"
  have "reservation_refs_ok s (compact_reservation t res)" if "reservation_refs_ok s res" for res
    using that by (auto simp: compact_reservation_def reservation_refs_ok_def list_all_filter)
  with r show "refs_in s (compact_reservations_if_needed t)"
    by (auto simp: compact_reservations_if_needed_def refs_in_def hm_map_values_def list_all_iff)
qed (auto simp: compact_delayed_if_needed_def compact_candidate_heap_if_needed_def
    compact_blocked_if_needed_def compact_lanes_if_needed_def refs_in_def list_all_filter)

subsection \<open>Promotions\<close>

text \<open>Every reference a promotion pushes comes from a heap, or is a job that has no lane.\<close>

lemma refs_in_pop:
  "refs_in s t \<Longrightarrow> aging_events t = e # es \<Longrightarrow> ref_ok s (ae_reference (the_rev e))"
  "refs_in s t \<Longrightarrow> candidates t = k # ks \<Longrightarrow> ref_ok s (ck_reference k)"
  "refs_in s t \<Longrightarrow> aging_events t = e # es \<Longrightarrow> refs_in s (t\<lparr>aging_events := es\<rparr>)"
  "refs_in s t \<Longrightarrow> candidates t = k # ks \<Longrightarrow> refs_in s (t\<lparr>candidates := ks\<rparr>)"
  by (simp_all add: refs_in_def)

lemma refs_in_plain [simp]:
  "refs_in s (t\<lparr>jobs := js\<rparr>) = refs_in s t"
  "refs_in s (t\<lparr>lanes := ls\<rparr>) = refs_in s t"
  "refs_in s (t\<lparr>delayed := ds\<rparr>) = refs_in s t"
  "refs_in s (t\<lparr>in_flight := fl\<rparr>) = refs_in s t"
  "refs_in s (t\<lparr>coalesce := co\<rparr>) = refs_in s t"
  "refs_in s (t\<lparr>penalties := pe\<rparr>) = refs_in s t"
  "refs_in s (t\<lparr>stale_candidates := n\<rparr>) = refs_in s t"
  "refs_in s (t\<lparr>stale_blocked := n\<rparr>) = refs_in s t"
  "refs_in s (t\<lparr>stale_delayed := n\<rparr>) = refs_in s t"
  "refs_in s (t\<lparr>next_sequence := n\<rparr>) = refs_in s t"
  "refs_in s (t\<lparr>next_job_id := n\<rparr>) = refs_in s t"
  "refs_in s (t\<lparr>global_windows := w\<rparr>) = refs_in s t"
  "refs_in s (t\<lparr>chat_window_sets := cw\<rparr>) = refs_in s t"
  "refs_in s (t\<lparr>class_global_windows := gw\<rparr>) = refs_in s t"
  "refs_in s (t\<lparr>class_chat_window_sets := ccw\<rparr>) = refs_in s t"
  by (simp_all add: refs_in_def)

lemma refs_in_push_candidate:
  "refs_in s (t\<lparr>candidates := heap_push k (candidates u)\<rparr>)
     = (ref_ok s (ck_reference k) \<and> refs_in s (t\<lparr>candidates := candidates u\<rparr>))"
  by (auto simp: refs_in_def)

lemma refs_aging_event:
  assumes "refs_in s t" and "ref_ok s r"
  shows "refs_in s (promote_aging_event r now t)"
  using assms
  by (auto simp: promote_aging_event_def Let_def refs_in_def[of s "t\<lparr>candidates := _\<rparr>"] refs_in_push_candidate
      intro!: refs_schedule_aging split: candidate_ref.split option.split list.split)

lemma refs_aging_loop: "promote_aging_loop n now t = Some u \<Longrightarrow> refs_in s t \<Longrightarrow> refs_in s u"
proof (induction n arbitrary: t)
  case (Suc n)
  show ?case
  proof (cases "aging_events t")
    case (Cons e es)
    with Suc show ?thesis
      using refs_aging_event[OF refs_in_pop(3,1)[OF Suc.prems(2) Cons]] by (auto split: if_splits)
  qed (use Suc in simp)
qed simp

lemma refs_delayed_job:
  assumes "ids_ok s" and "quiet s t" and "refs_in s t"
  shows "refs_in s (promote_delayed_job j now t)"
  using assms ref_ok_job[OF assms(2,1)]
  by (auto simp: promote_delayed_job_def Let_def intro!: refs_push_lane refs_push_job split: option.split)

lemma refs_delayed_loop:
  "ids_ok s \<Longrightarrow> quiet s t \<Longrightarrow> refs_in s t \<Longrightarrow> refs_in s (promote_delayed_loop now ds t)"
  by (induction ds arbitrary: t) (simp_all add: refs_delayed_job quiet_delayed_job)

lemma refs_blocked_node:
  "refs_in s t \<Longrightarrow> ref_ok s (bj_reference n) \<Longrightarrow> refs_in s (promote_blocked_node n now t)"
  by (auto simp: promote_blocked_node_def drop_stale_blocked_def Let_def
      intro!: refs_push_lane refs_push_job split: candidate_ref.split option.split)

lemma refs_blocked_loop:
  "list_all (\<lambda>b. ref_ok s (bj_reference (the_rev b))) bs \<Longrightarrow> refs_in s t
   \<Longrightarrow> refs_in s (promote_blocked_loop now bs t)"
proof (induction bs arbitrary: t)
  case Nil
  then show ?case by (simp add: refs_in_def)
next
  case (Cons b bs)
  have "refs_in s (t\<lparr>blocked := b # bs\<rparr>)" using Cons.prems by (simp add: refs_in_def)
  with Cons show ?case by (simp add: refs_blocked_node)
qed

lemma drop_dead_front_all:
  "drop_dead_front u rs n = (rs', m) \<Longrightarrow> list_all P rs \<Longrightarrow> list_all P rs'"
  by (induction rs arbitrary: n) (auto split: if_splits)

lemma refs_promote_reservation:
  assumes "refs_in s t"
  shows "refs_in s (promote_reservation w now t)"
proof (cases "hm_get (reservations t) w")
  case (Some res)
  have ok: "reservation_refs_ok s res" using refs_in_reservation[OF assms Some] .
  obtain rs n where d: "drop_dead_front t (res_queue res) (res_stale res) = (rs, n)"
    by (cases "drop_dead_front t (res_queue res) (res_stale res)")
  have rs: "list_all (ref_ok s) rs"
    using drop_dead_front_all[OF d] ok by (simp add: reservation_refs_ok_def)
  show ?thesis
  proof (cases rs)
    case Nil
    then show ?thesis using assms Some d
      by (simp add: promote_reservation_def refs_in_def list_all_hm_remove)
  next
    case (Cons r rs')
    have "refs_in s (t\<lparr>reservations := hm_insert w (res\<lparr>res_queue := rs', res_stale := n\<rparr>)
        (reservations t)\<rparr>)"
      using assms ok rs Cons by (simp add: refs_in_def reservation_refs_ok_def list_all_hm_insert)
    then show ?thesis using Some d Cons rs
      by (auto simp: promote_reservation_def Let_def intro!: refs_push_lane refs_push_job
          split: candidate_ref.split)
  qed
qed (use assms in \<open>simp add: promote_reservation_def\<close>)

lemma refs_promote_all:
  assumes "ids_ok s" and "promote_all now s = Some t" and "refs_in s s"
  shows "refs_in s t"
proof -
  obtain u where u: "promote_aging now s = Some u"
    and t: "t = compact_lanes_if_needed (promote_reservations now (promote_blocked now
      (promote_delayed now u)))"
    using assms(2) by (auto simp: promote_all_def)
  have "refs_in s u" using refs_aging_loop[OF u[unfolded promote_aging_def] assms(3)] .
  then have 1: "refs_in s (promote_delayed now u)"
    using refs_delayed_loop[OF assms(1) quiet_promote_aging[OF u quiet_refl]]
    by (simp add: promote_delayed_def)
  then have 2: "refs_in s (promote_blocked now (promote_delayed now u))"
    unfolding promote_blocked_def by (intro refs_blocked_loop) (simp_all add: refs_in_def)
  have "refs_in s (fold (\<lambda>w t. promote_reservation w now t) ws v)" if "refs_in s v" for ws v
    using that by (induction ws arbitrary: v) (simp_all add: refs_promote_reservation)
  with 2 show ?thesis by (simp add: t promote_reservations_def refs_compact)
qed

subsection \<open>The arbitration loop\<close>

lemma refs_pop_lane: "pop_lane_key k l now t = (r, u) \<Longrightarrow> refs_in s t \<Longrightarrow> refs_in s u"
  by (auto simp: pop_lane_key_def bump_stale_def Let_def refs_push_lane
      split: option.splits if_splits list.splits)

lemma refs_pop_step:
  assumes "pop_step now t = (r, u)" and "refs_in s t"
  shows "refs_in s u"
proof (cases "candidates t")
  case (Cons k ks)
  have "refs_in s (t\<lparr>candidates := ks\<rparr>)" using assms(2) Cons by (simp add: refs_in_def)
  with assms(1) Cons refs_pop_lane show ?thesis
    by (auto simp: pop_step_def pop_job_key_def bump_stale_def Let_def
        split: candidate_ref.splits option.splits if_splits)
qed (use assms in \<open>simp add: pop_step_def\<close>)

lemma refs_pop: "pop_candidate now t = (r, u) \<Longrightarrow> refs_in s t \<Longrightarrow> refs_in s u"
proof (induction now t arbitrary: u rule: pop_candidate.induct)
  case (1 now t)
  obtain o1 t1 where step: "pop_step now t = (o1, t1)" by (cases "pop_step now t")
  then have "refs_in s t1" using refs_pop_step 1 by blast
  with 1 step show ?case by (cases o1) (auto simp: pop_candidate.simps[of now t])
qed

lemma refs_admission: "admission c now t = (v, u) \<Longrightarrow> refs_in s t \<Longrightarrow> refs_in s u"
  by (auto simp: admission_def admit_windows_def admit_global_def admit_class_global_def
      admit_scope_def admit_chat_def admit_class_chat_def Let_def
      split: if_splits option.splits prod.splits outbound_scope.splits)

lemma ref_ok_reference_of:
  assumes "ids_ok s" and "quiet s t" and "hm_has (jobs t) (c_job c)"
  shows "ref_ok s (reference_of c t)"
  using assms(3) ref_ok_job[OF assms(2,1)]
  by (auto simp: reference_of_def split: option.split)

lemma refs_reserve:
  assumes "ref_ok s (reference_of c t)" and "refs_in s t"
  shows "refs_in s (reserve_window c u w t)"
proof -
  let ?res = "case hm_get (reservations t) w of Some r \<Rightarrow> r
    | None \<Rightarrow> \<lparr>res_owner = None, res_until = u, res_queue = [], res_stale = 0\<rparr>"
  have "reservation_refs_ok s ?res"
    using refs_in_reservation[OF assms(2), of w]
    by (cases "hm_get (reservations t) w") (simp_all add: reservation_refs_ok_def)
  then have "refs_in s (t\<lparr>reservations := hm_insert w ?res (reservations t)\<rparr>)"
    and "refs_in s (t\<lparr>reservations := hm_insert w (?res\<lparr>res_until := u,
      res_owner := Some (reference_of c t)\<rparr>) (reservations t)\<rparr>)"
    using assms by (simp_all add: refs_in_def list_all_hm_insert reservation_refs_ok_def)
  then show ?thesis by (simp add: reserve_window_def Let_def)
qed

lemma refs_block:
  assumes "block_candidate c u p t = Some v" and "ref_ok s (reference_of c t)" and "refs_in s t"
  shows "refs_in s v"
  using assms by (auto simp: block_candidate_def Let_def refs_in_def split: option.splits)

lemma refs_push_candidate:
  assumes "ref_ok s (reference_of c t)" and "refs_in s t"
  shows "refs_in s (push_candidate c now t)"
  using assms
  by (auto simp: push_candidate_def reference_of_def intro: refs_push_lane refs_push_job split: option.splits)

lemma refs_park:
  assumes "ref_ok s (reference_of c t)" and "refs_in s t"
  shows "refs_in s (park_candidate c w now t)"
proof (cases "hm_get (reservations t) w")
  case (Some res)
  have "refs_in s (t\<lparr>reservations := hm_insert w (res\<lparr>res_queue := res_queue res @ [reference_of c t]\<rparr>)
      (reservations t)\<rparr>)"
    using assms refs_in_reservation[OF assms(2) Some]
    by (simp add: refs_in_def list_all_hm_insert reservation_refs_ok_def)
  then show ?thesis using Some
    by (cases "reference_of c t") (simp_all add: park_candidate_def Let_def)
qed (use assms refs_push_candidate in \<open>simp add: park_candidate_def\<close>)

lemma refs_rearm: "refs_in s t \<Longrightarrow> refs_in s (rearm_reservations c now t)"
proof -
  have w: "refs_in s (rearm_window w now u)" if "refs_in s u" for w u
  proof (cases "hm_get (reservations u) w")
    case (Some res)
    have "refs_in s (u\<lparr>reservations := hm_insert w (res\<lparr>res_until := x\<rparr>) (reservations u)\<rparr>)" for x
      using that refs_in_reservation[OF that Some]
      by (simp add: refs_in_def list_all_hm_insert reservation_refs_ok_def)
    then show ?thesis using Some that by (simp add: rearm_window_def split: list.split option.split)
  qed (use that in \<open>simp add: rearm_window_def\<close>)
  have "refs_in s (fold (\<lambda>w t. rearm_window w now t) ws u)" if "refs_in s u" for ws u
    using that by (induction ws arbitrary: u) (simp_all add: w)
  then show "refs_in s t \<Longrightarrow> ?thesis" by (simp add: rearm_reservations_def)
qed

lemma refs_release_previous:
  "refs_in s t \<Longrightarrow> refs_in s (release_previous_reservation_if_changed c w now t)"
  by (auto simp: release_previous_reservation_if_changed_def Let_def refs_release split: option.split)

lemma refs_rearm_owner: "refs_in s t \<Longrightarrow> refs_in s (rearm_reservation_owner w now t)"
proof (cases "hm_get (reservations t) w")
  case (Some res)
  assume r: "refs_in s t"
  from refs_in_reservation[OF r Some] r Some show ?thesis
    by (auto simp: rearm_reservation_owner_def reservation_refs_ok_def
        intro!: refs_push_lane refs_push_job split: option.split candidate_ref.split)
qed (simp add: rearm_reservation_owner_def)

lemma refs_rearm_reference:
  "ref_ok s r \<Longrightarrow> refs_in s t \<Longrightarrow> refs_in s (rearm_reference r now t)"
  by (auto simp: rearm_reference_def intro!: refs_push_lane refs_push_job split: candidate_ref.split)

lemma refs_rearm_all:
  assumes "refs_in s t"
  shows "refs_in s (rearm_blocked_and_parked now t)"
proof -
  have f: "refs_in s (fold (\<lambda>r t. rearm_reference r now t) rs u)"
    if "list_all (ref_ok s) rs" "refs_in s u" for rs u
    using that by (induction rs arbitrary: u) (simp_all add: refs_rearm_reference)
  let ?bs = "map (\<lambda>b. bj_reference (the_rev b)) (blocked t)"
  let ?t1 = "fold (\<lambda>r t. rearm_reference r now t) ?bs (t\<lparr>blocked := [], stale_blocked := 0\<rparr>)"
  have t1: "refs_in s ?t1" using assms by (intro f) (auto simp: refs_in_def list_all_iff)
  then have "refs_in s (fold (\<lambda>r t. rearm_reference r now t)
      (concat (map (\<lambda>p. res_queue (snd p)) (reservations ?t1))) (?t1\<lparr>reservations := []\<rparr>))"
    by (intro f) (auto simp: refs_in_def reservation_refs_ok_def list_all_iff)
  then show ?thesis by (simp add: rearm_blocked_and_parked_def Let_def fold_map comp_def)
qed

lemma refs_next_deadline:
  assumes "next_deadline now t = (w, u)" and "refs_in s t"
  shows "refs_in s u"
proof -
  have b: "list_all P bs'" if "drop_dead_blocked v bs n = (bs', m)" "list_all P bs" for v bs n bs' m P
    using that by (induction bs arbitrary: n) (auto split: if_splits)
  obtain ds sd bs sb where d: "drop_dead_delayed t (delayed t) (stale_delayed t) = (ds, sd)"
    "drop_dead_blocked t (blocked t) (stale_blocked t) = (bs, sb)"
    by (metis surj_pair)
  have a: "list_all P (dropWhile Q es)" if "list_all P es" for P Q and es :: "aging_event reverse list"
    using that by (induction es) auto
  show ?thesis using assms b[OF d(2)] a
    by (auto simp: next_deadline_def drop_stale_heads_def Let_def d refs_in_def)
qed

lemma refs_rebase_candidate:
  assumes "refs_in s (fst acc)" and "ref_ok s (ck_reference k)"
    and "list_all (\<lambda>k. ref_ok s (ck_reference k)) (snd acc)"
  shows "refs_in s (fst (rebase_candidate k acc))
    \<and> list_all (\<lambda>k. ref_ok s (ck_reference k)) (snd (rebase_candidate k acc))"
  using assms
  by (auto simp: rebase_candidate_def Let_def split: prod.split candidate_ref.splits option.split list.split)

lemma refs_rebase:
  assumes "refs_in s t"
  shows "refs_in s (rebase_sequences t)"
proof -
  have f: "refs_in s (fst (fold rebase_candidate ks acc))
      \<and> list_all (\<lambda>k. ref_ok s (ck_reference k)) (snd (fold rebase_candidate ks acc))"
    if "refs_in s (fst acc)" "list_all (\<lambda>k. ref_ok s (ck_reference k)) ks"
      "list_all (\<lambda>k. ref_ok s (ck_reference k)) (snd acc)" for ks acc
    using that by (induction ks arbitrary: acc) (simp_all add: refs_rebase_candidate)
  have "refs_in s (rebase_dense t)"
  proof -
    let ?u = "rebase_jobs (sort (map j_sequence (hm_values (jobs t)))) t"
    obtain v rebuilt where v: "fold rebase_candidate (candidates ?u) (?u, []) = (v, rebuilt)"
      by fastforce
    have "refs_in s ?u" using assms by (simp add: rebase_jobs_def Let_def)
    then have "refs_in s v \<and> list_all (\<lambda>k. ref_ok s (ck_reference k)) rebuilt"
      using f[of "(?u, [])" "candidates ?u"] v by (simp add: refs_in_def)
    with v show ?thesis by (simp add: rebase_dense_def Let_def refs_in_def)
  qed
  moreover have "refs_in s (rebase_shift mn t)" for mn
    using assms by (auto simp: rebase_shift_def Let_def refs_in_def list_all_iff)
  ultimately show ?thesis using assms by (simp add: rebase_sequences_def Let_def)
qed

lemma refs_take_sequence: "take_sequence t = (n, u) \<Longrightarrow> refs_in s t \<Longrightarrow> refs_in s u"
  by (auto simp: take_sequence_def Let_def refs_rebase)

end
