(* ===== verification/Scheduler_Invariant.thy ===== *)
theory Scheduler_Invariant
  imports Scheduler_Refs
begin

text \<open>
  The invariant of the scheduler: pending jobs and permits are disjoint and numbered below the
  counter, every job with a lane waits in that lane and nowhere else, a lane's queue is ordered,
  and every reference is right.  The candidate a turn pops is a pending job, the first of its
  lane if it has one.
\<close>

definition lane_entry_ok :: "scheduler_state \<Rightarrow> lane_key \<Rightarrow> nat \<times> job_id \<Rightarrow> bool" where
  "lane_entry_ok s l p \<longleftrightarrow> snd p < next_job_id s
     \<and> (\<forall>b. job_static s (snd p) = Some b \<longrightarrow> m_lane (fst b) = Some l \<and> snd (snd (snd b)) = Some (fst p))"

definition lanes_ok :: "scheduler_state \<Rightarrow> bool" where
  "lanes_ok s \<longleftrightarrow>
     (\<forall>l ln. hm_get (lanes s) l = Some ln \<longrightarrow>
        list_all (lane_entry_ok s l) (ln_pending ln) \<and> sorted_wrt (<) (ln_pending ln))
     \<and> (\<forall>j l. lane_of s j = Some l \<longrightarrow>
          (\<exists>ln. hm_get (lanes s) l = Some ln \<and> j \<in> snd ` set (ln_pending ln)))"

definition flights_ok :: "scheduler_state \<Rightarrow> bool" where
  "flights_ok s \<longleftrightarrow> hm_ok (in_flight s)
     \<and> (\<forall>j. hm_has (in_flight s) j \<longrightarrow> j < next_job_id s \<and> \<not> hm_has (jobs s) j)"

definition sched_ok :: "scheduler_state \<Rightarrow> bool" where
  "sched_ok s \<longleftrightarrow> hm_ok (jobs s) \<and> ids_ok s \<and> flights_ok s \<and> lanes_ok s \<and> refs_in s s"

lemma lane_of_has: "lane_of s j = Some l \<Longrightarrow> hm_has (jobs s) j"
  by (auto simp: lane_of_def job_static_def split: option.splits)

lemma quiet_entry_ok: "quiet s t \<Longrightarrow> lane_entry_ok t l p = lane_entry_ok s l p"
  by (simp add: lane_entry_ok_def quiet_def)

lemma quiet_lane_of: "quiet s t \<Longrightarrow> lane_of t j = lane_of s j"
  by (simp add: lane_of_def quiet_def)

lemma lane_kept_pending:
  "lane_kept js lo (Some ln') \<Longrightarrow> \<exists>ln. lo = Some ln \<and> set (ln_pending ln') \<subseteq> set (ln_pending ln)
     \<and> (sorted_wrt (<) (ln_pending ln) \<longrightarrow> sorted_wrt (<) (ln_pending ln'))"
  by (cases lo) (auto simp: lane_kept_def)

lemma lane_kept_live:
  assumes "lane_kept js (Some ln) lo'" and "p \<in> set (ln_pending ln)" and "hm_has js (snd p)"
  obtains ln' where "lo' = Some ln'" and "p \<in> set (ln_pending ln')"
proof -
  have p: "p \<in> set (live_pending js ln)" using assms(2,3) by simp
  show thesis
  proof (cases lo')
    case None
    with assms(1) have e: "live_pending js ln = []" by (simp add: lane_kept_def)
    from p show thesis unfolding e by simp
  next
    case (Some ln')
    with assms(1) have e: "live_pending js ln' = live_pending js ln" by (simp add: lane_kept_def)
    from p have "p \<in> set (live_pending js ln')" unfolding e .
    then have "p \<in> set (ln_pending ln')" by simp
    with Some show thesis by (rule that)
  qed
qed

lemma quiet_lanes_ok:
  assumes "quiet s t" and "lanes_ok s"
  shows "lanes_ok t"
proof -
  have kept: "lane_kept (jobs s) (hm_get (lanes s) l) (hm_get (lanes t) l)" for l
    using assms(1) by (simp add: quiet_def)
  have "list_all (lane_entry_ok t l) (ln_pending ln) \<and> sorted_wrt (<) (ln_pending ln)"
    if t: "hm_get (lanes t) l = Some ln" for l ln
  proof -
    obtain ln0 where "hm_get (lanes s) l = Some ln0" "set (ln_pending ln) \<subseteq> set (ln_pending ln0)"
      "sorted_wrt (<) (ln_pending ln0) \<longrightarrow> sorted_wrt (<) (ln_pending ln)"
      using lane_kept_pending kept[of l] unfolding t by blast
    then show ?thesis using assms(2) quiet_entry_ok[OF assms(1)]
      by (auto simp: lanes_ok_def list_all_iff)
  qed
  moreover have "\<exists>ln. hm_get (lanes t) l = Some ln \<and> j \<in> snd ` set (ln_pending ln)"
    if j: "lane_of t j = Some l" for j l
  proof -
    from j have j: "lane_of s j = Some l" by (simp add: quiet_lane_of[OF assms(1)])
    then obtain ln where lane: "hm_get (lanes s) l = Some ln" "j \<in> snd ` set (ln_pending ln)"
      using assms(2) unfolding lanes_ok_def by blast
    then obtain p where ln: "hm_get (lanes s) l = Some ln" "p \<in> set (ln_pending ln)" "snd p = j" by auto
    then obtain ln' where "hm_get (lanes t) l = Some ln'" "p \<in> set (ln_pending ln')"
      using kept[of l] lane_of_has[OF j] lane_kept_live by metis
    with ln show ?thesis by auto
  qed
  ultimately show ?thesis by (simp add: lanes_ok_def)
qed

lemma quiet_ids_ok: "quiet s t \<Longrightarrow> ids_ok t = ids_ok s"
proof -
  assume q: "quiet s t"
  then have "next_job_id t = next_job_id s" by (simp add: quiet_def)
  then show ?thesis unfolding ids_ok_def quiet_has[OF q] by simp
qed

lemma quiet_sched_ok:
  assumes "quiet s t" and "sched_ok s" and "refs_in s t"
  shows "sched_ok t"
proof -
  have same: "map fst (jobs t) = map fst (jobs s)" "in_flight t = in_flight s"
    "next_job_id t = next_job_id s" using assms(1) by (simp_all add: quiet_def)
  have "flights_ok t" using assms(2) unfolding flights_ok_def quiet_has[OF assms(1)] same
    by (simp add: sched_ok_def flights_ok_def)
  moreover have "hm_ok (jobs t)" using assms(2) same by (simp add: sched_ok_def)
  ultimately show ?thesis using assms
    using quiet_lanes_ok quiet_ids_ok[OF assms(1)] quiet_refs_in[OF assms(1)] by (simp add: sched_ok_def)
qed

subsection \<open>The popped candidate\<close>

definition cand_ok :: "scheduler_state \<Rightarrow> candidate \<Rightarrow> bool" where
  "cand_ok s c \<longleftrightarrow>
     (case hm_get (jobs s) (c_job c) of
        None \<Rightarrow> False
      | Some job \<Rightarrow> c_weight c = m_weight (j_meta job) \<and> c_scope c = m_scope (j_meta job)
          \<and> (case m_lane (j_meta job) of
               None \<Rightarrow> True
             | Some l \<Rightarrow>
                 (case hm_get (lanes s) l of
                    None \<Rightarrow> False
                  | Some ln \<Rightarrow> lane_has_capacity ln
                      \<and> (\<exists>n ps. ln_pending ln = (n, c_job c) # ps))))"

lemma pop_job_cand_ok:
  assumes "pop_job_key k j t = (PopCandidate c, u)" and "ref_ok s (RefJob j)" and "quiet s t"
  shows "cand_ok u c"
proof -
  obtain job where job: "hm_get (jobs t) j = Some job" "c_job c = j"
    "c_weight c = m_weight (j_meta job)" "c_scope c = m_scope (j_meta job)"
    "u = t\<lparr>jobs := hm_adjust j (\<lambda>b. b\<lparr>j_in_candidate_heap := False\<rparr>) (jobs t)\<rparr>"
    using assms(1) by (auto simp: pop_job_key_def split: option.splits if_splits)
  have "m_lane (j_meta job) = None"
    using assms(2) quiet_lane_of[OF assms(3), of j] job(1)
    by (simp add: ref_ok_def lane_of_def job_static_def static_def)
  with job show ?thesis by (simp add: cand_ok_def)
qed

lemma pop_lane_cand_ok:
  assumes "pop_lane_key k l now t = (PopCandidate c, u)" and "lanes_ok s" and "quiet s t"
  shows "cand_ok u c"
proof -
  obtain ln0 where lane: "hm_get (lanes t) l = Some ln0"
    using assms(1) by (auto simp: pop_lane_key_def split: option.splits)
  let ?ln1 = "ln0\<lparr>ln_in_candidate_heap := False\<rparr>"
  let ?d = "drain_lane (jobs t) ?ln1"
  from assms(1) obtain n job ps where d: "ln_pending ?d = (n, c_job c) # ps" "lane_has_capacity ?ln1"
    "hm_get (jobs t) (c_job c) = Some job" "c_weight c = m_weight (j_meta job)"
    "c_scope c = m_scope (j_meta job)"
    and u: "u = t\<lparr>lanes := hm_insert l ?d (hm_insert l ?ln1 (lanes t))\<rparr>"
    by (auto simp: pop_lane_key_def lane Let_def split: if_splits option.splits list.splits)
  have "lanes_ok t" using quiet_lanes_ok assms(2,3) by blast
  moreover have "set (ln_pending ?d) \<subseteq> set (ln_pending ln0)"
    by (auto simp: drain_lane_pending dest: set_dropWhileD)
  ultimately have "lane_entry_ok t l (n, c_job c)"
    using lane d(1) by (auto simp: lanes_ok_def list_all_iff)
  then have "m_lane (j_meta job) = Some l"
    using d(3) by (auto simp: lane_entry_ok_def job_static_def static_def)
  moreover have "lane_has_capacity ?d" using d(2) by (simp add: lane_has_capacity_def)
  ultimately show ?thesis using d u by (simp add: cand_ok_def)
qed

lemma pop_cand_ok:
  assumes "pop_candidate now t = (Some c, u)" and "sched_ok s" and "quiet s t" and "refs_in s t"
  shows "cand_ok u c"
  using assms
proof (induction now t arbitrary: u rule: pop_candidate.induct)
  case (1 now t)
  obtain o1 t1 where step: "pop_step now t = (o1, t1)" by (cases "pop_step now t")
  show ?case
  proof (cases o1)
    case PopEmpty
    with 1 step show ?thesis by (simp add: pop_candidate.simps)
  next
    case PopAgain
    with 1 step quiet_pop_step[OF step "1.prems"(3)] refs_pop_step[OF step "1.prems"(4)]
    show ?thesis by (auto simp: pop_candidate.simps[of now t])
  next
    case (PopCandidate c1)
    with "1.prems" step have [simp]: "c1 = c" "t1 = u" by (auto simp: pop_candidate.simps[of now t])
    obtain k ks where k: "candidates t = k # ks"
      using step PopCandidate by (cases "candidates t") (auto simp: pop_step_def)
    have q: "quiet s (t\<lparr>candidates := ks\<rparr>)" using "1.prems"(3) by simp
    show ?thesis
    proof (cases "ck_reference k")
      case (RefJob j)
      then show ?thesis
        using step PopCandidate k q refs_in_pop(2)[OF "1.prems"(4) k]
        by (auto simp: pop_step_def Let_def intro: pop_job_cand_ok[where s = s])
    next
      case (RefLane l)
      then show ?thesis using step PopCandidate k q "1.prems"(2)
        by (auto simp: pop_step_def Let_def sched_ok_def intro: pop_lane_cand_ok[where s = s])
    qed
  qed
qed

lemma cand_ok_cong: "jobs u = jobs t \<Longrightarrow> lanes u = lanes t \<Longrightarrow> cand_ok u c = cand_ok t c"
  unfolding cand_ok_def by presburger

lemma admission_cand_ok: "admission c now t = (v, u) \<Longrightarrow> cand_ok u c = cand_ok t c"
  by (rule cand_ok_cong) (simp_all add: admission_frame)

subsection \<open>The grant\<close>

text \<open>What a grant changes: the job is no longer pending and its permit is in flight.\<close>

definition grants :: "job_id \<Rightarrow> scheduler_state \<Rightarrow> scheduler_state \<Rightarrow> bool" where
  "grants j s t \<longleftrightarrow>
     (\<exists>b. job_static s j = Some b
        \<and> (\<forall>i. job_static t i = (if i = j then None else job_static s i))
        \<and> in_flight t = hm_insert j (in_flight_of (fst b)) (in_flight s))
     \<and> next_job_id t = next_job_id s \<and> aging t = aging s \<and> global_limits t = global_limits s
     \<and> chat_limits t = chat_limits s \<and> class_limits t = class_limits s \<and> penalties t = penalties s"

text \<open>The state between the removal of the job and the re-arming of a bounded lane.\<close>

definition grant_core :: "candidate \<Rightarrow> job_rec \<Rightarrow> instant \<Rightarrow> scheduler_state \<Rightarrow> scheduler_state" where
  "grant_core c job now s =
     (let j = c_job c; meta = j_meta job;
          s1 = remove_coalesce_entry j (j_coalesce_key job) (s\<lparr>jobs := hm_remove j (jobs s)\<rparr>);
          s3 = consume_windows now j meta (the (grant_in_lane j (m_lane meta) s1))
      in s3\<lparr>in_flight := hm_insert j (in_flight_of meta) (in_flight s3)\<rparr>)"

lemma remove_coalesce_frame [simp]:
  "jobs (remove_coalesce_entry j k s) = jobs s" "lanes (remove_coalesce_entry j k s) = lanes s"
  "in_flight (remove_coalesce_entry j k s) = in_flight s"
  "next_job_id (remove_coalesce_entry j k s) = next_job_id s"
  "aging (remove_coalesce_entry j k s) = aging s" "penalties (remove_coalesce_entry j k s) = penalties s"
  "global_limits (remove_coalesce_entry j k s) = global_limits s"
  "chat_limits (remove_coalesce_entry j k s) = chat_limits s"
  "class_limits (remove_coalesce_entry j k s) = class_limits s"
  "global_windows (remove_coalesce_entry j k s) = global_windows s"
  "chat_window_sets (remove_coalesce_entry j k s) = chat_window_sets s"
  "class_global_windows (remove_coalesce_entry j k s) = class_global_windows s"
  "class_chat_window_sets (remove_coalesce_entry j k s) = class_chat_window_sets s"
  "refs_in r (remove_coalesce_entry j k s) = refs_in r s"
  by (simp_all add: remove_coalesce_entry_def split: option.split)

lemma consume_windows_frame [simp]:
  "jobs (consume_windows now j m s) = jobs s" "lanes (consume_windows now j m s) = lanes s"
  "in_flight (consume_windows now j m s) = in_flight s"
  "next_job_id (consume_windows now j m s) = next_job_id s"
  "aging (consume_windows now j m s) = aging s" "penalties (consume_windows now j m s) = penalties s"
  "global_limits (consume_windows now j m s) = global_limits s"
  "chat_limits (consume_windows now j m s) = chat_limits s"
  "class_limits (consume_windows now j m s) = class_limits s"
  "refs_in r (consume_windows now j m s) = refs_in r s"
  by (simp_all add: consume_windows_def Let_def split: outbound_scope.split)

lemma grant_lane_defined:
  assumes "cand_ok s c" and "hm_get (jobs s) (c_job c) = Some job" and "lanes u = lanes s"
  shows "grant_in_lane (c_job c) (m_lane (j_meta job)) u \<noteq> None"
  using assms
  by (auto simp: grant_in_lane_def take_lane_head_def cand_ok_def split: option.splits)

lemma grant_core_eq:
  assumes "cand_ok s c" and "hm_get (jobs s) (c_job c) = Some job"
  shows "grant c now s = Some (rearm_bounded_lane (m_lane (j_meta job)) now (grant_core c job now s))"
proof -
  have "grant_in_lane (c_job c) (m_lane (j_meta job)) (remove_coalesce_entry (c_job c)
      (j_coalesce_key job) (s\<lparr>jobs := hm_remove (c_job c) (jobs s)\<rparr>)) \<noteq> None"
    by (rule grant_lane_defined[OF assms]) simp
  then show ?thesis using assms(2) by (auto simp: grant_def grant_core_def Let_def)
qed

lemma grant_in_lane_frame:
  assumes "grant_in_lane j lane s = Some t"
  shows "jobs t = jobs s" "in_flight t = in_flight s" "next_job_id t = next_job_id s"
    "aging t = aging s" "penalties t = penalties s" "global_limits t = global_limits s"
    "chat_limits t = chat_limits s" "class_limits t = class_limits s"
    "global_windows t = global_windows s" "chat_window_sets t = chat_window_sets s"
    "class_global_windows t = class_global_windows s"
    "class_chat_window_sets t = class_chat_window_sets s" "refs_in r t = refs_in r s"
  using assms by (auto simp: grant_in_lane_def split: option.splits)

lemma grant_core_fields:
  assumes "cand_ok s c" and "hm_get (jobs s) (c_job c) = Some job"
    and t: "t = grant_core c job now s"
  shows "jobs t = hm_remove (c_job c) (jobs s)"
    and "in_flight t = hm_insert (c_job c) (in_flight_of (j_meta job)) (in_flight s)"
    and "next_job_id t = next_job_id s" "aging t = aging s" "penalties t = penalties s"
    "global_limits t = global_limits s" "chat_limits t = chat_limits s" "class_limits t = class_limits s"
    and "refs_in r t = refs_in r s"
    and "lanes t = (case m_lane (j_meta job) of None \<Rightarrow> lanes s
      | Some l \<Rightarrow> hm_insert l (the (take_lane_head (c_job c) (the (hm_get (lanes s) l)))) (lanes s))"
proof -
  let ?s1 = "remove_coalesce_entry (c_job c) (j_coalesce_key job) (s\<lparr>jobs := hm_remove (c_job c) (jobs s)\<rparr>)"
  obtain u where u: "grant_in_lane (c_job c) (m_lane (j_meta job)) ?s1 = Some u"
    using grant_lane_defined[OF assms(1,2), of ?s1] by auto
  note f = grant_in_lane_frame[OF u]
  show "jobs t = hm_remove (c_job c) (jobs s)"
    "in_flight t = hm_insert (c_job c) (in_flight_of (j_meta job)) (in_flight s)"
    "next_job_id t = next_job_id s" "aging t = aging s" "penalties t = penalties s"
    "global_limits t = global_limits s" "chat_limits t = chat_limits s" "class_limits t = class_limits s"
    "refs_in r t = refs_in r s"
    by (simp_all add: t grant_core_def Let_def u f)
  show "lanes t = (case m_lane (j_meta job) of None \<Rightarrow> lanes s
      | Some l \<Rightarrow> hm_insert l (the (take_lane_head (c_job c) (the (hm_get (lanes s) l)))) (lanes s))"
    using u by (auto simp: t grant_core_def Let_def grant_in_lane_def split: option.splits)
qed

lemma grant_core_grants:
  assumes "cand_ok s c" and "hm_get (jobs s) (c_job c) = Some job"
  shows "grants (c_job c) s (grant_core c job now s)"
  using grant_core_fields[OF assms refl] assms(2)
  by (auto simp: grants_def job_static_def static_def)

lemma quiet_rearm_bounded: "quiet s t \<Longrightarrow> quiet s (rearm_bounded_lane l now t)"
  by (auto simp: rearm_bounded_lane_def intro!: quiet_push_lane split: option.split outbound_lane_mode.split)

lemma refs_rearm_bounded: "refs_in s t \<Longrightarrow> refs_in s (rearm_bounded_lane l now t)"
  by (auto simp: rearm_bounded_lane_def intro!: refs_push_lane split: option.split outbound_lane_mode.split)

lemma quiet_static: "quiet s t \<Longrightarrow> job_static t = job_static s"
  by (intro ext) (simp add: quiet_def)

lemma grants_quiet: "grants j s t \<Longrightarrow> quiet t u \<Longrightarrow> grants j s u"
  unfolding grants_def quiet_static by (simp add: quiet_def)

lemma quiet_grants: "quiet s t \<Longrightarrow> grants j t u \<Longrightarrow> grants j s u"
  unfolding grants_def quiet_static by (simp add: quiet_def)

lemma grants_static: "grants j s t \<Longrightarrow> job_static t i = (if i = j then None else job_static s i)"
  by (auto simp: grants_def)

lemma grants_next: "grants j s t \<Longrightarrow> next_job_id t = next_job_id s"
  by (simp add: grants_def)

lemma lane_of_removed: "grants j s t \<Longrightarrow> lane_of t i = (if i = j then None else lane_of s i)"
  by (auto simp: grants_def lane_of_def)

lemma grants_has: "grants j s t \<Longrightarrow> hm_has (jobs t) i \<longleftrightarrow> i \<noteq> j \<and> hm_has (jobs s) i"
  unfolding job_static_has grants_def by (elim conjE exE) (simp split: if_splits)

lemma refs_grants:
  assumes "grants j s t"
  shows "ref_ok s r \<Longrightarrow> ref_ok t r"
  using assms lane_of_removed[OF assms] by (auto simp: ref_ok_def grants_def split: candidate_ref.split)

lemma refs_in_mono:
  assumes "\<And>r. ref_ok s r \<Longrightarrow> ref_ok t r" and "refs_in s u"
  shows "refs_in t u"
proof -
  have "reservation_refs_ok t r" if "reservation_refs_ok s r" for r
    using that assms(1) by (auto simp: reservation_refs_ok_def list_all_iff split: option.splits)
  with assms show ?thesis by (auto simp: refs_in_def list_all_iff)
qed

lemma take_lane_head_Cons:
  "ln_pending ln = p # ps \<Longrightarrow> \<exists>ln'. take_lane_head j ln = Some ln' \<and> ln_pending ln' = ps
     \<and> ln_mode ln' = ln_mode ln \<and> ln_in_flight_count ln' = ln_in_flight_count ln + 1
     \<and> ln_in_flight ln' = (case ln_mode ln of BoundedOrderedStart _ \<Rightarrow> ln_in_flight ln | _ \<Rightarrow> Some j)"
  by (simp add: take_lane_head_def)

lemma grants_entry_ok: "grants j s t \<Longrightarrow> lane_entry_ok s l p \<Longrightarrow> lane_entry_ok t l p"
  by (cases "snd p = j") (simp_all add: lane_entry_ok_def grants_static grants_next)

lemma grant_core_lane:
  assumes "cand_ok s c" and "hm_get (jobs s) (c_job c) = Some job" and "m_lane (j_meta job) = Some l"
  obtains ln n ps ln' where "hm_get (lanes s) l = Some ln" and "ln_pending ln = (n, c_job c) # ps"
    and "lane_has_capacity ln"
    and "take_lane_head (c_job c) ln = Some ln'" and "ln_pending ln' = ps"
    and "lanes (grant_core c job now s) = hm_insert l ln' (lanes s)"
proof -
  obtain ln n ps where ln: "hm_get (lanes s) l = Some ln" "ln_pending ln = (n, c_job c) # ps"
    "lane_has_capacity ln"
    using assms by (auto simp: cand_ok_def split: option.splits)
  then obtain ln' where "take_lane_head (c_job c) ln = Some ln'" "ln_pending ln' = ps"
    using take_lane_head_Cons by blast
  with that ln grant_core_fields(10)[OF assms(1,2) refl, of now] assms(3) show thesis by simp
qed

lemma grant_core_lanes_ok:
  assumes "cand_ok s c" and "hm_get (jobs s) (c_job c) = Some job" and "lanes_ok s"
    and t: "t = grant_core c job now s"
  shows "lanes_ok t"
proof -
  note g = grant_core_grants[OF assms(1,2), of now, folded t]
  have lane: "hm_get (lanes t) l = hm_get (lanes s) l \<or> (\<exists>ln ln' n. hm_get (lanes s) l = Some ln
      \<and> hm_get (lanes t) l = Some ln' \<and> ln_pending ln = (n, c_job c) # ln_pending ln')" for l
  proof (cases "m_lane (j_meta job)")
    case None
    then show ?thesis using grant_core_fields(10)[OF assms(1,2) t] by simp
  next
    case (Some l')
    show ?thesis by (rule grant_core_lane[OF assms(1,2) Some, of now]) (cases "l = l'"; simp add: t)
  qed
  have pending: "\<exists>ln0. hm_get (lanes s) l = Some ln0 \<and> (ln_pending ln = ln_pending ln0
      \<or> (\<exists>n. ln_pending ln0 = (n, c_job c) # ln_pending ln))"
    if "hm_get (lanes t) l = Some ln" for l ln
    using that lane[of l] by (metis option.inject)
  have remains: "\<exists>ln. hm_get (lanes t) l = Some ln \<and> (ln_pending ln = ln_pending ln0
      \<or> (\<exists>n. ln_pending ln0 = (n, c_job c) # ln_pending ln))"
    if "hm_get (lanes s) l = Some ln0" for l ln0
    using that lane[of l] by (metis option.inject)
  have "list_all (lane_entry_ok t l) (ln_pending ln) \<and> sorted_wrt (<) (ln_pending ln)"
    if ln: "hm_get (lanes t) l = Some ln" for l ln
  proof -
    obtain ln0 where ln0: "hm_get (lanes s) l = Some ln0" "ln_pending ln = ln_pending ln0
      \<or> (\<exists>n. ln_pending ln0 = (n, c_job c) # ln_pending ln)" using pending[OF ln] by blast
    have "list_all (lane_entry_ok s l) (ln_pending ln0)" "sorted_wrt (<) (ln_pending ln0)"
      using assms(3) ln0(1) unfolding lanes_ok_def by blast+
    with ln0(2) have "list_all (lane_entry_ok s l) (ln_pending ln)" "sorted_wrt (<) (ln_pending ln)" by auto
    with grants_entry_ok[OF g] show ?thesis by (auto simp: list_all_iff)
  qed
  moreover have "\<exists>ln. hm_get (lanes t) l = Some ln \<and> i \<in> snd ` set (ln_pending ln)"
    if i: "lane_of t i = Some l" for i l
  proof -
    from i have si: "lane_of s i = Some l" and ij: "i \<noteq> c_job c"
      using lane_of_removed[OF g, of i] by (auto split: if_splits)
    obtain ln0 where "hm_get (lanes s) l = Some ln0" "i \<in> snd ` set (ln_pending ln0)"
      using assms(3) si unfolding lanes_ok_def by blast
    with remains[of l ln0] ij show ?thesis by (auto simp: rev_image_eqI)
  qed
  ultimately show ?thesis unfolding lanes_ok_def by blast
qed

lemma grant_core_ok:
  assumes "cand_ok s c" and "hm_get (jobs s) (c_job c) = Some job" and "sched_ok s"
    and t: "t = grant_core c job now s"
  shows "sched_ok t"
proof -
  note f = grant_core_fields[OF assms(1,2) t]
  note g = grant_core_grants[OF assms(1,2), of now, folded t]
  note has = grants_has[OF g]
  have "lanes_ok t" using grant_core_lanes_ok[OF assms(1,2) _ t] assms(3) by (simp add: sched_ok_def)
  moreover have "hm_ok (jobs t)" using assms(3) f(1) by (simp add: sched_ok_def)
  moreover have "ids_ok t" using assms(3) unfolding ids_ok_def has f(3) sched_ok_def by blast
  moreover have "flights_ok t"
  proof -
    have "c_job c < next_job_id s" using assms(2,3) by (auto simp: sched_ok_def ids_ok_def)
    moreover have "hm_has (in_flight t) i \<longleftrightarrow> i = c_job c \<or> hm_has (in_flight s) i" for i
      by (simp add: f(2))
    moreover have "hm_ok (in_flight t)" using assms(3) by (simp add: f(2) sched_ok_def flights_ok_def)
    ultimately show ?thesis using assms(3) unfolding flights_ok_def has f(3) sched_ok_def by metis
  qed
  moreover have "refs_in t t"
    using assms(3) f(9)[of s] refs_in_mono[OF refs_grants[OF g]] by (simp add: sched_ok_def)
  ultimately show ?thesis by (simp add: sched_ok_def)
qed

lemma grant_spec:
  assumes "cand_ok s c" and "sched_ok s"
  obtains t where "grant c now s = Some t" and "sched_ok t" and "grants (c_job c) s t"
proof -
  obtain job where job: "hm_get (jobs s) (c_job c) = Some job"
    using assms(1) by (auto simp: cand_ok_def split: option.splits)
  let ?u = "grant_core c job now s"
  let ?t = "rearm_bounded_lane (m_lane (j_meta job)) now ?u"
  have ok: "sched_ok ?u" by (rule grant_core_ok[OF assms(1) job assms(2) refl])
  have q: "quiet ?u ?t" by (rule quiet_rearm_bounded) simp
  have "sched_ok ?t"
    using ok by (intro quiet_sched_ok[OF q ok] refs_rearm_bounded) (simp add: sched_ok_def)
  moreover have "grants (c_job c) s ?t" by (rule grants_quiet[OF grant_core_grants[OF assms(1) job] q])
  ultimately show thesis using that grant_core_eq[OF assms(1) job] by blast
qed

end
