(* ===== verification/Scheduler_Windows.thy ===== *)
theory Scheduler_Windows
  imports Scheduler_Frame
begin

text \<open>
  The rate windows are touched by admission, grants, refunds, pruning and the limit updates only:
  every other operation leaves \<open>wins\<close>, the four families of window sets and the limits they
  are built from, as it was.
\<close>

named_theorems wins_simps "operations that leave the rate windows alone"

definition wins where
  "wins s = (global_windows s, class_global_windows s, chat_window_sets s, class_chat_window_sets s,
             chat_limits s, class_limits s)"

lemma wins_update [simp]:
  "wins (s\<lparr>jobs := js\<rparr>) = wins s" "wins (s\<lparr>candidates := c\<rparr>) = wins s"
  "wins (s\<lparr>blocked := b\<rparr>) = wins s" "wins (s\<lparr>aging_events := a\<rparr>) = wins s"
  "wins (s\<lparr>reservations := r\<rparr>) = wins s" "wins (s\<lparr>delayed := d\<rparr>) = wins s"
  "wins (s\<lparr>lanes := l\<rparr>) = wins s" "wins (s\<lparr>coalesce := co\<rparr>) = wins s"
  "wins (s\<lparr>penalties := p\<rparr>) = wins s" "wins (s\<lparr>in_flight := f\<rparr>) = wins s"
  "wins (s\<lparr>stale_candidates := n\<rparr>) = wins s" "wins (s\<lparr>stale_blocked := n\<rparr>) = wins s"
  "wins (s\<lparr>stale_delayed := n\<rparr>) = wins s" "wins (s\<lparr>next_sequence := n\<rparr>) = wins s"
  "wins (s\<lparr>next_job_id := n\<rparr>) = wins s"
  by (simp_all add: wins_def)

lemma wins_schedule_aging [simp]: "wins (schedule_aging r e b t s) = wins s"
  by (simp add: schedule_aging_def Let_def)

lemma wins_push_job [simp]: "wins (push_job_candidate j now s) = wins s"
  by (simp add: push_job_candidate_def Let_def split: option.split)

lemma wins_push_lane [simp]: "wins (push_lane_head_candidate l now s) = wins s"
  by (cases rule: push_lane_head_cases[of l now s]) simp_all

lemma wins_push_reference [simp]: "wins (push_reference r now s) = wins s"
  by (cases r) simp_all

lemma wins_unpark [simp]: "wins (unpark w r s) = wins s"
  by (cases r) (simp_all add: unpark_def)

lemma wins_fold: "(\<And>x u. wins (f x u) = wins u) \<Longrightarrow> wins (fold f xs s) = wins s"
  by (induction xs arbitrary: s) simp_all

lemma wins_release [simp]: "wins (release_reservation w r now s) = wins s"
  by (simp add: release_reservation_def wins_fold split: option.split)

lemma wins_compact [simp]:
  "wins (compact_delayed_if_needed s) = wins s" "wins (compact_candidate_heap_if_needed s) = wins s"
  "wins (compact_blocked_if_needed s) = wins s" "wins (compact_lanes_if_needed s) = wins s"
  "wins (compact_reservations_if_needed s) = wins s"
  by (simp_all add: compact_delayed_if_needed_def compact_candidate_heap_if_needed_def
      compact_blocked_if_needed_def compact_lanes_if_needed_def compact_reservations_if_needed_def)

lemma wins_aging_event [simp]: "wins (promote_aging_event r now s) = wins s"
  by (simp add: promote_aging_event_def Let_def split: candidate_ref.split option.split list.split)

lemma wins_aging_loop: "promote_aging_loop n now s = Some t \<Longrightarrow> wins t = wins s"
  by (induction n arbitrary: s) (auto split: list.splits if_splits)

lemma wins_delayed_job [simp]: "wins (promote_delayed_job j now s) = wins s"
  by (simp add: promote_delayed_job_def Let_def split: option.split)

lemma wins_delayed_loop [simp]: "wins (promote_delayed_loop now ds s) = wins s"
  by (induction ds arbitrary: s) simp_all

lemma wins_blocked_node [simp]: "wins (promote_blocked_node b now s) = wins s"
  by (simp add: promote_blocked_node_def drop_stale_blocked_def Let_def
      split: candidate_ref.split option.split)

lemma wins_blocked_loop [simp]: "wins (promote_blocked_loop now bs s) = wins s"
  by (induction bs arbitrary: s) simp_all

lemma wins_promote_reservation [simp]: "wins (promote_reservation w now s) = wins s"
  by (simp add: promote_reservation_def Let_def
      split: option.split prod.split list.split candidate_ref.split)

lemma wins_promote_all: "promote_all now s = Some t \<Longrightarrow> wins t = wins s"
  unfolding promote_all_def promote_aging_def promote_delayed_def promote_blocked_def
    promote_reservations_def
  by (auto simp: wins_fold simp del: promote_aging_loop.simps dest!: wins_aging_loop)

lemma wins_pop_lane: "pop_lane_key k l now s = (r, t) \<Longrightarrow> wins t = wins s"
  by (auto simp: pop_lane_key_def bump_stale_def Let_def split: option.splits if_splits list.splits)

lemma wins_pop_step: "pop_step now s = (r, t) \<Longrightarrow> wins t = wins s"
  by (auto simp: pop_step_def pop_job_key_def bump_stale_def Let_def
      split: list.splits candidate_ref.splits option.splits if_splits dest!: wins_pop_lane)

lemma wins_pop: "pop_candidate now s = (r, t) \<Longrightarrow> wins t = wins s"
proof (induction now s rule: pop_candidate.induct)
  case (1 now s)
  obtain o1 s1 where step: "pop_step now s = (o1, s1)" by (cases "pop_step now s")
  with 1 wins_pop_step[OF step] show ?case by (cases o1) (auto simp: pop_candidate.simps[of now s])
qed

lemma wins_release_previous [simp]: "wins (release_previous_reservation_if_changed c w now s) = wins s"
  by (simp add: release_previous_reservation_if_changed_def Let_def split: option.split)

lemma wins_reserve [simp]: "wins (reserve_window c u w s) = wins s"
  by (simp add: reserve_window_def Let_def)

lemma wins_block: "block_candidate c u p s = Some t \<Longrightarrow> wins t = wins s"
  by (auto simp: block_candidate_def Let_def split: option.splits)

lemma wins_push_candidate [simp]: "wins (push_candidate c now s) = wins s"
  by (simp add: push_candidate_def split: option.split)

lemma wins_park [simp]: "wins (park_candidate c w now s) = wins s"
  by (simp add: park_candidate_def Let_def split: option.split candidate_ref.split)

lemma wins_rearm [simp]: "wins (rearm_reservations c now s) = wins s"
proof -
  have "wins (rearm_window w now u) = wins u" for w u
    by (simp add: rearm_window_def split: option.split list.split)
  then show ?thesis unfolding rearm_reservations_def by (rule wins_fold)
qed

lemma wins_rearm_bounded [simp]: "wins (rearm_bounded_lane l now s) = wins s"
  by (simp add: rearm_bounded_lane_def split: option.split outbound_lane_mode.split)

lemma wins_rearm_owner [simp]: "wins (rearm_reservation_owner w now s) = wins s"
  by (simp add: rearm_reservation_owner_def split: option.split candidate_ref.split)

lemma wins_rearm_reference [simp]: "wins (rearm_reference r now s) = wins s"
  by (simp add: rearm_reference_def split: candidate_ref.split)

lemma wins_rearm_all [simp]: "wins (rearm_blocked_and_parked now s) = wins s"
  by (simp add: rearm_blocked_and_parked_def Let_def wins_fold)

lemma wins_remove_coalesce [simp]: "wins (remove_coalesce_entry j k s) = wins s"
  by (simp add: remove_coalesce_entry_def split: option.split)

lemma wins_forget [simp]: "wins (forget_in_lane l now s) = wins s"
  by (simp add: forget_in_lane_def Let_def split: option.split)

lemma wins_remove_waiting [simp]: "wins (remove_waiting j now s) = wins s"
  by (simp add: remove_waiting_def Let_def split: option.split)

lemma wins_cancel [simp]: "wins (cancel j now s) = wins s"
  by (simp add: cancel_def)

lemma wins_rebase_candidate: "wins (fst (rebase_candidate k acc)) = wins (fst acc)"
  by (cases acc) (simp add: rebase_candidate_def Let_def split: candidate_ref.split option.split list.split)

lemma wins_rebase_fold: "wins (fst (fold rebase_candidate ks acc)) = wins (fst acc)"
  by (induction ks arbitrary: acc) (simp_all add: wins_rebase_candidate)

lemma wins_rebase [simp]: "wins (rebase_sequences s) = wins s"
proof -
  let ?u = "rebase_jobs (sort (map j_sequence (hm_values (jobs s)))) s"
  obtain v rebuilt where v: "fold rebase_candidate (candidates ?u) (?u, []) = (v, rebuilt)"
    by fastforce
  have "wins ?u = wins s" by (simp add: rebase_jobs_def Let_def)
  with wins_rebase_fold[of "candidates ?u" "(?u, [])"] v have "wins v = wins s" by simp
  with v have "wins (rebase_dense s) = wins s" by (simp add: rebase_dense_def Let_def)
  then show ?thesis by (simp add: rebase_sequences_def rebase_shift_def Let_def)
qed

end
