(* ===== verification/Scheduler_Arbitration.thy ===== *)
theory Scheduler_Arbitration
  imports Scheduler_Invariant Scheduler_Windows
begin

text \<open>
  What a whole pass does.  Every turn of the loop either keeps the pending jobs or grants one, never
  panics, and a grant has passed the penalties and every window that applies to it.
\<close>

subsection \<open>What admission checks\<close>

lemma penalty_until_ge: "until \<le> penalty_until k now s until"
  by (simp add: penalty_until_def)

lemma penalty_until_active: "penalty_active k now s \<Longrightarrow> now < penalty_until k now s until"
  by (auto simp: penalty_until_def penalty_active_def split: option.splits)

lemma check_windows_ge: "check_windows now n w ws acc = (Some acc', ws') \<Longrightarrow> fst acc \<le> fst acc'"
  by (auto simp: check_windows_def Let_def split: prod.splits if_splits option.splits)

lemma rw_can_consume_prune:
  assumes "rw_ok r"
  shows "fst (rw_can_consume now n (rw_prune now r)) = fst (rw_can_consume now n r)"
  using assms by (simp add: rw_can_consume_iff rw_history_prune_filter conj_commute)

lemma ws_can_consume_pruned:
  assumes "ws_ok ws"
  shows "fst (ws_can_consume now n (snd (ws_can_consume now n ws))) = fst (ws_can_consume now n ws)"
proof -
  have "list_all2 (\<lambda>r r'. fst (rw_can_consume now n r') = fst (rw_can_consume now n r)) ws
      (snd (ws_can_consume now n ws))"
    using ws_can_consume_rel[of now ws n] assms
    by (auto simp: list_all2_conv_all_nth ws_ok_def list_all_length rw_can_consume_prune)
  then show ?thesis
    by (auto simp: ws_can_consume_iff list_all2_conv_all_nth all_set_conv_all_nth)
qed

lemma check_windows_pass:
  assumes "check_windows now n w ws acc = (Some acc', ws')" and "fst acc' \<le> now" and "ws_ok ws"
  shows "fst (ws_can_consume now n ws) \<and> ws' = map (rw_prune now) ws \<and> acc' = acc"
proof -
  obtain ok ws1 where c: "ws_can_consume now n ws = (ok, ws1)" by (cases "ws_can_consume now n ws")
  show ?thesis
  proof (cases ok)
    case True
    with assms c ws_can_consume_True show ?thesis by (auto simp: check_windows_def)
  next
    case False
    with assms(1) c obtain t where t: "ws_earliest_for now n ws1 = Some t" "ws' = ws1"
      "fst acc' = max (fst acc) t"
      by (auto simp: check_windows_def split: option.splits)
    have ok1: "ws_ok ws1" using ws_ok_can_consume[OF assms(3), of now n] c by simp
    have "fst (ws_can_consume (max now t) n ws1)"
      using set_gate.ready_admits[OF ok1 t(1)] by simp
    moreover have "t \<le> now" using t(3) assms(2) by simp
    ultimately have "fst (ws_can_consume now n ws1)" by simp
    then have "fst (ws_can_consume now n ws)"
      using c ws_can_consume_pruned[OF assms(3), of now n] by simp
    with c False show ?thesis by simp
  qed
qed

text \<open>The window sets a request passes through.\<close>

definition request_windows :: "outbound_meta \<Rightarrow> scheduler_state \<Rightarrow> window_set list" where
  "request_windows meta s =
     global_windows s
     # (case hm_get (class_global_windows s) (m_class meta) of None \<Rightarrow> [] | Some ws \<Rightarrow> [ws])
     @ (case m_scope meta of
          ScopeGlobal \<Rightarrow> []
        | ScopeChat chat \<Rightarrow> chat_window_set chat s
            # (if has_class_chat (m_class meta) s
                 then [class_chat_window_set chat (m_class meta) s] else []))"

lemma window_set_update [simp]:
  "chat_window_set chat (s\<lparr>global_windows := w\<rparr>) = chat_window_set chat s"
  "chat_window_set chat (s\<lparr>class_global_windows := gw\<rparr>) = chat_window_set chat s"
  "chat_window_set chat (s\<lparr>class_chat_window_sets := cw\<rparr>) = chat_window_set chat s"
  "chat_window_set chat (s\<lparr>in_flight := fl\<rparr>) = chat_window_set chat s"
  "class_chat_window_set chat cl (s\<lparr>global_windows := w\<rparr>) = class_chat_window_set chat cl s"
  "class_chat_window_set chat cl (s\<lparr>class_global_windows := gw\<rparr>) = class_chat_window_set chat cl s"
  "class_chat_window_set chat cl (s\<lparr>chat_window_sets := hw\<rparr>) = class_chat_window_set chat cl s"
  "class_chat_window_set chat cl (s\<lparr>in_flight := fl\<rparr>) = class_chat_window_set chat cl s"
  "chat_window_set chat (s\<lparr>chat_window_sets := hm_insert chat ws m\<rparr>) = ws"
  "class_chat_window_set chat cl (s\<lparr>class_chat_window_sets := hm_insert (chat, cl) ws cm\<rparr>) = ws"
  "has_class_chat cl (s\<lparr>global_windows := w\<rparr>) = has_class_chat cl s"
  "has_class_chat cl (s\<lparr>class_global_windows := gw\<rparr>) = has_class_chat cl s"
  "has_class_chat cl (s\<lparr>chat_window_sets := hw\<rparr>) = has_class_chat cl s"
  "has_class_chat cl (s\<lparr>class_chat_window_sets := cw\<rparr>) = has_class_chat cl s"
  by (simp_all add: chat_window_set_def class_chat_window_set_def has_class_chat_def split: option.split)

text \<open>Every window set is well-formed and holds no event later than \<open>now\<close>.\<close>

definition ws_at :: "instant \<Rightarrow> window_set \<Rightarrow> bool" where
  "ws_at now ws \<longleftrightarrow> ws_ok ws \<and> list_all (rw_until now) ws"

definition windows_ok :: "instant \<Rightarrow> scheduler_state \<Rightarrow> bool" where
  "windows_ok now s \<longleftrightarrow> ws_at now (global_windows s)
     \<and> list_all (\<lambda>p. ws_at now (snd p)) (class_global_windows s)
     \<and> list_all (\<lambda>p. ws_at now (snd p)) (chat_window_sets s)
     \<and> list_all (\<lambda>p. ws_at now (snd p)) (class_chat_window_sets s)
     \<and> hm_ok (class_global_windows s)"

lemma ws_at_new [simp]: "ws_at now (ws_new ls k)" "ws_at now (ws_new_class cls cl)"
  by (simp_all add: ws_at_def ws_ok_def ws_new_def ws_new_class_def list_all_iff)

lemma ws_at_ok: "ws_at now ws \<Longrightarrow> ws_ok ws"
  by (simp add: ws_at_def)

lemma ws_at_later: "ws_at now ws \<Longrightarrow> now \<le> now' \<Longrightarrow> ws_at now' ws"
  using rw_until_mono[of now _ now'] by (auto simp: ws_at_def list_all_iff)

lemma windows_ok_later: "windows_ok now s \<Longrightarrow> now \<le> now' \<Longrightarrow> windows_ok now' s"
  using ws_at_later[of now _ now'] by (auto simp: windows_ok_def list_all_iff)

lemma windows_ok_chat:
  "windows_ok now s \<Longrightarrow> ws_at now (chat_window_set chat s)"
  "windows_ok now s \<Longrightarrow> ws_at now (class_chat_window_set chat cl s)"
  "windows_ok now s \<Longrightarrow> hm_get (class_global_windows s) cl = Some ws \<Longrightarrow> ws_at now ws"
proof -
  assume w: "windows_ok now s"
  note get = list_all_hm_get[of "ws_at now"]
  show "ws_at now (chat_window_set chat s)"
    using w get[of "chat_window_sets s" chat] by (simp add: windows_ok_def chat_window_set_def split: option.split)
  show "ws_at now (class_chat_window_set chat cl s)"
    using w get[of "class_chat_window_sets s" "(chat, cl)"]
    by (simp add: windows_ok_def class_chat_window_set_def split: option.split)
  show "hm_get (class_global_windows s) cl = Some ws \<Longrightarrow> ws_at now ws"
    using w get[of "class_global_windows s" cl ws] by (simp add: windows_ok_def)
qed

lemma request_windows_ok:
  assumes "windows_ok now s" and "ws \<in> set (request_windows meta s)"
  shows "ws_at now ws"
proof -
  note w = windows_ok_chat(1,2)[OF assms(1)]
  have "list_all (ws_at now) (case m_scope meta of ScopeGlobal \<Rightarrow> []
        | ScopeChat chat \<Rightarrow> chat_window_set chat s
            # (if has_class_chat (m_class meta) s
                 then [class_chat_window_set chat (m_class meta) s] else []))"
    by (simp add: w split: outbound_scope.split)
  moreover have "list_all (ws_at now)
      (case hm_get (class_global_windows s) (m_class meta) of None \<Rightarrow> [] | Some ws \<Rightarrow> [ws])"
    using windows_ok_chat(3)[OF assms(1), of "m_class meta"]
    by (cases "hm_get (class_global_windows s) (m_class meta)") simp_all
  moreover have "ws_at now (global_windows s)" using assms(1) by (simp add: windows_ok_def)
  ultimately have "list_all (ws_at now) (request_windows meta s)" by (simp add: request_windows_def)
  with assms(2) show ?thesis unfolding list_all_iff by blast
qed

subsection \<open>Admission passes\<close>

text \<open>
  When admission passes, no penalty of the request's scope is active, every window set admits the
  weight, and the set has been pruned.
\<close>

lemma admit_global_pass:
  assumes "admit_global now n acc s = (Some acc', t)" and "fst acc' \<le> now" and "windows_ok now s"
  shows "fst (ws_can_consume now n (global_windows s)) \<and> acc' = acc
    \<and> t = s\<lparr>global_windows := map (rw_prune now) (global_windows s)\<rparr>"
proof -
  obtain ws where c: "check_windows now n WinGlobal (global_windows s) acc = (Some acc', ws)"
    and t: "t = s\<lparr>global_windows := ws\<rparr>"
    using assms(1) by (auto simp: admit_global_def split: prod.splits)
  have "ws_ok (global_windows s)" using assms(3) by (simp add: windows_ok_def ws_at_def)
  from check_windows_pass[OF c assms(2) this] t show ?thesis by simp
qed

lemma admit_class_global_pass:
  assumes "admit_class_global now n cl acc s = (Some acc', t)" and "fst acc' \<le> now" and "windows_ok now s"
  shows "(case hm_get (class_global_windows s) cl of None \<Rightarrow> True | Some ws \<Rightarrow> fst (ws_can_consume now n ws))
    \<and> acc' = acc
    \<and> t = s\<lparr>class_global_windows := (case hm_get (class_global_windows s) cl of
        None \<Rightarrow> class_global_windows s
      | Some ws \<Rightarrow> hm_insert cl (map (rw_prune now) ws) (class_global_windows s))\<rparr>"
proof (cases "hm_get (class_global_windows s) cl")
  case None
  with assms show ?thesis by (simp add: admit_class_global_def)
next
  case (Some ws0)
  obtain ws where c: "check_windows now n (WinClassGlobal cl) ws0 acc = (Some acc', ws)"
    and t: "t = s\<lparr>class_global_windows := hm_insert cl ws (class_global_windows s)\<rparr>"
    using assms(1) Some by (auto simp: admit_class_global_def split: prod.splits)
  from check_windows_pass[OF c assms(2) ws_at_ok[OF windows_ok_chat(3)[OF assms(3) Some]]] t Some
  show ?thesis by simp
qed

lemma admit_chat_pass:
  assumes "admit_chat now n chat acc s = (Some acc', t)" and "fst acc' \<le> now" and "windows_ok now s"
  shows "fst (ws_can_consume now n (chat_window_set chat s)) \<and> acc' = acc
    \<and> t = s\<lparr>chat_window_sets := hm_insert chat (map (rw_prune now) (chat_window_set chat s))
              (chat_window_sets s)\<rparr>"
proof -
  obtain ws where c: "check_windows now n (WinChat chat) (chat_window_set chat s) acc = (Some acc', ws)"
    and t: "t = s\<lparr>chat_window_sets := hm_insert chat ws (chat_window_sets s)\<rparr>"
    using assms(1) by (auto simp: admit_chat_def split: prod.splits)
  from check_windows_pass[OF c assms(2) ws_at_ok[OF windows_ok_chat(1)[OF assms(3)]]] t show ?thesis by simp
qed

lemma admit_class_chat_pass:
  assumes "admit_class_chat now n chat cl acc s = (Some acc', t)" and "fst acc' \<le> now" and "windows_ok now s"
  shows "(has_class_chat cl s \<longrightarrow> fst (ws_can_consume now n (class_chat_window_set chat cl s)))
    \<and> acc' = acc
    \<and> t = (if has_class_chat cl s then s\<lparr>class_chat_window_sets := hm_insert (chat, cl)
              (map (rw_prune now) (class_chat_window_set chat cl s)) (class_chat_window_sets s)\<rparr> else s)"
proof (cases "has_class_chat cl s")
  case False
  with assms show ?thesis by (simp add: admit_class_chat_def)
next
  case True
  obtain ws where c: "check_windows now n (WinClassChat chat cl) (class_chat_window_set chat cl s) acc
      = (Some acc', ws)"
    and t: "t = s\<lparr>class_chat_window_sets := hm_insert (chat, cl) ws (class_chat_window_sets s)\<rparr>"
    using assms(1) True by (auto simp: admit_class_chat_def split: prod.splits)
  from check_windows_pass[OF c assms(2) ws_at_ok[OF windows_ok_chat(2)[OF assms(3)]]] t True show ?thesis by simp
qed

lemma admit_ge:
  "admit_global now n acc s = (Some acc', t) \<Longrightarrow> fst acc \<le> fst acc'"
  "admit_class_global now n cl acc s = (Some acc', t) \<Longrightarrow> fst acc \<le> fst acc'"
  "admit_chat now n chat acc s = (Some acc', t) \<Longrightarrow> fst acc \<le> fst acc'"
  "admit_class_chat now n chat cl acc s = (Some acc', t) \<Longrightarrow> fst acc \<le> fst acc'"
  by (auto simp: admit_global_def admit_class_global_def admit_chat_def admit_class_chat_def
      dest!: check_windows_ge split: prod.splits option.splits if_splits)

lemma admit_scope_ge:
  assumes "admit_scope now n sc cl acc s = (Some acc', t)"
  shows "fst acc \<le> fst acc'"
proof (cases sc)
  case (ScopeChat chat)
  obtain acc1 s1 where 1: "admit_chat now n chat (penalty_until (PenaltyChat chat) now s (fst acc), snd acc) s
      = (Some acc1, s1)" and 2: "admit_class_chat now n chat cl acc1 s1 = (Some acc', t)"
    using assms ScopeChat by (auto simp: admit_scope_def split: prod.splits option.splits)
  show ?thesis using admit_ge(3)[OF 1] admit_ge(4)[OF 2]
      penalty_until_ge[of "fst acc" "PenaltyChat chat" now s] by simp
qed (use assms in \<open>simp add: admit_scope_def\<close>)

lemma ws_at_can_consume:
  assumes "ws_at now ws"
  shows "ws_at now (snd (ws_can_consume t n ws))"
proof -
  have "list_all (rw_until now) (snd (ws_can_consume t n ws))"
    using ws_can_consume_rel[of t ws n] assms
    by (auto simp: ws_at_def ws_ok_def list_all2_conv_all_nth list_all_length)
  with ws_ok_can_consume assms show ?thesis by (simp add: ws_at_def)
qed

lemma check_windows_ok: "check_windows now n w ws acc = (r, ws') \<Longrightarrow> ws_at now ws \<Longrightarrow> ws_at now ws'"
  using ws_at_can_consume[of now ws now n]
  by (auto simp: check_windows_def Let_def split: prod.splits if_splits option.splits)

lemma admit_windows_ok:
  "admit_global now n acc s = (r, t) \<Longrightarrow> windows_ok now s \<Longrightarrow> windows_ok now t"
  "admit_class_global now n cl acc s = (r, t) \<Longrightarrow> windows_ok now s \<Longrightarrow> windows_ok now t"
  "admit_chat now n chat acc s = (r, t) \<Longrightarrow> windows_ok now s \<Longrightarrow> windows_ok now t"
  "admit_class_chat now n chat cl acc s = (r, t) \<Longrightarrow> windows_ok now s \<Longrightarrow> windows_ok now t"
proof -
  assume w: "windows_ok now s"
  note c = check_windows_ok[where now = now and n = n and acc = acc]
  show "admit_global now n acc s = (r, t) \<Longrightarrow> windows_ok now t"
    using w c[where ws = "global_windows s"]
    by (auto simp: admit_global_def windows_ok_def split: prod.splits)
  show "admit_class_global now n cl acc s = (r, t) \<Longrightarrow> windows_ok now t"
    using w windows_ok_chat(3)[OF w] c
    by (auto simp: admit_class_global_def windows_ok_def list_all_hm_insert split: prod.splits option.splits)
  show "admit_chat now n chat acc s = (r, t) \<Longrightarrow> windows_ok now t"
    using w windows_ok_chat(1)[OF w] c[where ws = "chat_window_set chat s"]
    by (auto simp: admit_chat_def windows_ok_def list_all_hm_insert split: prod.splits)
  show "admit_class_chat now n chat cl acc s = (r, t) \<Longrightarrow> windows_ok now t"
    using w windows_ok_chat(2)[OF w] c[where ws = "class_chat_window_set chat cl s"]
    by (auto simp: admit_class_chat_def windows_ok_def list_all_hm_insert split: prod.splits if_splits)
qed

lemma admission_windows_ok: 
  assumes "admission c now s = (v, t)" and "windows_ok now s"
  shows "windows_ok now t"
proof -
  have scope: "windows_ok now u'" if "admit_scope now n sc cl acc u = (r, u')" "windows_ok now u"
    for n sc cl acc u r u'
  proof (cases sc)
    case (ScopeChat chat)
    obtain r1 u1 where 1: "admit_chat now n chat (penalty_until (PenaltyChat chat) now u (fst acc), snd acc) u
      = (r1, u1)" by fastforce
    have u1: "windows_ok now u1" by (rule admit_windows_ok(3)[OF 1 that(2)])
    show ?thesis using that(1) ScopeChat 1 u1 admit_windows_ok(4)[OF _ u1]
      by (cases r1) (auto simp: admit_scope_def)
  qed (use that in \<open>simp add: admit_scope_def\<close>)
  have all: "windows_ok now u'" if "admit_windows now n sc cl u = (r, u')" "windows_ok now u" for n sc cl u r u'
  proof -
    obtain r1 u1 where 1: "admit_global now n (penalty_until PenaltyGlobal now u now, None) u = (r1, u1)"
      by fastforce
    have u1: "windows_ok now u1" by (rule admit_windows_ok(1)[OF 1 that(2)])
    show ?thesis
    proof (cases r1)
      case (Some acc1)
      obtain r2 u2 where 2: "admit_class_global now n cl acc1 u1 = (r2, u2)" by fastforce
      have u2: "windows_ok now u2" by (rule admit_windows_ok(2)[OF 2 u1])
      show ?thesis using that(1) 1 2 Some u2 scope[OF _ u2]
        by (cases r2) (auto simp: admit_windows_def)
    qed (use that(1) 1 u1 in \<open>simp add: admit_windows_def\<close>)
  qed
  show ?thesis
  proof (cases "list_ex (\<lambda>w. reservation_active w now s \<and> \<not> reservation_owner_is c w s)
      (applicable_windows c s)")
    case True
    with assms show ?thesis by (simp add: admission_def)
  next
    case False
    show ?thesis
    proof (cases "hm_get (jobs s) (c_job c)")
      case None
      with assms False show ?thesis by (simp add: admission_def)
    next
      case (Some job)
      obtain r u where r: "admit_windows now (c_weight c) (c_scope c) (m_class (j_meta job)) s = (r, u)"
        by fastforce
      have "t = u" using assms(1) False Some r
        by (auto simp: admission_def split: option.splits prod.splits)
      with all[OF r assms(2)] show ?thesis by simp
    qed
  qed
qed

lemma admission_pass:
  assumes adm: "admission c now s = (Some Pass, t)" and w: "windows_ok now s" and c: "cand_ok s c"
    and job: "hm_get (jobs s) (c_job c) = Some job"
  defines "meta \<equiv> j_meta job"
  shows "\<not> penalty_active PenaltyGlobal now s"
    and "m_scope meta = ScopeChat chat \<Longrightarrow> \<not> penalty_active (PenaltyChat chat) now s"
    and "ws \<in> set (request_windows meta s) \<Longrightarrow> fst (ws_can_consume now (m_weight meta) ws)"
    and "request_windows meta t = map (map (rw_prune now)) (request_windows meta s)"
proof -
  have cw: "c_weight c = m_weight meta" "c_scope c = m_scope meta"
    using c job by (simp_all add: cand_ok_def meta_def)
  let ?n = "m_weight meta" and ?cl = "m_class meta"
  obtain until reserve where all: "admit_windows now ?n (m_scope meta) ?cl s = (Some (until, reserve), t)"
    and until: "until \<le> now"
    using adm job cw by (auto simp: admission_def meta_def split: if_splits option.splits prod.splits)
  obtain a1 s1 where 1: "admit_global now ?n (penalty_until PenaltyGlobal now s now, None) s = (Some a1, s1)"
    using all by (auto simp: admit_windows_def split: prod.splits option.splits)
  obtain a2 s2 where 2: "admit_class_global now ?n ?cl a1 s1 = (Some a2, s2)"
    using all 1 by (auto simp: admit_windows_def split: prod.splits option.splits)
  have 3: "admit_scope now ?n (m_scope meta) ?cl a2 s2 = (Some (until, reserve), t)"
    using all 1 2 by (simp add: admit_windows_def)
  have le: "fst a2 \<le> now" "fst a1 \<le> now"
    using admit_scope_ge[OF 3] admit_ge(2)[OF 2] until by simp_all
  note g = admit_global_pass[OF 1 le(2) w]
  have w1: "windows_ok now s1" by (rule admit_windows_ok(1)[OF 1 w])
  note cg = admit_class_global_pass[OF 2 le(1) w1]
  have w2: "windows_ok now s2" by (rule admit_windows_ok(2)[OF 2 w1])
  show "\<not> penalty_active PenaltyGlobal now s"
    using g le(2) penalty_until_active[of PenaltyGlobal now s now] by auto
  have s1: "s1 = s\<lparr>global_windows := map (rw_prune now) (global_windows s)\<rparr>" using g by simp
  let ?cgs = "hm_get (class_global_windows s) ?cl"
  have s2: "s2 = s1\<lparr>class_global_windows := (case ?cgs of None \<Rightarrow> class_global_windows s
      | Some ws \<Rightarrow> hm_insert ?cl (map (rw_prune now) ws) (class_global_windows s))\<rparr>"
    using cg by (cases ?cgs) (simp_all add: s1)
  have admits: "fst (ws_can_consume now ?n (global_windows s))"
    "\<And>ws. ?cgs = Some ws \<Longrightarrow> fst (ws_can_consume now ?n ws)"
    using g cg s1 by auto
  have front: "request_windows meta s2 = map (rw_prune now) (global_windows s)
      # (case ?cgs of None \<Rightarrow> [] | Some ws \<Rightarrow> [map (rw_prune now) ws])
      @ (case m_scope meta of ScopeGlobal \<Rightarrow> [] | ScopeChat chat \<Rightarrow> chat_window_set chat s
            # (if has_class_chat ?cl s then [class_chat_window_set chat ?cl s] else []))"
    by (cases ?cgs) (simp_all add: request_windows_def s2 s1 split: outbound_scope.split)
  have "(\<forall>chat. m_scope meta = ScopeChat chat \<longrightarrow> \<not> penalty_active (PenaltyChat chat) now s)
      \<and> (\<forall>ws\<in>set (request_windows meta s). fst (ws_can_consume now ?n ws))
      \<and> request_windows meta t = map (map (rw_prune now)) (request_windows meta s)"
  proof (cases "m_scope meta")
    case ScopeGlobal
    then have "t = s2" using 3 by (simp add: admit_scope_def)
    with ScopeGlobal front admits show ?thesis by (cases ?cgs) (simp_all add: request_windows_def)
  next
    case (ScopeChat chat)
    obtain a3 s3 where 4: "admit_chat now ?n chat
        (penalty_until (PenaltyChat chat) now s2 (fst a2), snd a2) s2 = (Some a3, s3)"
      and 5: "admit_class_chat now ?n chat ?cl a3 s3 = (Some (until, reserve), t)"
      using 3 ScopeChat by (auto simp: admit_scope_def split: prod.splits option.splits)
    have le3: "fst a3 \<le> now" using admit_ge(4)[OF 5] until by simp
    note ch = admit_chat_pass[OF 4 le3 w2]
    have w3: "windows_ok now s3" by (rule admit_windows_ok(3)[OF 4 w2])
    note cc = admit_class_chat_pass[OF 5 _ w3, simplified, OF until]
    have same: "chat_window_set chat s2 = chat_window_set chat s"
      "class_chat_window_set chat ?cl s3 = class_chat_window_set chat ?cl s"
      "has_class_chat ?cl s3 = has_class_chat ?cl s" "has_class_chat ?cl t = has_class_chat ?cl s"
      using ch cc by (simp_all add: s2 s1)
    have "\<not> penalty_active (PenaltyChat chat) now s2"
      using ch le3 penalty_until_active[of "PenaltyChat chat" now s2 "fst a2"] by auto
    then have pen: "\<not> penalty_active (PenaltyChat chat) now s"
      by (simp add: s2 s1 penalty_active_def)
    have "global_windows t = global_windows s2" "class_global_windows t = class_global_windows s2"
      "chat_window_set chat t = map (rw_prune now) (chat_window_set chat s)"
      "has_class_chat ?cl s \<Longrightarrow>
         class_chat_window_set chat ?cl t = map (rw_prune now) (class_chat_window_set chat ?cl s)"
      using ch cc same by simp_all
    then have "request_windows meta t = map (map (rw_prune now)) (request_windows meta s)"
      using ScopeChat same(4) by (cases ?cgs) (simp_all add: request_windows_def s2 s1)
    moreover have "\<forall>ws\<in>set (request_windows meta s). fst (ws_can_consume now ?n ws)"
      using ScopeChat admits ch cc same by (cases ?cgs) (simp_all add: request_windows_def)
    ultimately show ?thesis using pen ScopeChat by simp
  qed
  then show "m_scope meta = ScopeChat chat \<Longrightarrow> \<not> penalty_active (PenaltyChat chat) now s"
    "ws \<in> set (request_windows meta s) \<Longrightarrow> fst (ws_can_consume now (m_weight meta) ws)"
    "request_windows meta t = map (map (rw_prune now)) (request_windows meta s)" by blast+
qed

subsection \<open>The windows after a grant\<close>

lemma wins_request_windows: "wins t = wins s \<Longrightarrow> request_windows meta t = request_windows meta s"
  by (simp add: wins_def request_windows_def chat_window_set_def class_chat_window_set_def
      has_class_chat_def split: outbound_scope.split option.split)

lemma wins_windows_ok: "wins t = wins s \<Longrightarrow> windows_ok now t = windows_ok now s"
  by (simp add: wins_def windows_ok_def)

lemma request_windows_consume:
  "request_windows meta (consume_windows now j meta s)
     = map (ws_consume now (m_weight meta) j) (request_windows meta s)"
proof (cases "m_scope meta")
  case ScopeGlobal
  then show ?thesis
    by (cases "hm_get (class_global_windows s) (m_class meta)")
       (simp_all add: consume_windows_def request_windows_def Let_def)
next
  case (ScopeChat chat)
  then show ?thesis
    by (cases "hm_get (class_global_windows s) (m_class meta)")
       (simp_all add: consume_windows_def request_windows_def Let_def)
qed

lemma ws_at_consume: "ws_at now ws \<Longrightarrow> ws_at now (ws_consume now n j ws)"
  by (simp add: ws_at_def ws_ok_def ws_consume_def list_all_iff rw_ok_consume)

lemma list_all_hm_adjust:
  "list_all (\<lambda>p. P (snd p)) m \<Longrightarrow> (\<And>v. P v \<Longrightarrow> P (f v)) \<Longrightarrow> list_all (\<lambda>p. P (snd p)) (hm_adjust k f m)"
  by (auto simp: hm_adjust_def list_all_iff)

lemma consume_windows_ok:
  assumes "windows_ok now s"
  shows "windows_ok now (consume_windows now j meta s)"
proof -
  let ?c = "ws_consume now (m_weight meta) j"
  let ?s1 = "s\<lparr>global_windows := ?c (global_windows s),
      class_global_windows := hm_adjust (m_class meta) ?c (class_global_windows s)\<rparr>"
  have s1: "windows_ok now ?s1"
    using assms ws_at_consume by (simp add: windows_ok_def list_all_hm_adjust)
  show ?thesis
  proof (cases "m_scope meta")
    case (ScopeChat chat)
    let ?s2 = "?s1\<lparr>chat_window_sets := hm_insert chat (?c (chat_window_set chat ?s1)) (chat_window_sets ?s1)\<rparr>"
    have s2: "windows_ok now ?s2"
      using s1 ws_at_consume[OF windows_ok_chat(1)[OF s1]]
      unfolding windows_ok_def by (simp add: list_all_hm_insert)
    have s3: "windows_ok now (?s2\<lparr>class_chat_window_sets := hm_insert (chat, m_class meta)
        (?c (class_chat_window_set chat (m_class meta) ?s2)) (class_chat_window_sets ?s2)\<rparr>)"
      using s2 ws_at_consume[OF windows_ok_chat(2)[OF s2]]
      unfolding windows_ok_def by (simp add: list_all_hm_insert)
    show ?thesis using s2 s3 ScopeChat by (simp add: consume_windows_def Let_def)
  qed (use s1 in \<open>simp add: consume_windows_def Let_def\<close>)
qed

lemma rw_used_consumed:
  assumes "rw_ok r" and "fst (rw_can_consume now n r)"
  shows "rw_used (rw_consume now n j (rw_prune now r)) \<le> rw_capacity r"
  using assms by (simp add: rw_can_consume_def rw_consume_def Let_def)

text \<open>A grant leaves every window of its request within its capacity.\<close>

lemma grant_within_capacity:
  assumes "admission c now s = (Some Pass, t)" and "windows_ok now s" and "cand_ok s c"
    and "grant c now t = Some u" and job: "hm_get (jobs s) (c_job c) = Some job"
    and "ws \<in> set (request_windows (j_meta job) u)" and "r \<in> set ws"
  shows "rw_used r \<le> rw_capacity r"
    and "(now, m_weight (j_meta job), Some (c_job c)) \<in> set (rw_history r)"
proof -
  let ?m = "j_meta job"
  have t: "hm_get (jobs t) (c_job c) = Some job" "cand_ok t c"
    using admission_frame[OF assms(1)] admission_cand_ok[OF assms(1)] assms(3) job by simp_all
  have u: "u = rearm_bounded_lane (m_lane ?m) now (grant_core c job now t)"
    using assms(4) grant_core_eq[OF t(2,1), of now] by simp
  obtain t1 where t1: "grant_in_lane (c_job c) (m_lane ?m) (remove_coalesce_entry (c_job c)
      (j_coalesce_key job) (t\<lparr>jobs := hm_remove (c_job c) (jobs t)\<rparr>)) = Some t1"
    using grant_lane_defined[OF t(2,1), of "remove_coalesce_entry (c_job c)
      (j_coalesce_key job) (t\<lparr>jobs := hm_remove (c_job c) (jobs t)\<rparr>)"] by auto
  have w1: "wins t1 = wins t" using grant_in_lane_frame[OF t1] by (simp add: wins_def)
  have "wins u = wins (consume_windows now (c_job c) ?m t1)"
    by (simp add: u grant_core_def Let_def t1)
  then have "request_windows ?m u = map (ws_consume now (m_weight ?m) (c_job c)) (request_windows ?m t)"
    using wins_request_windows w1 request_windows_consume by metis
  also have "\<dots> = map (\<lambda>ws. ws_consume now (m_weight ?m) (c_job c) (map (rw_prune now) ws))
      (request_windows ?m s)"
    by (simp add: admission_pass(4)[OF assms(1,2,3) job])
  finally obtain ws0 where ws0: "ws0 \<in> set (request_windows ?m s)"
    and ws: "ws = ws_consume now (m_weight ?m) (c_job c) (map (rw_prune now) ws0)"
    using assms(6) by auto
  then obtain r0 where r0: "r0 \<in> set ws0"
    and r: "r = rw_consume now (m_weight ?m) (c_job c) (rw_prune now r0)"
    using assms(7) by (auto simp: ws_consume_def)
  have "rw_ok r0" using request_windows_ok[OF assms(2) ws0] r0
    by (simp add: ws_at_def ws_ok_def list_all_iff)
  moreover have "fst (rw_can_consume now (m_weight ?m) r0)"
    using admission_pass(3)[OF assms(1,2,3) job ws0] r0 by (simp add: ws_can_consume_iff)
  ultimately show "rw_used r \<le> rw_capacity r"
    using rw_used_consumed[of r0 now "m_weight ?m" "c_job c"] r by (simp add: rw_consume_def)
  show "(now, m_weight ?m, Some (c_job c)) \<in> set (rw_history r)"
    by (simp add: r rw_consume_def)
qed

subsection \<open>One turn\<close>

lemma settle_spec:
  assumes "sched_ok s" and "cand_ok s c" and adm: "admission c now s = (Some v, t)"
  shows "\<exists>gs u. settle c v now t = TurnMore gs u \<and> sched_ok u
    \<and> (gs = [] \<and> quiet s u
       \<or> v = Pass \<and> grants (c_job c) s u
          \<and> gs = [\<lparr>g_job = c_job c, g_correlation = fst (snd (the (job_static s (c_job c))))\<rparr>])"
proof -
  have qt: "quiet s t" by (rule quiet_admission[OF adm]) simp
  have rt: "refs_in s t" using refs_admission[OF adm] assms(1) by (simp add: sched_ok_def)
  have ct: "cand_ok t c" using assms(2) admission_cand_ok[OF adm] by simp
  have st: "sched_ok t" by (rule quiet_sched_ok[OF qt assms(1) rt])
  have ids: "ids_ok s" using assms(1) by (simp add: sched_ok_def)
  have has: "hm_has (jobs u) (c_job c)" if "quiet s u" for u
  proof -
    have "hm_has (jobs s) (c_job c)" using assms(2) by (auto simp: cand_ok_def split: option.splits)
    then show ?thesis unfolding quiet_has[OF that] .
  qed
  have block: "\<exists>u. block_candidate c b p w = Some u \<and> quiet s u \<and> sched_ok u"
    if q: "quiet s w" and r: "refs_in s w" for b p w
  proof -
    have "block_candidate c b p w \<noteq> None"
    proof (cases "hm_get (jobs w) (c_job c)")
      case (Some job)
      show ?thesis
      proof (cases "m_lane (j_meta job)")
        case lane: (Some l)
        have "lane_of w (c_job c) = Some l" using Some lane
          by (simp add: lane_of_def job_static_def static_def)
        moreover have "lanes_ok w" using quiet_lanes_ok[OF q] assms(1) by (simp add: sched_ok_def)
        ultimately have "hm_get (lanes w) l \<noteq> None" unfolding lanes_ok_def by force
        then show ?thesis using Some lane by (auto simp: block_candidate_def Let_def)
      qed (use Some in \<open>simp add: block_candidate_def Let_def\<close>)
    qed (simp add: block_candidate_def Let_def)
    then obtain u where u: "block_candidate c b p w = Some u" by auto
    have "quiet s u" by (rule quiet_block[OF u q])
    moreover have "refs_in s u" by (rule refs_block[OF u ref_ok_reference_of[OF ids q has[OF q]] r])
    ultimately show ?thesis using u quiet_sched_ok assms(1) by blast
  qed
  show ?thesis
  proof (cases v)
    case Pass
    obtain u where u: "grant c now t = Some u" "sched_ok u" "grants (c_job c) t u"
      by (rule grant_spec[OF ct st])
    have q: "quiet u (rearm_reservations c now u)" by (rule quiet_rearm) simp
    have "sched_ok (rearm_reservations c now u)"
      using u(2) by (intro quiet_sched_ok[OF q u(2)] refs_rearm) (simp add: sched_ok_def)
    moreover have "grants (c_job c) s (rearm_reservations c now u)"
      by (rule grants_quiet[OF quiet_grants[OF qt u(3)] q])
    moreover have "job_static s (c_job c) = job_static t (c_job c)" using quiet_static[OF qt] by simp
    moreover have "hm_has (jobs t) (c_job c)" by (rule has[OF qt])
    ultimately show ?thesis using Pass u(1)
      by (auto simp: settle_def turn_of_def Let_def job_static_def static_def)
  next
    case (Blocked until reserve)
    let ?w = "release_previous_reservation_if_changed c reserve now t"
    let ?x = "case reserve of None \<Rightarrow> ?w | Some w \<Rightarrow> reserve_window c until w ?w"
    have w: "quiet s ?w" "refs_in s ?w" by (simp_all add: quiet_release_previous qt refs_release_previous rt)
    have "quiet s ?x" "refs_in s ?x"
      using w refs_reserve[OF ref_ok_reference_of[OF ids w(1) has[OF w(1)]] w(2)] quiet_reserve[OF w(1)]
      by (cases reserve; simp)+
    from block[OF this, of until False] Blocked show ?thesis
      by (auto simp: settle_def turn_of_def Let_def)
  next
    case BlockedForever
    let ?w = "release_previous_reservation_if_changed c None now t"
    have w: "quiet s ?w" "refs_in s ?w" by (simp_all add: quiet_release_previous qt refs_release_previous rt)
    from block[OF this, of "now + BLOCKED_FOREVER_DELAY" True] BlockedForever show ?thesis
      by (auto simp: settle_def turn_of_def Let_def)
  next
    case Reserved
    have "t = s \<and> list_ex (\<lambda>w. reservation_active w now s) (applicable_windows c s)"
      using adm Reserved by (auto simp: admission_def list_ex_iff split: if_splits option.splits prod.splits)
    then obtain w where w: "reservation_window c now t = Some w"
      by (cases "reservation_window c now t") (auto simp: reservation_window_def list_ex_iff find_None_iff)
    have "quiet s (park_candidate c w now t)" by (rule quiet_park[OF qt])
    moreover have "refs_in s (park_candidate c w now t)"
      by (rule refs_park[OF ref_ok_reference_of[OF ids qt has[OF qt]] rt])
    ultimately show ?thesis using Reserved w quiet_sched_ok assms(1) by (auto simp: settle_def)
  qed
qed

lemma grant_windows_ok:
  assumes "grant c now s = Some t" and "windows_ok now s"
  shows "windows_ok now t"
proof -
  obtain job where job: "hm_get (jobs s) (c_job c) = Some job"
    using assms(1) by (auto simp: grant_def split: option.splits)
  let ?s1 = "remove_coalesce_entry (c_job c) (j_coalesce_key job) (s\<lparr>jobs := hm_remove (c_job c) (jobs s)\<rparr>)"
  obtain u where u: "grant_in_lane (c_job c) (m_lane (j_meta job)) ?s1 = Some u"
    and t: "t = rearm_bounded_lane (m_lane (j_meta job)) now ((consume_windows now (c_job c) (j_meta job) u)
      \<lparr>in_flight := hm_insert (c_job c) (in_flight_of (j_meta job))
         (in_flight (consume_windows now (c_job c) (j_meta job) u))\<rparr>)"
    using assms(1) job by (auto simp: grant_def Let_def split: option.splits)
  have "wins u = wins s" using grant_in_lane_frame[OF u] by (simp add: wins_def)
  then have "windows_ok now u" using assms(2) wins_windows_ok by blast
  then have "windows_ok now (consume_windows now (c_job c) (j_meta job) u)" by (rule consume_windows_ok)
  moreover have "wins t = wins (consume_windows now (c_job c) (j_meta job) u)" by (simp add: t)
  ultimately show ?thesis using wins_windows_ok by blast
qed

lemma settle_windows_ok:
  assumes "settle c v now s = TurnMore gs t" and "windows_ok now s"
  shows "windows_ok now t"
proof (cases v)
  case Pass
  then obtain u where "grant c now s = Some u" and "t = rearm_reservations c now u"
    using assms(1) by (auto simp: settle_def turn_of_def Let_def split: option.splits)
  with grant_windows_ok assms(2) wins_windows_ok[OF wins_rearm] show ?thesis by blast
next
  case (Blocked until reserve)
  then have "wins t = wins s" using assms(1)
    by (auto simp: settle_def turn_of_def Let_def split: option.splits dest!: wins_block)
  with assms(2) wins_windows_ok show ?thesis by blast
next
  case BlockedForever
  then have "wins t = wins s" using assms(1)
    by (auto simp: settle_def turn_of_def Let_def split: option.splits dest!: wins_block)
  with assms(2) wins_windows_ok show ?thesis by blast
next
  case Reserved
  then have "wins t = wins s" using assms(1) by (auto simp: settle_def split: option.splits)
  with assms(2) wins_windows_ok show ?thesis by blast
qed

definition penalised :: "instant \<Rightarrow> outbound_meta \<Rightarrow> scheduler_state \<Rightarrow> bool" where
  "penalised now meta s \<longleftrightarrow> penalty_active PenaltyGlobal now s
     \<or> (case m_scope meta of ScopeGlobal \<Rightarrow> False | ScopeChat chat \<Rightarrow> penalty_active (PenaltyChat chat) now s)"

lemma quiet_penalised: "quiet s t \<Longrightarrow> penalised now meta t = penalised now meta s"
  by (simp add: penalised_def penalty_active_def quiet_def split: outbound_scope.split)

definition granted_job :: "instant \<Rightarrow> scheduler_state \<Rightarrow> grant_rec \<Rightarrow> bool" where
  "granted_job now s g \<longleftrightarrow>
     (\<exists>b. job_static s (g_job g) = Some b \<and> g_correlation g = fst (snd b) \<and> \<not> penalised now (fst b) s)"

lemma grant_turn_spec:
  assumes "sched_ok s" and "windows_ok now s"
  shows "case grant_turn now s of
      TurnPanic \<Rightarrow> False
    | TurnDone t \<Rightarrow> sched_ok t \<and> windows_ok now t \<and> quiet s t
    | TurnMore gs t \<Rightarrow> sched_ok t \<and> windows_ok now t
        \<and> (gs = [] \<and> quiet s t \<or> (\<exists>g. gs = [g] \<and> granted_job now s g \<and> grants (g_job g) s t))"
proof -
  obtain r s1 where pop: "pop_candidate now s = (r, s1)" by fastforce
  have q1: "quiet s s1" by (rule quiet_pop[OF pop]) simp
  have r1: "refs_in s s1" using refs_pop[OF pop] assms(1) by (simp add: sched_ok_def)
  have ok1: "sched_ok s1" by (rule quiet_sched_ok[OF q1 assms(1) r1])
  have w1: "windows_ok now s1" using assms(2) wins_windows_ok[OF wins_pop[OF pop]] by simp
  show ?thesis
  proof (cases r)
    case None
    with pop q1 ok1 w1 show ?thesis by (simp add: grant_turn_def)
  next
    case (Some c)
    have c: "cand_ok s1 c" using pop_cand_ok[OF _ assms(1) quiet_refl] pop Some assms(1)
      by (simp add: sched_ok_def)
    then obtain job where job: "hm_get (jobs s1) (c_job c) = Some job"
      by (auto simp: cand_ok_def split: option.splits)
    obtain v0 s2 where adm: "admission c now s1 = (v0, s2)" by fastforce
    then obtain v where v: "v0 = Some v" using job
      by (auto simp: admission_def split: if_splits option.splits prod.splits)
    obtain gs u where set: "settle c v now s2 = TurnMore gs u" and u: "sched_ok u"
      and res: "gs = [] \<and> quiet s1 u \<or> v = Pass \<and> grants (c_job c) s1 u
          \<and> gs = [\<lparr>g_job = c_job c, g_correlation = fst (snd (the (job_static s1 (c_job c))))\<rparr>]"
      using settle_spec[OF ok1 c] adm v by blast
    have wu: "windows_ok now u"
      by (rule settle_windows_ok[OF set admission_windows_ok[OF adm w1]])
    have turn: "grant_turn now s = TurnMore gs u" using pop Some adm v set by (simp add: grant_turn_def)
    show ?thesis
    proof (cases "gs = []")
      case True
      with res turn u wu quiet_trans[OF q1] show ?thesis by auto
    next
      case False
      with res have g: "gs = [\<lparr>g_job = c_job c, g_correlation = fst (snd (the (job_static s1 (c_job c))))\<rparr>]"
        and gr: "grants (c_job c) s1 u" and pass: "v = Pass" by auto
      have static: "job_static s (c_job c) = Some (static job)"
        using job quiet_static[OF q1] by (metis job_static_def option.simps(9))
      have "\<not> penalised now (j_meta job) s1"
        using admission_pass(1,2)[OF adm[unfolded v pass] w1 c job]
        by (auto simp: penalised_def split: outbound_scope.split)
      then have "granted_job now s (hd gs)"
        using static quiet_penalised[OF q1] quiet_static[OF q1] by (simp add: granted_job_def g static_def)
      with g turn u wu quiet_grants[OF q1 gr] show ?thesis by simp
    qed
  qed
qed

subsection \<open>The whole pass\<close>

text \<open>
  The outcome of a pass over the pending jobs: the granted jobs were pending and not penalised,
  each is granted once, exactly they leave the pending map, and exactly they enter the in-flight map.
\<close>

definition pass_outcome :: "instant \<Rightarrow> grant_rec list \<Rightarrow> scheduler_state \<Rightarrow> scheduler_state \<Rightarrow> bool" where
  "pass_outcome now gs s t \<longleftrightarrow>
     distinct (map g_job gs) \<and> list_all (granted_job now s) gs
     \<and> (\<forall>i. job_static t i = (if i \<in> g_job ` set gs then None else job_static s i))
     \<and> (\<forall>i. hm_get (in_flight t) i = (if i \<in> g_job ` set gs
            then map_option (\<lambda>b. in_flight_of (fst b)) (job_static s i) else hm_get (in_flight s) i))
     \<and> next_job_id t = next_job_id s \<and> aging t = aging s \<and> global_limits t = global_limits s
     \<and> chat_limits t = chat_limits s \<and> class_limits t = class_limits s"

lemma quiet_pass_outcome: "quiet s t \<Longrightarrow> pass_outcome now [] s t"
  by (simp add: pass_outcome_def quiet_def)

lemma granted_job_later:
  assumes "quiet s t \<or> grants j s t" and "granted_job now t g"
  shows "granted_job now s g"
proof -
  have pen: "penalties t = penalties s" using assms(1) by (auto simp: quiet_def grants_def)
  have "job_static s (g_job g) = job_static t (g_job g)"
    using assms quiet_static[of s t] grants_static[of j s t "g_job g"]
    by (auto simp: granted_job_def split: if_splits)
  moreover have "penalised now m t = penalised now m s" for m
    by (cases "m_scope m") (simp_all add: penalised_def penalty_active_def pen)
  ultimately show ?thesis using assms(2) by (simp add: granted_job_def)
qed

lemma granted_jobs_later:
  "quiet s t \<or> grants j s t \<Longrightarrow> list_all (granted_job now t) gs \<Longrightarrow> list_all (granted_job now s) gs"
  using granted_job_later by (metis list_all_iff)

lemma pass_outcome_quiet:
  assumes "quiet s t" and "pass_outcome now gs t u"
  shows "pass_outcome now gs s u"
proof -
  have "list_all (granted_job now s) gs"
    using granted_jobs_later[of s t undefined] assms by (simp add: pass_outcome_def)
  with assms quiet_static[OF assms(1)] show ?thesis by (simp add: pass_outcome_def quiet_def)
qed

lemma pass_outcome_grant:
  assumes "grants (g_job g) s t" and "granted_job now s g" and "pass_outcome now gs t u"
  shows "pass_outcome now (g # gs) s u"
proof -
  obtain b where b: "job_static s (g_job g) = Some b"
    "in_flight t = hm_insert (g_job g) (in_flight_of (fst b)) (in_flight s)"
    using assms(1) by (auto simp: grants_def)
  have later: "list_all (granted_job now s) gs"
    using granted_jobs_later[of s t "g_job g"] assms by (simp add: pass_outcome_def)
  have fresh: "g_job g \<notin> g_job ` set gs"
  proof
    assume "g_job g \<in> g_job ` set gs"
    then obtain h where "h \<in> set gs" "g_job h = g_job g" by force
    with assms(3) have "job_static t (g_job g) \<noteq> None"
      by (auto simp: pass_outcome_def list_all_iff granted_job_def)
    with grants_static[OF assms(1)] show False by simp
  qed
  have fl: "hm_get (in_flight t) i = (if i = g_job g then Some (in_flight_of (fst b))
      else hm_get (in_flight s) i)" for i using b(2) by simp
  have st: "job_static t i = (if i = g_job g then None else job_static s i)" for i
    by (rule grants_static[OF assms(1)])
  have "hm_get (in_flight u) i = (if i \<in> g_job ` set (g # gs)
      then map_option (\<lambda>b. in_flight_of (fst b)) (job_static s i) else hm_get (in_flight s) i)" for i
    using assms(3) fl[of i] st[of i] fresh b(1) by (auto simp: pass_outcome_def)
  moreover have "job_static u i = (if i \<in> g_job ` set (g # gs) then None else job_static s i)" for i
    using assms(3) st[of i] by (auto simp: pass_outcome_def)
  ultimately show ?thesis using assms fresh later by (simp add: pass_outcome_def grants_def)
qed

lemma grant_loop_spec:
  assumes "sched_ok s" and "windows_ok now s"
  shows "\<exists>gs t. grant_loop now s = Some (gs, t) \<and> sched_ok t \<and> windows_ok now t
    \<and> pass_outcome now gs s t \<and> penalties t = penalties s"
  using assms
proof (induction now s rule: grant_loop.induct)
  case (1 now s)
  note turn = grant_turn_spec[OF "1.prems"]
  show ?case
  proof (cases "grant_turn now s")
    case TurnPanic
    with turn show ?thesis by simp
  next
    case (TurnDone t)
    with turn show ?thesis using quiet_pass_outcome
      by (auto simp: grant_loop.simps[of now s] quiet_def)
  next
    case (TurnMore gs1 s1)
    with turn have ok: "sched_ok s1" "windows_ok now s1" and step: "gs1 = [] \<and> quiet s s1
        \<or> (\<exists>g. gs1 = [g] \<and> granted_job now s g \<and> grants (g_job g) s s1)" by auto
    obtain gs t where rest: "grant_loop now s1 = Some (gs, t)" "sched_ok t" "windows_ok now t"
      "pass_outcome now gs s1 t" "penalties t = penalties s1"
      using "1.IH"[OF TurnMore ok] by auto
    have "pass_outcome now (gs1 @ gs) s t" "penalties s1 = penalties s"
      using step rest(4) pass_outcome_quiet pass_outcome_grant
      by (auto simp: quiet_def grants_def)
    with rest TurnMore show ?thesis by (simp add: grant_loop.simps[of now s])
  qed
qed

lemma finish_pass_fields:
  "job_static (finish_pass now s) = job_static s" "in_flight (finish_pass now s) = in_flight s"
  "next_job_id (finish_pass now s) = next_job_id s" "aging (finish_pass now s) = aging s"
  "global_limits (finish_pass now s) = global_limits s" "chat_limits (finish_pass now s) = chat_limits s"
  "class_limits (finish_pass now s) = class_limits s" "jobs (finish_pass now s) = jobs s"
  "lanes (finish_pass now s) = lanes s"
  by (auto simp: finish_pass_def prune_expired_penalties_def prune_idle_chat_windows_def
      compact_reservations_if_needed_def job_static_def)

lemma finish_pass_ok:
  assumes "sched_ok s"
  shows "sched_ok (finish_pass now s)"
proof -
  let ?t = "prune_idle_chat_windows now (prune_expired_penalties now s)"
  have f: "jobs ?t = jobs s" "lanes ?t = lanes s" "in_flight ?t = in_flight s"
    "next_job_id ?t = next_job_id s" "\<And>r. refs_in r ?t = refs_in r s"
    by (simp_all add: prune_idle_chat_windows_def prune_expired_penalties_def)
  have st: "job_static ?t = job_static s" by (intro ext) (simp add: job_static_def f)
  have r: "ref_ok ?t = ref_ok s" by (intro ext) (simp add: ref_ok_def lane_of_def st f split: candidate_ref.split)
  have e: "lane_entry_ok ?t = lane_entry_ok s" "lane_of ?t = lane_of s"
    by (intro ext; simp add: lane_entry_ok_def lane_of_def st f)+
  have "sched_ok ?t"
    using assms refs_in_mono[of s ?t s]
    by (simp add: sched_ok_def ids_ok_def flights_ok_def lanes_ok_def st f r e)
  moreover have "quiet ?t (finish_pass now s)" unfolding finish_pass_def by (rule quiet_compact) simp
  moreover have "refs_in ?t (finish_pass now s)" unfolding finish_pass_def
    using \<open>sched_ok ?t\<close> by (intro refs_compact) (simp add: sched_ok_def)
  ultimately show ?thesis using quiet_sched_ok by blast
qed

lemma ws_is_idle_at: "ws_at now ws \<Longrightarrow> ws_at now (snd (ws_is_idle now ws))"
  by (induction ws)
     (auto simp: ws_at_def rw_is_idle_def Let_def split: prod.splits)

lemma finish_pass_windows:
  assumes "windows_ok now s"
  shows "windows_ok now (finish_pass now s)"
proof -
  have "list_all (\<lambda>p. ws_at now (snd p)) (hm_map_values (\<lambda>_ ws. snd (ws_is_idle now ws))
      (hm_retain (\<lambda>_ ws. \<not> fst (ws_is_idle now ws)) (chat_window_sets s)))"
    using assms ws_is_idle_at by (auto simp: windows_ok_def hm_map_values_def hm_retain_def list_all_iff)
  with assms have "windows_ok now (prune_idle_chat_windows now (prune_expired_penalties now s))"
    by (simp add: windows_ok_def prune_idle_chat_windows_def prune_expired_penalties_def)
  then show ?thesis unfolding finish_pass_def using wins_windows_ok wins_compact(5) by blast
qed

text \<open>
  The aging loop ends: a re-armed event lies in the future.  The quantum must leave room for 255
  multiples in a \<open>u64\<close> of nanoseconds, which any quantum below two years does.
\<close>

definition aging_ok :: "aging_policy \<Rightarrow> bool" where
  "aging_ok ag \<longleftrightarrow> 0 < ag_quantum ag \<and> HIGHEST \<le> ag_max_boost ag \<and> HIGHEST * ag_quantum ag < 2 ^ 64"

definition due_events :: "instant \<Rightarrow> scheduler_state \<Rightarrow> nat" where
  "due_events now s = length (filter (\<lambda>e. ae_at (the_rev e) \<le> now) (aging_events s))"

lemma length_filter_heap_push:
  "length (filter P (heap_push x h)) = length (filter P h) + (if P x then 1 else 0)"
  by (induction h) auto

lemma next_aging_future:
  assumes "aging_ok (aging s)" and "effective_priority job (aging s) now < HIGHEST"
  shows "now < j_ready_at job + (effective_priority job (aging s) now + 1 - m_priority (j_meta job))
      * (max (ag_quantum (aging s)) 1 mod 2 ^ 64) mod 2 ^ 64"
proof -
  define q where "q = ag_quantum (aging s)"
  define w where "w = now - j_ready_at job"
  have q: "0 < q" "HIGHEST * q < 2 ^ 64" "HIGHEST \<le> ag_max_boost (aging s)"
    using assms(1) by (simp_all add: aging_ok_def q_def)
  have e: "effective_priority job (aging s) now = min (m_priority (j_meta job)
      + min (w div q) (ag_max_boost (aging s))) HIGHEST"
    using q(1) by (simp add: effective_priority_def Let_def w_def q_def)
  with assms(2) q(3) have eq: "effective_priority job (aging s) now = m_priority (j_meta job) + w div q"
    and small: "w div q + 1 \<le> HIGHEST" by (auto simp: min_def split: if_splits)
  have qm: "max (ag_quantum (aging s)) 1 mod 2 ^ 64 = q"
  proof -
    have "q \<le> HIGHEST * q" by (simp add: HIGHEST_def)
    then have "q < 2 ^ 64" using q(2) by (rule le_less_trans)
    then show ?thesis using q(1) by (simp add: q_def)
  qed
  have "(w div q + 1) * q \<le> HIGHEST * q" using small by (rule mult_le_mono1)
  then have "(w div q + 1) * q < 2 ^ 64" using q(2) by (rule le_less_trans)
  moreover have "w < (w div q + 1) * q" using q(1)
    by (metis Suc_eq_plus1 dividend_less_times_div mult.commute mult_Suc_right)
  ultimately show ?thesis unfolding eq qm by (simp add: w_def)
qed

lemma due_schedule_aging:
  assumes "aging_ok (aging s)" and "aging t = aging s"
  shows "due_events now (schedule_aging r (effective_priority job (aging s) now)
      (m_priority (j_meta job)) (j_ready_at job) t) = due_events now t"
  using next_aging_future[OF assms(1), of job now]
  by (cases "effective_priority job (aging s) now < HIGHEST")
     (auto simp: schedule_aging_def due_events_def Let_def length_filter_heap_push assms(2))

lemma due_aging_event:
  assumes "aging_ok (aging s)"
  shows "due_events now (promote_aging_event r now s) = due_events now s"
proof -
  have f: "due_events now (t\<lparr>candidates := c\<rparr>) = due_events now t"
    "due_events now (t\<lparr>jobs := js\<rparr>) = due_events now t"
    "due_events now (t\<lparr>lanes := ls\<rparr>) = due_events now t" for t c js ls
    by (simp_all add: due_events_def)
  show ?thesis
    by (simp add: promote_aging_event_def Let_def due_schedule_aging[OF assms] f
        split: candidate_ref.split option.split list.split)
qed

lemma aging_loop_total:
  "aging_ok (aging s) \<Longrightarrow> due_events now s < n \<Longrightarrow> promote_aging_loop n now s \<noteq> None"
proof (induction n arbitrary: s)
  case (Suc n)
  show ?case
  proof (cases "aging_events s")
    case (Cons e es)
    show ?thesis
    proof (cases "now < ae_at (the_rev e)")
      case False
      let ?t = "promote_aging_event (ae_reference (the_rev e)) now (s\<lparr>aging_events := es\<rparr>)"
      have "quiet (s\<lparr>aging_events := es\<rparr>) ?t" by (rule quiet_aging_event) simp
      then have "aging_ok (aging ?t)" using Suc.prems(1) by (simp add: quiet_def)
      moreover have "due_events now ?t = due_events now (s\<lparr>aging_events := es\<rparr>)"
        using Suc.prems(1) by (intro due_aging_event) simp
      then have "due_events now ?t < n" using Suc.prems(2) Cons False by (simp add: due_events_def)
      ultimately show ?thesis using Suc.IH[of ?t] Cons False by simp
    qed (use Cons in simp)
  qed simp
qed simp

lemma promote_all_total: "aging_ok (aging s) \<Longrightarrow> promote_all now s \<noteq> None"
  using aging_loop_total[of s now "Suc (length (aging_events s))"]
  by (simp add: promote_all_def promote_aging_def due_events_def le_imp_less_Suc
      del: promote_aging_loop.simps)

lemma grant_ready_spec:
  assumes "sched_ok s" and "windows_ok now s" and "aging_ok (aging s)"
  shows "\<exists>gs t. grant_ready now s = Some (gs, t) \<and> sched_ok t \<and> windows_ok now t
    \<and> pass_outcome now gs s t"
proof -
  obtain s1 where s1: "promote_all now s = Some s1" using promote_all_total[OF assms(3)] by auto
  have q: "quiet s s1" by (rule quiet_promote_all[OF s1]) simp
  have ids: "ids_ok s" and refs: "refs_in s s" using assms(1) by (simp_all add: sched_ok_def)
  have ok1: "sched_ok s1" by (rule quiet_sched_ok[OF q assms(1) refs_promote_all[OF ids s1 refs]])
  have w1: "windows_ok now s1" using assms(2) wins_windows_ok[OF wins_promote_all[OF s1]] by simp
  obtain gs t where t: "grant_loop now s1 = Some (gs, t)" "sched_ok t" "windows_ok now t"
    "pass_outcome now gs s1 t" using grant_loop_spec[OF ok1 w1] by blast
  have "pass_outcome now gs s (finish_pass now t)"
    using pass_outcome_quiet[OF q t(4)] by (simp add: pass_outcome_def finish_pass_fields)
  with t s1 finish_pass_ok finish_pass_windows show ?thesis by (simp add: grant_ready_def)
qed

end
