(* ===== verification/Scheduler_Remove.thy ===== *)
theory Scheduler_Remove
  imports Scheduler_Arbitration
begin

text \<open>
  Removing a waiting job and cancelling: the job leaves the pending map, every other request, every
  permit and every limit stays, and the invariant holds again.
\<close>

definition removes :: "job_id \<Rightarrow> scheduler_state \<Rightarrow> scheduler_state \<Rightarrow> bool" where
  "removes j s t \<longleftrightarrow>
     (\<forall>i. job_static t i = (if i = j then None else job_static s i))
     \<and> in_flight t = in_flight s \<and> next_job_id t = next_job_id s \<and> aging t = aging s
     \<and> global_limits t = global_limits s \<and> chat_limits t = chat_limits s
     \<and> class_limits t = class_limits s \<and> penalties t = penalties s"

lemma removes_quiet: "removes j s t \<Longrightarrow> quiet t u \<Longrightarrow> removes j s u"
  unfolding removes_def quiet_static by (simp add: quiet_def)

lemma quiet_removes: "quiet s t \<Longrightarrow> removes j t u \<Longrightarrow> removes j s u"
  unfolding removes_def quiet_static by (simp add: quiet_def)

lemma removes_lane_of: "removes j s t \<Longrightarrow> lane_of t i = (if i = j then None else lane_of s i)"
  by (simp add: removes_def lane_of_def)

lemma removes_has: "removes j s t \<Longrightarrow> hm_has (jobs t) i \<longleftrightarrow> i \<noteq> j \<and> hm_has (jobs s) i"
  unfolding job_static_has removes_def by (elim conjE) (simp split: if_splits)

lemma removed_sched_ok:
  assumes ok: "sched_ok s" and r: "removes j s t" and "jobs t = hm_remove j (jobs s)"
    and "lanes t = lanes s" and "refs_in s t"
  shows "sched_ok t"
proof -
  note has = removes_has[OF r] and lane = removes_lane_of[OF r]
  have same: "next_job_id t = next_job_id s" "in_flight t = in_flight s" using r by (simp_all add: removes_def)
  have "hm_ok (jobs t)" using ok assms(3) by (simp add: sched_ok_def)
  moreover have "ids_ok t" using ok unfolding ids_ok_def has same sched_ok_def by blast
  moreover have "flights_ok t" using ok unfolding flights_ok_def has same sched_ok_def by metis
  moreover have "lanes_ok t"
  proof -
    have entry: "lane_entry_ok s l p \<Longrightarrow> lane_entry_ok t l p" for l p
      using r by (cases "snd p = j") (simp_all add: lane_entry_ok_def removes_def)
    have "lane_of t i = Some l \<Longrightarrow> lane_of s i = Some l" for i l
      using lane[of i] by (simp split: if_splits)
    with entry ok show ?thesis
      unfolding lanes_ok_def sched_ok_def assms(4) list_all_iff by blast
  qed
  moreover have "refs_in t t"
  proof (rule refs_in_mono[OF _ assms(5)])
    show "ref_ok s r \<Longrightarrow> ref_ok t r" for r
      using lane by (auto simp: ref_ok_def same split: candidate_ref.splits)
  qed
  ultimately show ?thesis by (simp add: sched_ok_def)
qed

lemma quiet_forget: "quiet s t \<Longrightarrow> quiet s (forget_in_lane l now t)"
  by (auto simp: forget_in_lane_def Let_def intro!: quiet_lane_insert split: option.split)

lemma refs_forget: "refs_in s t \<Longrightarrow> refs_in s (forget_in_lane l now t)"
  by (auto simp: forget_in_lane_def Let_def refs_in_def split: option.split)

lemma refs_adjust_reservation:
  assumes "refs_in s t"
  shows "refs_in s (t\<lparr>reservations := hm_adjust w (\<lambda>r. r\<lparr>res_stale := f r\<rparr>) (reservations t)\<rparr>)"
  using assms by (auto simp: refs_in_def hm_adjust_def list_all_iff reservation_refs_ok_def split: if_splits)

text \<open>The job's removal proper, between the release of its hold and the accounting of its lane.\<close>

definition before_removal :: "job_id \<Rightarrow> job_rec \<Rightarrow> instant \<Rightarrow> scheduler_state \<Rightarrow> scheduler_state" where
  "before_removal j job now s =
     (let s1 = (if j_not_before job \<noteq> None then s\<lparr>stale_delayed := stale_delayed s + 1\<rparr> else s);
          s2 = (if j_in_blocked_heap job then s1\<lparr>stale_blocked := stale_blocked s1 + 1\<rparr> else s1);
          s3 = (case j_parked_in job of
                  None \<Rightarrow> s2
                | Some w \<Rightarrow> s2\<lparr>reservations := hm_adjust w (\<lambda>r. r\<lparr>res_stale := res_stale r + 1\<rparr>)
                                                 (reservations s2)\<rparr>)
      in case j_reservation_owner job of
           None \<Rightarrow> s3
         | Some w \<Rightarrow> release_reservation w
              (case m_lane (j_meta job) of Some l \<Rightarrow> RefLane l | None \<Rightarrow> RefJob j) now s3)"

lemma remove_waiting_eq:
  assumes "hm_get (jobs s) j = Some job"
  shows "remove_waiting j now s =
     (let s5 = remove_coalesce_entry j (j_coalesce_key job) (before_removal j job now s);
          s6 = s5\<lparr>jobs := hm_remove j (jobs s5)\<rparr>
      in case m_lane (j_meta job) of
           Some l \<Rightarrow> forget_in_lane l now s6
         | None \<Rightarrow> if j_not_before job \<noteq> None then s6 else s6\<lparr>stale_candidates := stale_candidates s6 + 1\<rparr>)"
  using assms by (simp add: remove_waiting_def before_removal_def Let_def)

lemma before_removal_ok:
  assumes "refs_in s s"
  shows "quiet s (before_removal j job now s) \<and> refs_in s (before_removal j job now s)"
proof -
  let ?s1 = "if j_not_before job \<noteq> None then s\<lparr>stale_delayed := stale_delayed s + 1\<rparr> else s"
  let ?s2 = "if j_in_blocked_heap job then ?s1\<lparr>stale_blocked := stale_blocked ?s1 + 1\<rparr> else ?s1"
  have s2: "quiet s ?s2" "refs_in s ?s2" using assms by auto
  let ?s3 = "case j_parked_in job of None \<Rightarrow> ?s2
    | Some w \<Rightarrow> ?s2\<lparr>reservations := hm_adjust w (\<lambda>r. r\<lparr>res_stale := res_stale r + 1\<rparr>) (reservations ?s2)\<rparr>"
  have s3: "quiet s ?s3" "refs_in s ?s3"
    using s2 refs_adjust_reservation[OF s2(2)] by (cases "j_parked_in job"; simp)+
  have "before_removal j job now s = (case j_reservation_owner job of None \<Rightarrow> ?s3
    | Some w \<Rightarrow> release_reservation w
        (case m_lane (j_meta job) of Some l \<Rightarrow> RefLane l | None \<Rightarrow> RefJob j) now ?s3)"
    unfolding before_removal_def Let_def by (rule refl)
  then show ?thesis using s3 quiet_release[OF s3(1)] refs_release[OF s3(2)]
    by (cases "j_reservation_owner job") simp_all
qed

lemma remove_waiting_spec:
  assumes ok: "sched_ok s" and job: "hm_get (jobs s) j = Some job"
  shows "sched_ok (remove_waiting j now s) \<and> removes j s (remove_waiting j now s)"
proof -
  let ?s4 = "before_removal j job now s"
  let ?s5 = "remove_coalesce_entry j (j_coalesce_key job) ?s4"
  let ?s6 = "?s5\<lparr>jobs := hm_remove j (jobs ?s5)\<rparr>"
  have s4: "quiet s ?s4" "refs_in s ?s4" using before_removal_ok ok by (simp_all add: sched_ok_def)
  have ok4: "sched_ok ?s4" by (rule quiet_sched_ok[OF s4(1) ok s4(2)])
  have r: "removes j ?s4 ?s6" by (auto simp: removes_def job_static_def)
  have ok6: "sched_ok ?s6"
    by (rule removed_sched_ok[OF ok4 r]) (use ok4 in \<open>simp_all add: sched_ok_def\<close>)
  have tail: "quiet ?s6 (remove_waiting j now s) \<and> refs_in ?s6 (remove_waiting j now s)"
    using ok6 quiet_forget[OF quiet_refl] refs_forget
    by (auto simp: remove_waiting_eq[OF job] Let_def sched_ok_def simp del: quiet_refl split: option.split)
       simp_all
  have "removes j s (remove_waiting j now s)"
    using removes_quiet[OF quiet_removes[OF s4(1) r]] tail by blast
  with tail ok6 quiet_sched_ok show ?thesis by blast
qed

lemma cancel_spec:
  assumes ok: "sched_ok s" and job: "hm_get (jobs s) j = Some job"
  shows "sched_ok (cancel j now s) \<and> removes j s (cancel j now s)"
proof -
  let ?t = "remove_waiting j now s"
  have t: "sched_ok ?t" "removes j s ?t" using remove_waiting_spec[OF assms] by blast+
  have q: "quiet ?t (cancel j now s)" unfolding cancel_def by (intro quiet_compact quiet_refl)
  have "refs_in ?t (cancel j now s)" using t(1) unfolding cancel_def sched_ok_def
    by (intro refs_compact) simp
  with q t quiet_sched_ok removes_quiet show ?thesis by blast
qed

end
