(* ===== verification/Scheduler_Insert.thy ===== *)
theory Scheduler_Insert
  imports Scheduler_Remove
begin

text \<open>
  Inserting a job: its place in its lane, the renumbering of a lane whose order counter has
  wrapped, and the whole of \<open>enqueue\<close>, on success and on every error.
\<close>

definition job_req :: "scheduler_state \<Rightarrow> job_id
    \<Rightarrow> (outbound_meta \<times> correlation_id option \<times> coalesce_key option) option" where
  "job_req s j = map_option (\<lambda>b. (j_meta b, j_correlation b, j_coalesce_key b)) (hm_get (jobs s) j)"

lemma job_req_static: "job_req s j = map_option (\<lambda>(m, c, k, n). (m, c, k)) (job_static s j)"
  by (simp add: job_req_def job_static_def static_def comp_def option.map_comp)

lemma lane_of_req: "lane_of s j = Option.bind (job_req s j) (\<lambda>b. m_lane (fst b))"
  by (cases "hm_get (jobs s) j") (simp_all add: lane_of_def job_req_def job_static_def static_def)

lemma job_req_has: "hm_has (jobs s) j \<longleftrightarrow> job_req s j \<noteq> None"
  by (simp add: job_req_def)

definition same_env :: "scheduler_state \<Rightarrow> scheduler_state \<Rightarrow> bool" where
  "same_env s t \<longleftrightarrow> in_flight t = in_flight s \<and> aging t = aging s \<and> global_limits t = global_limits s
     \<and> chat_limits t = chat_limits s \<and> class_limits t = class_limits s \<and> penalties t = penalties s"

lemma same_env_refl [simp]: "same_env s s"
  by (simp add: same_env_def)

lemma same_env_trans: "same_env s t \<Longrightarrow> same_env t u \<Longrightarrow> same_env s u"
  by (simp add: same_env_def)

lemma quiet_same_env: "quiet s t \<Longrightarrow> same_env s t"
  by (simp add: quiet_def same_env_def)

lemma quiet_req: "quiet s t \<Longrightarrow> job_req t = job_req s"
  by (intro ext) (simp add: job_req_static quiet_def)

subsection \<open>Renumbering a lane\<close>

text \<open>The lane invariant while the new job \<open>j\<close> is pending but not yet in its lane.\<close>

definition lanes_but :: "job_id \<Rightarrow> scheduler_state \<Rightarrow> bool" where
  "lanes_but j s \<longleftrightarrow>
     (\<forall>l ln. hm_get (lanes s) l = Some ln \<longrightarrow>
        list_all (lane_entry_ok s l) (ln_pending ln) \<and> sorted_wrt (<) (ln_pending ln)
        \<and> j \<notin> snd ` set (ln_pending ln))
     \<and> (\<forall>i l. i \<noteq> j \<longrightarrow> lane_of s i = Some l \<longrightarrow>
          (\<exists>ln. hm_get (lanes s) l = Some ln \<and> i \<in> snd ` set (ln_pending ln)))"

lemma fold_set_order:
  assumes "\<And>m. (m, i) \<in> set ps \<Longrightarrow> m = n"
  shows "hm_get (fold set_order ps js) i
    = (if i \<in> snd ` set ps then map_option (\<lambda>b. b\<lparr>j_lane_order := Some n\<rparr>) (hm_get js i) else hm_get js i)"
  using assms
proof (induction ps arbitrary: js)
  case (Cons p ps)
  have IH: "hm_get (fold set_order ps js') i = (if i \<in> snd ` set ps
      then map_option (\<lambda>b. b\<lparr>j_lane_order := Some n\<rparr>) (hm_get js' i) else hm_get js' i)" for js'
    by (rule Cons.IH) (simp add: Cons.prems)
  show ?case
  proof (cases "snd p = i")
    case True
    then have "fst p = n" using Cons.prems[of "fst p"] by (cases p) simp
    with True have "hm_get (set_order p js) i = map_option (\<lambda>b. b\<lparr>j_lane_order := Some n\<rparr>) (hm_get js i)"
      by (simp add: set_order_def)
    with True IH[of "set_order p js"] show ?thesis
      by (cases "hm_get js i") simp_all
  next
    case False
    then have "hm_get (set_order p js) i = hm_get js i" by (auto simp: set_order_def)
    with False IH[of "set_order p js"] show ?thesis by auto
  qed
qed simp

lemma fold_set_order_keys: "map fst (fold set_order ps js) = map fst js"
  by (induction ps arbitrary: js) (simp_all add: set_order_def)

lemma fold_set_order_req:
  "map_option (\<lambda>b. (j_meta b, j_correlation b, j_coalesce_key b)) (hm_get (fold set_order ps js) i)
     = map_option (\<lambda>b. (j_meta b, j_correlation b, j_coalesce_key b)) (hm_get js i)"
proof (induction ps arbitrary: js)
  case (Cons p ps)
  have "map_option (\<lambda>b. (j_meta b, j_correlation b, j_coalesce_key b)) (hm_get (set_order p js) i)
      = map_option (\<lambda>b. (j_meta b, j_correlation b, j_coalesce_key b)) (hm_get js i)"
    by (cases "hm_get js i"; cases "i = snd p") (simp_all add: set_order_def)
  with Cons show ?case by simp
qed simp

lemma renumbered_nth: "k < length ps \<Longrightarrow> renumbered ps ! k = (k, snd (ps ! k))"
  by (simp add: renumbered_def nth_enumerate_eq)

lemma length_renumbered [simp]: "length (renumbered ps) = length ps"
  by (simp add: renumbered_def)

lemma set_renumbered: "(n, i) \<in> set (renumbered ps) \<longleftrightarrow> n < length ps \<and> snd (ps ! n) = i"
  by (auto simp: in_set_conv_nth renumbered_nth)

lemma renumbered_ids: "snd ` set (renumbered ps) = snd ` set ps"
proof
  show "snd ` set (renumbered ps) \<subseteq> snd ` set ps"
    by (auto simp: in_set_conv_nth renumbered_nth intro!: rev_image_eqI[OF nth_mem])
  show "snd ` set ps \<subseteq> snd ` set (renumbered ps)"
    by (force simp: in_set_conv_nth renumbered_nth set_renumbered image_iff)
qed

lemma sorted_renumbered: "sorted_wrt (<) (renumbered ps)"
  by (auto simp: sorted_wrt_iff_nth_less renumbered_nth)

lemma rebase_lane_orders_req:
  "job_req (rebase_lane_orders l s) = job_req s" "lane_of (rebase_lane_orders l s) = lane_of s"
  "map fst (jobs (rebase_lane_orders l s)) = map fst (jobs s)"
  "same_env s (rebase_lane_orders l s)" "next_job_id (rebase_lane_orders l s) = next_job_id s"
  "refs_in r (rebase_lane_orders l s) = refs_in r s" "wins (rebase_lane_orders l s) = wins s"
proof -
  show req: "job_req (rebase_lane_orders l s) = job_req s"
    by (intro ext) (simp add: rebase_lane_orders_def job_req_def Let_def fold_set_order_req split: option.split)
  then show "lane_of (rebase_lane_orders l s) = lane_of s" by (intro ext) (simp add: lane_of_req)
qed (simp_all add: rebase_lane_orders_def fold_set_order_keys same_env_def Let_def split: option.split)

lemma entry_order_unique:
  assumes "list_all (lane_entry_ok s l) ps" and "sorted_wrt (<) ps" and "hm_has (jobs s) i"
    and "(m, i) \<in> set (renumbered ps)" and "(n, i) \<in> set (renumbered ps)"
  shows "m = n"
proof -
  have at: "k < length ps \<and> snd (ps ! k) = i \<Longrightarrow> fst (ps ! k) = fst (ps ! k')"
    if "k' < length ps" "snd (ps ! k') = i" for k k'
  proof -
    assume k: "k < length ps \<and> snd (ps ! k) = i"
    have "lane_entry_ok s l (ps ! k)" "lane_entry_ok s l (ps ! k')"
      using assms(1) k that by (simp_all add: list_all_length)
    moreover have "job_static s i \<noteq> None" using assms(3) unfolding job_static_has .
    then obtain b where "job_static s i = Some b" by blast
    ultimately show ?thesis using k that by (simp add: lane_entry_ok_def)
  qed
  have mn: "m < length ps" "snd (ps ! m) = i" "n < length ps" "snd (ps ! n) = i"
    using assms(4,5) by (simp_all add: set_renumbered)
  then have "ps ! m = ps ! n" using at[of n m] by (simp add: prod_eq_iff)
  moreover have "distinct ps" using assms(2) by (simp add: strict_sorted_iff)
  ultimately show ?thesis using mn nth_eq_iff_index_eq by blast
qed

lemma rebase_lane_orders_ok:
  assumes "lanes_but j s"
  shows "lanes_but j (rebase_lane_orders l s)"
    and "job_static (rebase_lane_orders l s) j = job_static s j"
proof -
  let ?t = "rebase_lane_orders l s"
  have "lanes_but j ?t \<and> job_static ?t j = job_static s j"
  proof (cases "\<exists>ln. hm_get (lanes s) l = Some ln \<and> ln_next_order ln = 0 \<and> ln_pending ln \<noteq> []")
    case False
    then have "?t = s" by (auto simp: rebase_lane_orders_def split: option.split)
    with assms show ?thesis by simp
  next
    case True
    then obtain ln where ln: "hm_get (lanes s) l = Some ln"
      and rebase: "ln_next_order ln = 0" "ln_pending ln \<noteq> []" by blast
    let ?ps = "ln_pending ln"
    have js: "jobs ?t = fold set_order (renumbered ?ps) (jobs s)"
      and ls: "lanes ?t = hm_insert l (ln\<lparr>ln_pending := renumbered ?ps,
        ln_next_order := length (renumbered ?ps)\<rparr>) (lanes s)"
      using ln rebase by (simp_all add: rebase_lane_orders_def Let_def)
    have ps: "list_all (lane_entry_ok s l) ?ps" "sorted_wrt (<) ?ps" "j \<notin> snd ` set ?ps"
      using assms ln unfolding lanes_but_def by blast+
    note same = rebase_lane_orders_req(5)[of l s] and lane = rebase_lane_orders_req(2)[of l s]
    have out: "job_static ?t i = job_static s i" if "i \<notin> snd ` set ?ps" for i
    proof -
      have "(m, i) \<notin> set (renumbered ?ps)" for m
        using that renumbered_ids[of ?ps] by (metis imageI snd_conv)
      then show ?thesis using that fold_set_order[of i "renumbered ?ps" undefined "jobs s"]
        by (simp add: job_static_def js renumbered_ids)
    qed
    have inside: "lane_entry_ok ?t l (n, i)" if e: "(n, i) \<in> set (renumbered ?ps)" for n i
    proof -
      obtain p where p: "p \<in> set ?ps" "snd p = i"
        using e renumbered_ids[of ?ps] by (metis imageE imageI snd_conv)
      then have entry: "lane_entry_ok s l p" using ps(1) by (simp add: list_all_iff)
      show ?thesis
      proof (cases "hm_get (jobs s) i")
        case None
        then have "job_static s i = None" by (simp add: job_static_def)
        moreover have "hm_has (jobs ?t) i \<longleftrightarrow> hm_has (jobs s) i"
          unfolding job_req_has rebase_lane_orders_req(1) by (rule refl)
        ultimately have "job_static ?t i = None" using None by (simp add: job_static_def)
        with entry p show ?thesis by (simp add: lane_entry_ok_def same)
      next
        case (Some job)
        have "m = n" if "(m, i) \<in> set (renumbered ?ps)" for m
          by (rule entry_order_unique[OF ps(1,2) _ that e]) (simp add: Some)
        moreover have "i \<in> snd ` set (renumbered ?ps)" using e by (metis imageI snd_conv)
        ultimately have "hm_get (jobs ?t) i = Some (job\<lparr>j_lane_order := Some n\<rparr>)"
          using fold_set_order[of i "renumbered ?ps" n "jobs s"] Some by (simp add: js)
        moreover have "m_lane (j_meta job) = Some l"
          using entry p Some by (simp add: lane_entry_ok_def job_static_def static_def)
        ultimately show ?thesis using entry p
          by (simp add: lane_entry_ok_def same job_static_def static_def)
      qed
    qed
    have other: "lane_entry_ok ?t l' p" if "lane_entry_ok s l' p" "l' \<noteq> l" for l' p
    proof (cases "snd p \<in> snd ` set ?ps")
      case False
      with out that(1) show ?thesis by (simp add: lane_entry_ok_def same)
    next
      case True
      then obtain q where "q \<in> set ?ps" "snd q = snd p" by auto
      then have "lane_entry_ok s l q" using ps(1) by (simp add: list_all_iff)
      with that \<open>snd q = snd p\<close> have n: "job_static s (snd p) = None"
        by (cases "job_static s (snd p)") (auto simp: lane_entry_ok_def)
      have "job_req ?t (snd p) = job_req s (snd p)" by (simp add: rebase_lane_orders_req(1))
      with n have "job_static ?t (snd p) = None" by (simp add: job_req_static)
      with that(1) show ?thesis by (simp add: lane_entry_ok_def same)
    qed
    have "list_all (lane_entry_ok ?t l') (ln_pending ln') \<and> sorted_wrt (<) (ln_pending ln')
        \<and> j \<notin> snd ` set (ln_pending ln')" if "hm_get (lanes ?t) l' = Some ln'" for l' ln'
    proof (cases "l' = l")
      case True
      with that ls have "ln_pending ln' = renumbered ?ps" by auto
      with True inside ps(3) show ?thesis
        by (auto simp: list_all_iff sorted_renumbered renumbered_ids)
    next
      case False
      with that ls have "hm_get (lanes s) l' = Some ln'" by simp
      then have "list_all (lane_entry_ok s l') (ln_pending ln')" "sorted_wrt (<) (ln_pending ln')"
        "j \<notin> snd ` set (ln_pending ln')" using assms unfolding lanes_but_def by blast+
      with other False show ?thesis by (simp add: list_all_iff)
    qed
    moreover have "\<exists>ln. hm_get (lanes ?t) l' = Some ln \<and> i \<in> snd ` set (ln_pending ln)"
      if i: "i \<noteq> j" "lane_of ?t i = Some l'" for i l'
    proof -
      have "\<exists>ln. hm_get (lanes s) l' = Some ln \<and> i \<in> snd ` set (ln_pending ln)"
        using assms i unfolding lanes_but_def lane by blast
      then show ?thesis using ln by (cases "l' = l") (auto simp: ls renumbered_ids)
    qed
    ultimately show ?thesis using out[OF ps(3)] unfolding lanes_but_def by blast
  qed
  then show "lanes_but j ?t" "job_static ?t j = job_static s j" by blast+
qed

subsection \<open>A place in the lane\<close>

lemma sorted_wrt_bts_insert: 
  fixes x :: "'a::linorder"
  assumes "sorted_wrt (<) xs"
  shows "sorted_wrt (<) (bts_insert x xs)"
  using strict_sorted_bts_insert[of xs x] assms by (simp add: strict_sorted_iff)

lemma lanes_but_new_lane:
  assumes "lanes_but j s" and "\<not> hm_has (lanes s) l"
  shows "lanes_but j (s\<lparr>lanes := hm_insert l (lane_new mode) (lanes s)\<rparr>)"
proof -
  let ?t = "s\<lparr>lanes := hm_insert l (lane_new mode) (lanes s)\<rparr>"
  have e: "lane_entry_ok ?t = lane_entry_ok s" "lane_of ?t = lane_of s"
    by (intro ext; simp add: lane_entry_ok_def lane_of_def job_static_def)+
  have "list_all (lane_entry_ok s l') (ln_pending ln) \<and> sorted_wrt (<) (ln_pending ln)
      \<and> j \<notin> snd ` set (ln_pending ln)" if "hm_get (lanes ?t) l' = Some ln" for l' ln
  proof (cases "l' = l")
    case True
    with that show ?thesis by (auto simp: lane_new_def)
  next
    case False
    with that have "hm_get (lanes s) l' = Some ln" by simp
    then show ?thesis using assms(1) unfolding lanes_but_def by blast
  qed
  moreover have "\<exists>ln. hm_get (lanes ?t) l' = Some ln \<and> i \<in> snd ` set (ln_pending ln)"
    if i: "i \<noteq> j" "lane_of s i = Some l'" for i l'
  proof -
    obtain ln where ln: "hm_get (lanes s) l' = Some ln" "i \<in> snd ` set (ln_pending ln)"
      using assms(1) i unfolding lanes_but_def by blast
    then have "l' \<noteq> l" using assms(2) by auto
    with ln show ?thesis by simp
  qed
  ultimately show ?thesis unfolding lanes_but_def e by blast
qed

lemma put_in_lane:
  assumes lb: "lanes_but j s" and lane: "hm_get (lanes s) l = Some ln0" and j: "lane_of s j = Some l"
    and "j < next_job_id s" and f: "\<And>n. ln_pending (f n) = bts_insert (order, j) (ln_pending n)"
  shows "lanes_ok (s\<lparr>lanes := hm_adjust l f (lanes s), jobs := set_order (order, j) (jobs s)\<rparr>)"
    (is "lanes_ok ?t")
proof -
  have st: "job_static ?t i = (if i = j then map_option (\<lambda>(m, c, k, n). (m, c, k, Some order)) (job_static s j)
      else job_static s i)" for i
    by (cases "hm_get (jobs s) j") (auto simp: job_static_def set_order_def static_def)
  have lo: "lane_of ?t i = lane_of s i" for i
    by (cases "job_static s j") (auto simp: lane_of_def st)
  obtain b where b: "job_static s j = Some b" "m_lane (fst b) = Some l"
    using j by (auto simp: lane_of_def split: option.splits)
  have new: "lane_entry_ok ?t l (order, j)"
    using b assms(4) by (cases b) (auto simp: lane_entry_ok_def st)
  have old: "lane_entry_ok ?t l' p" if "lane_entry_ok s l' p" "snd p \<noteq> j" for l' p
    using that by (simp add: lane_entry_ok_def st)
  have "list_all (lane_entry_ok ?t l') (ln_pending ln) \<and> sorted_wrt (<) (ln_pending ln)"
    if t: "hm_get (lanes ?t) l' = Some ln" for l' ln
  proof -
    obtain ln1 where ln1: "hm_get (lanes s) l' = Some ln1"
      "ln_pending ln = (if l' = l then bts_insert (order, j) (ln_pending ln1) else ln_pending ln1)"
      using t f by (auto split: if_splits)
    have "list_all (lane_entry_ok s l') (ln_pending ln1)" "sorted_wrt (<) (ln_pending ln1)"
      "j \<notin> snd ` set (ln_pending ln1)" using lb ln1(1) unfolding lanes_but_def by blast+
    moreover from this have "\<forall>p\<in>set (ln_pending ln1). snd p \<noteq> j" by (metis imageI)
    then have "list_all (lane_entry_ok ?t l') (ln_pending ln1)"
      using old calculation(1) by (simp add: list_all_iff)
    ultimately show ?thesis using ln1(2) new
      by (auto simp: list_all_iff sorted_wrt_bts_insert)
  qed
  moreover have "\<exists>ln. hm_get (lanes ?t) l' = Some ln \<and> i \<in> snd ` set (ln_pending ln)"
    if i: "lane_of s i = Some l'" for i l'
  proof (cases "i = j")
    case True
    with i j lane f show ?thesis by auto
  next
    case False
    with lb i obtain ln where "hm_get (lanes s) l' = Some ln" "i \<in> snd ` set (ln_pending ln)"
      unfolding lanes_but_def by blast
    then show ?thesis using f by (cases "l' = l") auto
  qed
  ultimately show ?thesis unfolding lanes_ok_def lo by blast
qed

lemma insert_lane_pending_ok:
  assumes lb: "lanes_but j s" and j: "lane_of s j = Some l" "j < next_job_id s"
    and ins: "insert_lane_pending l j inherited mode s = (order, u)"
  shows "lanes_ok (u\<lparr>jobs := set_order (order, j) (jobs u)\<rparr>)" and "job_req u = job_req s"
    and "map fst (jobs u) = map fst (jobs s)" and "same_env s u" and "next_job_id u = next_job_id s"
    and "refs_in r u = refs_in r s" and "wins u = wins s"
proof -
  define s1 where "s1 = (if hm_has (lanes s) l then s else s\<lparr>lanes := hm_insert l (lane_new mode) (lanes s)\<rparr>)"
  have s1: "lanes_but j s1" "lane_of s1 = lane_of s" "next_job_id s1 = next_job_id s"
    "hm_has (lanes s1) l" "job_req s1 = job_req s" "jobs s1 = jobs s" "same_env s s1"
    "refs_in r s1 = refs_in r s" "wins s1 = wins s"
    using lb lanes_but_new_lane[OF lb]
    by (auto simp: s1_def lane_of_def job_static_def job_req_def same_env_def fun_eq_iff)
  have "lanes_ok (u\<lparr>jobs := set_order (order, j) (jobs u)\<rparr>) \<and> job_req u = job_req s
    \<and> map fst (jobs u) = map fst (jobs s) \<and> same_env s u \<and> next_job_id u = next_job_id s
    \<and> refs_in r u = refs_in r s \<and> wins u = wins s"
  proof (cases inherited)
    case (Some n)
    let ?f = "\<lambda>ln. ln\<lparr>ln_pending := bts_insert (n, j) (ln_pending ln)\<rparr>"
    have u: "order = n" "u = s1\<lparr>lanes := hm_adjust l ?f (lanes s1)\<rparr>"
      using ins Some unfolding insert_lane_pending_def s1_def[symmetric] Let_def by auto
    obtain ln where "hm_get (lanes s1) l = Some ln" using s1(4) by auto
    from put_in_lane[OF s1(1) this, of ?f n] j s1 show ?thesis
      by (simp add: u same_env_def job_req_def fun_eq_iff)
  next
    case None
    let ?s2 = "rebase_lane_orders l s1"
    note req = rebase_lane_orders_req[where l = l and s = s1]
    have lane2: "hm_has (lanes ?s2) l"
      using s1(4) by (auto simp: rebase_lane_orders_def Let_def split: option.split)
    define n where "n = (case hm_get (lanes ?s2) l of None \<Rightarrow> 0 | Some n \<Rightarrow> ln_next_order n)"
    let ?f = "\<lambda>ln. ln\<lparr>ln_next_order := wrapping_add n 1, ln_pending := bts_insert (n, j) (ln_pending ln)\<rparr>"
    have u: "order = n" "u = ?s2\<lparr>lanes := hm_adjust l ?f (lanes ?s2)\<rparr>"
      using ins None unfolding insert_lane_pending_def s1_def[symmetric] n_def[symmetric] Let_def by auto
    obtain ln where "hm_get (lanes ?s2) l = Some ln" using lane2 by auto
    from put_in_lane[OF rebase_lane_orders_ok(1)[OF s1(1)] this, of ?f n] j s1 req show ?thesis
      by (simp add: u same_env_def) (simp add: job_req_def fun_eq_iff)
  qed
  then show "lanes_ok (u\<lparr>jobs := set_order (order, j) (jobs u)\<rparr>)" "job_req u = job_req s"
    "map fst (jobs u) = map fst (jobs s)" "same_env s u" "next_job_id u = next_job_id s"
    "refs_in r u = refs_in r s" "wins u = wins s" by blast+
qed

subsection \<open>Inserting a job\<close>

lemma req_parts:
  assumes "job_req t = job_req s" and "in_flight t = in_flight s" and "next_job_id t = next_job_id s"
  shows "ids_ok t = ids_ok s" and "flights_ok t = flights_ok s" and "ref_ok t = ref_ok s"
proof -
  have lo: "lane_of t = lane_of s" by (intro ext) (simp add: lane_of_req assms(1))
  show "ids_ok t = ids_ok s" "flights_ok t = flights_ok s"
    unfolding ids_ok_def flights_ok_def job_req_has assms by (rule refl)+
  show "ref_ok t = ref_ok s" by (intro ext) (simp add: ref_ok_def lo assms split: candidate_ref.split)
qed

definition inserts :: "job_id \<Rightarrow> outbound_meta \<times> correlation_id option \<times> coalesce_key option
    \<Rightarrow> scheduler_state \<Rightarrow> scheduler_state \<Rightarrow> bool" where
  "inserts j b s t \<longleftrightarrow> job_req t = (job_req s)(j \<mapsto> b) \<and> same_env s t
     \<and> j = next_job_id s \<and> next_job_id t = next_job_id s + 1"

lemma inserts_quiet: "inserts j b s t \<Longrightarrow> quiet t u \<Longrightarrow> inserts j b s u"
  using quiet_req[of t u] by (auto simp: inserts_def quiet_def same_env_def)

text \<open>The state just after the job map took the job.\<close>

definition with_job :: "job_rec \<Rightarrow> scheduler_state \<Rightarrow> scheduler_state" where
  "with_job job s = s\<lparr>next_job_id := next_job_id s + 1, jobs := hm_insert (next_job_id s) job (jobs s)\<rparr>"

lemma with_job_ok:
  assumes ok: "sched_ok s" and m: "m_lane (j_meta job) = lane"
  defines "t \<equiv> with_job job s" and "j \<equiv> next_job_id s"
  shows "hm_ok (jobs t)" and "ids_ok t" and "flights_ok t" and "lanes_but j t" and "refs_in t t"
    and "lane_of t j = lane" and "j < next_job_id t"
    and "inserts j (j_meta job, j_correlation job, j_coalesce_key job) s t"
proof -
  have ids: "ids_ok s" and fl: "flights_ok s" and lanes: "lanes_ok s" and refs: "refs_in s s"
    using ok by (simp_all add: sched_ok_def)
  have fresh: "\<not> hm_has (jobs s) j" "\<not> hm_has (in_flight s) j"
    using ids fl unfolding ids_ok_def flights_ok_def j_def by blast+
  have has: "hm_has (jobs t) i \<longleftrightarrow> i = j \<or> hm_has (jobs s) i" for i
    by (simp add: t_def with_job_def j_def)
  have fields: "next_job_id t = j + 1" "in_flight t = in_flight s" "lanes t = lanes s"
    by (simp_all add: t_def with_job_def j_def)
  have st: "job_static t i = (if i = j then Some (static job) else job_static s i)" for i
    by (simp add: t_def with_job_def j_def job_static_def)
  have lo: "lane_of t i = (if i = j then lane else lane_of s i)" for i
    by (simp add: lane_of_def st static_def m)
  show "hm_ok (jobs t)" using ok by (simp add: t_def with_job_def sched_ok_def)
  show "ids_ok t" using ids unfolding ids_ok_def has fields by (simp add: j_def) force
  show "flights_ok t" using fl fresh unfolding flights_ok_def has fields j_def by (simp) force
  show "lane_of t j = lane" by (simp add: lo)
  show "j < next_job_id t" by (simp add: fields)
  have entry: "lane_entry_ok t l p \<and> snd p \<noteq> j" if "lane_entry_ok s l p" for l p
    using that by (auto simp: lane_entry_ok_def st fields j_def)
  have "list_all (lane_entry_ok t l) (ln_pending ln) \<and> sorted_wrt (<) (ln_pending ln)
      \<and> j \<notin> snd ` set (ln_pending ln)" if "hm_get (lanes t) l = Some ln" for l ln
  proof -
    have "list_all (lane_entry_ok s l) (ln_pending ln)" "sorted_wrt (<) (ln_pending ln)"
      using lanes that unfolding lanes_ok_def fields by blast+
    with entry show ?thesis by (auto simp: list_all_iff)
  qed
  moreover have "\<exists>ln. hm_get (lanes t) l = Some ln \<and> i \<in> snd ` set (ln_pending ln)"
    if "i \<noteq> j" "lane_of t i = Some l" for i l
    using lanes that unfolding lanes_ok_def fields lo by simp
  ultimately show "lanes_but j t" unfolding lanes_but_def by blast
  have "refs_in s t" using refs by (simp add: t_def with_job_def)
  then show "refs_in t t"
    by (rule refs_in_mono[rotated]) (auto simp: ref_ok_def fields lo j_def split: candidate_ref.splits)
  show "inserts j (j_meta job, j_correlation job, j_coalesce_key job) s t"
    by (auto simp: inserts_def j_def t_def with_job_def job_req_def same_env_def fun_eq_iff)
qed

lemma place_job_ok:
  assumes "hm_ok (jobs s)" and "ids_ok s" and "flights_ok s" and "lanes_but j s" and "refs_in s s"
    and j: "hm_get (jobs s) j = Some job0" "j_meta job0 = j_meta job" "j < next_job_id s"
  shows "\<exists>u. sched_ok u \<and> job_req u = job_req s \<and> same_env s u \<and> next_job_id u = next_job_id s
    \<and> quiet u (place_job j job superseded opts s) \<and> refs_in u (place_job j job superseded opts s)"
proof (cases "m_lane (j_meta job)")
  case None
  have lo: "lane_of s j = None" using j None by (simp add: lane_of_def job_static_def static_def)
  have "\<exists>ln. hm_get (lanes s) l = Some ln \<and> i \<in> snd ` set (ln_pending ln)"
    if "lane_of s i = Some l" for i l
    using assms(4) that lo unfolding lanes_but_def by (cases "i = j") auto
  then have "lanes_ok s" using assms(4) unfolding lanes_ok_def lanes_but_def by blast
  then have "sched_ok s" using assms by (simp add: sched_ok_def)
  moreover have "ref_ok s (RefJob j)" using lo j(3) by (simp add: ref_ok_def)
  ultimately show ?thesis using assms(5) None
    by (intro exI[of _ s]) (simp add: place_job_def quiet_push_job refs_push_job)
next
  case (Some l)
  have lo: "lane_of s j = Some l" using j Some by (simp add: lane_of_def job_static_def static_def)
  obtain order s1 where ins: "insert_lane_pending l j (j_lane_order job) (opt_lane_mode opts) s = (order, s1)"
    by fastforce
  note i = insert_lane_pending_ok[OF assms(4) lo j(3) ins]
  let ?u = "s1\<lparr>jobs := set_order (order, j) (jobs s1)\<rparr>"
  have req: "job_req ?u = job_req s"
    using i(2) fold_set_order_req[of "[(order, j)]" "jobs s1"]
    by (auto simp: job_req_def fun_eq_iff)
  have same: "in_flight ?u = in_flight s" "next_job_id ?u = next_job_id s" "same_env s ?u"
    using i(4,5) by (simp_all add: same_env_def)
  note parts = req_parts[OF req same(1,2)]
  have "map fst (jobs ?u) = map fst (jobs s)" using i(3) by (simp add: set_order_def)
  moreover have "refs_in ?u ?u"
    using refs_in_mono[of s ?u ?u] i(6)[of s] assms(5) parts(3) by simp
  ultimately have ok: "sched_ok ?u" using i(1) assms parts by (simp add: sched_ok_def)
  let ?v = "if (case superseded of None \<Rightarrow> False | Some old \<Rightarrow>
      (case hm_get (lanes ?u) l of None \<Rightarrow> False
       | Some n \<Rightarrow> (case ln_pending n of [] \<Rightarrow> False | p # _ \<Rightarrow> snd p = old)))
    then ?u\<lparr>lanes := hm_adjust l (\<lambda>n. n\<lparr>ln_in_candidate_heap := False, ln_candidate_effective := 0\<rparr>)
      (lanes ?u)\<rparr> else ?u"
  have p: "place_job j job superseded opts s = push_lane_head_candidate l (opt_now opts) ?v"
    using Some ins unfolding place_job_def Let_def by simp
  have "quiet ?u (?u\<lparr>lanes := hm_adjust l (\<lambda>n. n\<lparr>ln_in_candidate_heap := False,
      ln_candidate_effective := 0\<rparr>) (lanes ?u)\<rparr>)"
    by (rule quiet_lane_adjust) simp_all
  then have "quiet ?u ?v" "refs_in ?u ?v" using \<open>refs_in ?u ?u\<close> by simp_all
  then have "quiet ?u (place_job j job superseded opts s)" "refs_in ?u (place_job j job superseded opts s)"
    unfolding p using quiet_push_lane refs_push_lane by blast+
  with ok req same show ?thesis by blast
qed

lemma compact_all_ok:
  assumes "quiet u t" and "refs_in u t"
  shows "quiet u (compact_blocked_if_needed (compact_candidate_heap_if_needed (compact_delayed_if_needed t)))"
    and "refs_in u (compact_blocked_if_needed (compact_candidate_heap_if_needed (compact_delayed_if_needed t)))"
  using assms by (intro quiet_compact refs_compact; simp)+

text \<open>A successful insertion: one more pending job with the next id, and the invariant holds.\<close>

lemma sched_ok_coalesce: "sched_ok (s\<lparr>coalesce := c\<rparr>) = sched_ok s"
proof -
  have e: "lane_entry_ok (s\<lparr>coalesce := c\<rparr>) = lane_entry_ok s" "lane_of (s\<lparr>coalesce := c\<rparr>) = lane_of s"
    "ref_ok (s\<lparr>coalesce := c\<rparr>) = ref_ok s"
    by (auto simp: fun_eq_iff lane_entry_ok_def lane_of_def ref_ok_def job_static_def split: candidate_ref.split)
  have "reservation_refs_ok (s\<lparr>coalesce := c\<rparr>) = reservation_refs_ok s"
    by (auto simp: fun_eq_iff reservation_refs_ok_def e split: option.split)
  then show ?thesis
    by (simp add: sched_ok_def ids_ok_def flights_ok_def lanes_ok_def refs_in_def e)
qed

lemma insert_job_ok:
  assumes ok: "sched_ok s" and ins: "insert_job meta opts key ih s = (out, t)"
  shows "sched_ok t" and "inserts (eo_job out) (meta, opt_correlation opts, key) s t"
    and "eo_superseded out = ih_superseded ih"
proof -
  let ?j = "next_job_id s" and ?job = "new_job meta opts key ih"
  define s1 where "s1 = with_job ?job s"
  define s2 where "s2 = (case opt_not_before opts of None \<Rightarrow> s1
    | Some nb \<Rightarrow> s1\<lparr>delayed := heap_push (Reverse (DelayedJob nb (ih_sequence ih) ?j)) (delayed s1)\<rparr>)"
  define s3 where "s3 = place_job ?j ?job (ih_superseded ih) opts s2"
  define s4 where "s4 = (case key of None \<Rightarrow> s3 | Some k \<Rightarrow> s3\<lparr>coalesce := hm_insert k ?j (coalesce s3)\<rparr>)"
  have t: "t = compact_blocked_if_needed (compact_candidate_heap_if_needed (compact_delayed_if_needed s4))"
    and out: "out = \<lparr>eo_job = ?j, eo_superseded = ih_superseded ih\<rparr>"
    using ins unfolding insert_job_def with_job_def[symmetric] Let_def s4_def s3_def s2_def s1_def by simp_all
  note w = with_job_ok[OF ok refl, of ?job, folded s1_def]
  have q: "quiet s1 s2" by (simp add: s2_def split: option.split)
  have same: "jobs s2 = jobs s1" "lanes s2 = lanes s1" "in_flight s2 = in_flight s1"
    "next_job_id s2 = next_job_id s1" by (simp_all add: s2_def split: option.split)
  have st: "job_static s2 = job_static s1" by (rule quiet_static[OF q])
  have e: "lane_entry_ok s2 = lane_entry_ok s1" "lane_of s2 = lane_of s1"
    by (auto simp: fun_eq_iff lane_entry_ok_def lane_of_def st same)
  have "refs_in s1 s2" using w(5) by (simp add: s2_def split: option.split)
  then have refs: "refs_in s2 s2" using quiet_refs_in[OF q] by blast
  have parts: "hm_ok (jobs s2)" "ids_ok s2" "flights_ok s2" "lanes_but ?j s2"
    using w(1-4) by (simp_all add: ids_ok_def flights_ok_def lanes_but_def same e)
  have j: "hm_get (jobs s2) ?j = Some ?job" "?j < next_job_id s2"
    by (simp_all add: same s1_def with_job_def)
  obtain u where u: "sched_ok u" "job_req u = job_req s2" "same_env s2 u"
    "next_job_id u = next_job_id s2" "quiet u s3" "refs_in u s3"
    using place_job_ok[OF parts refs j(1) refl j(2), of "ih_superseded ih" opts, folded s3_def] by blast
  have ok3: "sched_ok s3" by (rule quiet_sched_ok[OF u(5,1,6)])
  then have ok4: "sched_ok s4" by (simp add: s4_def sched_ok_coalesce split: option.split)
  then have "refs_in s4 s4" by (simp add: sched_ok_def)
  note c = compact_all_ok[OF quiet_refl this, folded t]
  show "sched_ok t" by (rule quiet_sched_ok[OF c(1) ok4 c(2)])
  have "inserts ?j (meta, opt_correlation opts, key) s s1"
    using w(8) by (simp add: new_job_def)
  then have "inserts ?j (meta, opt_correlation opts, key) s s3"
    using u(2-4) quiet_req[OF q] quiet_req[OF u(5)] quiet_same_env[OF q] quiet_same_env[OF u(5)] same(4) u(5)
    by (auto simp: inserts_def same_env_def quiet_def)
  moreover have "job_req s4 = job_req s3" "same_env s3 s4" "next_job_id s4 = next_job_id s3"
    by (auto simp: s4_def job_req_def same_env_def fun_eq_iff split: option.split)
  ultimately have "inserts ?j (meta, opt_correlation opts, key) s s4"
    by (simp add: inserts_def same_env_def)
  then show "inserts (eo_job out) (meta, opt_correlation opts, key) s t"
    using inserts_quiet c(1) by (simp add: out)
  show "eo_superseded out = ih_superseded ih" by (simp add: out)
qed

subsection \<open>Enqueue\<close>

lemma sched_ok_next_sequence:
  assumes "sched_ok s" and "take_sequence s = (n, t)"
  shows "sched_ok t" and "quiet s t"
proof -
  show q: "quiet s t" by (rule quiet_take_sequence[OF assms(2) quiet_refl])
  show "sched_ok t" using assms(1)
    by (intro quiet_sched_ok[OF q assms(1)] refs_take_sequence[OF assms(2)]) (simp add: sched_ok_def)
qed

lemma removes_req: "removes j s t \<Longrightarrow> job_req t = (job_req s)(j := None)"
  by (auto simp: fun_eq_iff job_req_static removes_def)

lemma supersede_spec:
  assumes ok: "sched_ok s" and sup: "supersede meta key now s = Inr (ih, t)"
  shows "sched_ok t \<and> same_env s t \<and> next_job_id t = next_job_id s
    \<and> ih_superseded ih = replaceable key s
    \<and> (case replaceable key s of None \<Rightarrow> quiet s t
        | Some old \<Rightarrow> (\<exists>job. hm_get (jobs s) old = Some job \<and> m_weight (j_meta job) = m_weight meta
              \<and> ih_sequence ih = j_sequence job \<and> ih_lane_order ih = j_lane_order job
              \<and> ih_ready_at ih = (if j_not_before job = None then Some (j_ready_at job) else None))
            \<and> removes old s t)"
proof (cases "replaceable key s")
  case None
  obtain n s' where n: "take_sequence s = (n, s')" by fastforce
  with sup None have "ih_superseded ih = None" "t = s'" by (auto simp: supersede_def)
  with None sched_ok_next_sequence[OF ok n] quiet_same_env[of s s'] show ?thesis
    by (simp add: quiet_def)
next
  case (Some old)
  then obtain job where job: "hm_get (jobs s) old = Some job"
    by (auto simp: replaceable_def split: option.splits if_splits)
  with sup Some have t: "t = remove_waiting old now s" and w: "m_weight (j_meta job) = m_weight meta"
    and ih: "ih_superseded ih = Some old" "ih_sequence ih = j_sequence job"
      "ih_lane_order ih = j_lane_order job"
      "ih_ready_at ih = (if j_not_before job = None then Some (j_ready_at job) else None)"
    by (auto simp: supersede_def split: if_splits)
  have "sched_ok t" "removes old s t" using remove_waiting_spec[OF ok job, of now] t by simp_all
  with Some job w ih show ?thesis by (simp add: removes_def same_env_def)
qed

text \<open>
  Everything \<open>enqueue\<close> can do: on an error the requests, permits and limits are as they were; on
  success the superseded job is gone and the new one has the next id.
\<close>

lemma enqueue_spec:
  assumes ok: "sched_ok s" and enq: "enqueue meta opts s = (r, t)"
  shows "sched_ok t \<and> same_env s t"
    and "r = Inl e \<Longrightarrow> quiet s t"
    and "r = Inr out \<Longrightarrow> eo_job out = next_job_id s \<and> next_job_id t = next_job_id s + 1
      \<and> eo_superseded out = replaceable (coalesce_key_of meta (opt_mode opts)) s
      \<and> job_req t = (case eo_superseded out of None \<Rightarrow> job_req s | Some old \<Rightarrow> (job_req s)(old := None))
           (eo_job out \<mapsto> (meta, opt_correlation opts, coalesce_key_of meta (opt_mode opts)))"
proof -
  let ?key = "coalesce_key_of meta (opt_mode opts)"
  have all: "(sched_ok t \<and> same_env s t) \<and> (\<forall>e. r = Inl e \<longrightarrow> quiet s t)
    \<and> (\<forall>out. r = Inr out \<longrightarrow> eo_job out = next_job_id s \<and> next_job_id t = next_job_id s + 1
      \<and> eo_superseded out = replaceable ?key s
      \<and> job_req t = (case eo_superseded out of None \<Rightarrow> job_req s | Some old \<Rightarrow> (job_req s)(old := None))
           (eo_job out \<mapsto> (meta, opt_correlation opts, ?key)))"
  proof (cases "weight_error meta s")
    case (Some e)
    with enq ok show ?thesis by (auto simp: enqueue_def)
  next
    case None
    show ?thesis
    proof (cases "supersede meta ?key (opt_now opts) s")
      case (Inl e)
      with enq None ok show ?thesis by (auto simp: enqueue_def Let_def)
    next
      case (Inr p)
      obtain ih s1 where p: "supersede meta ?key (opt_now opts) s = Inr (ih, s1)" using Inr by (cases p) auto
      note sp = supersede_spec[OF ok p]
      show ?thesis
      proof (cases "ih_superseded ih = None \<and> opt_queue_capacity opts \<le> length (jobs s1)")
        case True
        with enq None p have "r = Inl QueueFull" "t = s1" by (auto simp: enqueue_def Let_def)
        with sp True show ?thesis by (auto split: option.splits)
      next
        case False
        obtain out s2 where ins: "insert_job meta opts ?key ih s1 = (out, s2)" by fastforce
        with enq None p False have r: "r = Inr out" "t = s2" by (auto simp: enqueue_def Let_def)
        have ok1: "sched_ok s1" using sp by blast
        note i = insert_job_ok[OF ok1 ins]
        have req: "job_req s1 = (case replaceable ?key s of None \<Rightarrow> job_req s
          | Some old \<Rightarrow> (job_req s)(old := None))"
          using sp by (auto simp: quiet_req removes_req split: option.splits)
        show ?thesis using sp i req r by (auto simp: inserts_def same_env_def)
      qed
    qed
  qed
  then show "sched_ok t \<and> same_env s t" "r = Inl e \<Longrightarrow> quiet s t"
    "r = Inr out \<Longrightarrow> eo_job out = next_job_id s \<and> next_job_id t = next_job_id s + 1
      \<and> eo_superseded out = replaceable ?key s
      \<and> job_req t = (case eo_superseded out of None \<Rightarrow> job_req s | Some old \<Rightarrow> (job_req s)(old := None))
           (eo_job out \<mapsto> (meta, opt_correlation opts, ?key))" by blast+
qed

end
