(* ===== verification/Scheduler_Reach.thy ===== *)
theory Scheduler_Reach
  imports Scheduler_Insert
begin

text \<open>
  The operations that follow a grant, the limit updates and the constructor keep the invariant
  of the scheduler and the shape of its rate windows.
\<close>

subsection \<open>The remaining operations keep the invariant\<close>

lemma sched_ok_same:
  assumes ok: "sched_ok s" and j: "jobs t = jobs s" and l: "lanes t = lanes s"
    and f: "in_flight t = in_flight s" and n: "next_job_id t = next_job_id s" and r: "refs_in s t"
  shows "sched_ok t"
proof -
  have st: "job_static t = job_static s" by (intro ext) (simp add: job_static_def j)
  then have lo: "lane_of t = lane_of s" by (intro ext) (simp add: lane_of_def)
  have e: "lane_entry_ok t = lane_entry_ok s" by (intro ext) (simp add: lane_entry_ok_def n st)
  have "refs_in t t"
    by (rule refs_in_mono[OF _ r]) (auto simp: ref_ok_def n lo split: candidate_ref.splits)
  with ok show ?thesis
    by (simp add: sched_ok_def ids_ok_def flights_ok_def lanes_ok_def j l f n lo e)
qed

lemma sched_ok_lanes:
  assumes ok: "sched_ok s" and t: "t = s\<lparr>lanes := ls\<rparr>"
    and sub: "\<And>l ln'. hm_get ls l = Some ln' \<Longrightarrow>
      \<exists>ln. hm_get (lanes s) l = Some ln \<and> ln_pending ln' = ln_pending ln"
    and sup: "\<And>l ln. hm_get (lanes s) l = Some ln \<Longrightarrow> ln_pending ln \<noteq> [] \<Longrightarrow>
      \<exists>ln'. hm_get ls l = Some ln' \<and> ln_pending ln' = ln_pending ln"
  shows "sched_ok t"
proof -
  have st: "job_static t = job_static s" by (intro ext) (simp add: job_static_def t)
  then have lo: "lane_of t = lane_of s" by (intro ext) (simp add: lane_of_def)
  have e: "lane_entry_ok t = lane_entry_ok s" by (intro ext) (simp add: lane_entry_ok_def t st[unfolded t])
  have "lanes_ok s" using ok by (simp add: sched_ok_def)
  then have "lanes_ok t" unfolding lanes_ok_def lo e unfolding t
    apply (intro conjI allI impI)
    subgoal for l ln' using sub[of l ln'] by fastforce
    subgoal for l ln' using sub[of l ln'] by fastforce
    subgoal for j l using sup[of l] by fastforce
    done
  moreover have "refs_in t t"
    by (rule refs_in_mono[of s]) (use ok in \<open>auto simp: ref_ok_def lo[unfolded t] t sched_ok_def split: candidate_ref.splits\<close>)
  ultimately show ?thesis using ok by (simp add: sched_ok_def ids_ok_def flights_ok_def t)
qed

lemma sched_ok_lane_insert:
  assumes "sched_ok s" and "hm_get (lanes s) l = Some ln" and "ln_pending ln' = ln_pending ln"
  shows "sched_ok (s\<lparr>lanes := hm_insert l ln' (lanes s)\<rparr>)"
  by (rule sched_ok_lanes[OF assms(1) refl]) (use assms(2,3) in \<open>auto split: if_splits\<close>)

lemma sched_ok_lane_remove:
  assumes "sched_ok s" and "hm_get (lanes s) l = Some ln" and "ln_pending ln = []"
  shows "sched_ok (s\<lparr>lanes := hm_remove l (lanes s)\<rparr>)"
  by (rule sched_ok_lanes[OF assms(1) refl]) (use assms(2,3) in \<open>auto split: if_splits\<close>)

lemma push_lane_ok: "sched_ok s \<Longrightarrow> sched_ok (push_lane_head_candidate l now s)"
  using quiet_sched_ok[OF quiet_push_lane[OF quiet_refl]] refs_push_lane by (simp add: sched_ok_def)

lemma start_ok:
  assumes ok: "sched_ok s"
  shows "sched_ok (start j now s)"
proof (cases "\<exists>l ln ln'. Option.bind (hm_get (in_flight s) j) if_lane = Some l
    \<and> hm_get (lanes s) l = Some ln \<and> release_start j ln = Some ln'")
  case False
  then have "start j now s = s"
    by (cases "Option.bind (hm_get (in_flight s) j) if_lane"; cases "hm_get (lanes s) (the (Option.bind (hm_get (in_flight s) j) if_lane))")
       (auto simp: start_def split: option.split)
  with ok show ?thesis by simp
next
  case True
  then obtain l ln ln' where l: "Option.bind (hm_get (in_flight s) j) if_lane = Some l"
    "hm_get (lanes s) l = Some ln" "release_start j ln = Some ln'" by blast
  define s1 where "s1 = s\<lparr>lanes := hm_insert l ln' (lanes s)\<rparr>"
  have p: "ln_pending ln' = ln_pending ln" using l(3) by (auto simp: release_start_def split: if_splits)
  have ok1: "sched_ok s1" unfolding s1_def by (rule sched_ok_lane_insert[OF ok l(2) p])
  have "start j now s = (if ln_pending ln' \<noteq> [] then push_lane_head_candidate l now s1
      else s1\<lparr>lanes := hm_remove l (lanes s1)\<rparr>)"
    using l by (simp add: start_def s1_def Let_def)
  moreover have "sched_ok (s1\<lparr>lanes := hm_remove l (lanes s1)\<rparr>)" if "ln_pending ln' = []"
    by (rule sched_ok_lane_remove[OF ok1 _ that]) (simp add: s1_def)
  ultimately show ?thesis using push_lane_ok[OF ok1] by simp
qed

lemma release_complete_pending: "release_complete j ln = Some ln' \<Longrightarrow> ln_pending ln' = ln_pending ln"
  by (auto simp: release_complete_def split: outbound_lane_mode.splits if_splits)

lemma complete_lane_ok:
  assumes ok: "sched_ok s"
  shows "sched_ok (complete_lane j l now s)"
proof (cases "hm_get (lanes s) l")
  case None
  with ok show ?thesis by (simp add: complete_lane_def)
next
  case lane: (Some ln0)
  show ?thesis
  proof (cases "release_complete j ln0")
    case None
    then show ?thesis using ok lane sched_ok_lane_remove[OF ok lane]
      by (simp add: complete_lane_def lane_is_idle_def)
  next
    case (Some ln)
    define s1 where "s1 = s\<lparr>lanes := hm_insert l ln (lanes s)\<rparr>"
    have ok1: "sched_ok s1"
      unfolding s1_def by (rule sched_ok_lane_insert[OF ok lane release_complete_pending[OF Some]])
    have get: "hm_get (lanes s1) l = Some ln" by (simp add: s1_def)
    have "complete_lane j l now s = (if ln_pending ln \<noteq> [] then push_lane_head_candidate l now s1
        else if lane_is_idle ln then s1\<lparr>lanes := hm_remove l (lanes s1)\<rparr> else s1)"
      using lane Some by (simp add: complete_lane_def s1_def Let_def)
    then show ?thesis using ok1 push_lane_ok[OF ok1] sched_ok_lane_remove[OF ok1 get] by simp
  qed
qed

lemma flight_removed_ok:
  assumes ok: "sched_ok s"
  shows "sched_ok (s\<lparr>in_flight := hm_remove j (in_flight s)\<rparr>)"
proof -
  let ?t = "s\<lparr>in_flight := hm_remove j (in_flight s)\<rparr>"
  have st: "job_static ?t = job_static s" by (intro ext) (simp add: job_static_def)
  then have lo: "lane_of ?t = lane_of s" by (intro ext) (simp add: lane_of_def)
  have e: "lane_entry_ok ?t = lane_entry_ok s" by (intro ext) (simp add: lane_entry_ok_def st)
  have "refs_in ?t ?t"
    by (rule refs_in_mono[of s]) (use ok in \<open>auto simp: ref_ok_def lo sched_ok_def split: candidate_ref.splits\<close>)
  moreover have "flights_ok ?t"
  proof -
    have has: "hm_has (in_flight ?t) i \<Longrightarrow> hm_has (in_flight s) i" for i by (simp split: if_splits)
    have same: "next_job_id ?t = next_job_id s" "jobs ?t = jobs s" by simp_all
    have "hm_ok (in_flight ?t)" using ok by (simp add: sched_ok_def flights_ok_def)
    then show ?thesis unfolding flights_ok_def same
      using ok[unfolded sched_ok_def flights_ok_def] has by blast
  qed
  ultimately show ?thesis using ok by (simp add: sched_ok_def ids_ok_def lanes_ok_def lo e)
qed

lemma refund_frame:
  assumes "refund_windows now j fl s = (ws, t)"
  shows "jobs t = jobs s" "lanes t = lanes s" "in_flight t = in_flight s" "next_job_id t = next_job_id s"
    "aging t = aging s" "penalties t = penalties s" "global_limits t = global_limits s"
    "chat_limits t = chat_limits s" "class_limits t = class_limits s" "coalesce t = coalesce s"
    "refs_in r t = refs_in r s"
  using assms
  by (auto simp: refund_windows_def refund_global_def refund_class_global_def refund_chat_def
      refund_class_chat_def Let_def split: prod.splits option.splits outbound_scope.splits)

lemma quiet_same:
  assumes "jobs t = jobs s" "lanes t = lanes s" "in_flight t = in_flight s" "next_job_id t = next_job_id s"
    "aging t = aging s" "penalties t = penalties s" "global_limits t = global_limits s"
    "chat_limits t = chat_limits s" "class_limits t = class_limits s" "coalesce t = coalesce s"
  shows "quiet s t"
  using assms by (simp add: quiet_def job_static_def)

lemma refund_rearm:
  assumes "sched_ok s" and rf: "refund_windows now j fl s = (ws, t)"
  shows "sched_ok (fold (\<lambda>w u. rearm_reservation_owner w now u) ws t)"
    and "quiet s (fold (\<lambda>w u. rearm_reservation_owner w now u) ws t)"
proof -
  let ?u = "fold (\<lambda>w u. rearm_reservation_owner w now u) ws t"
  have q: "quiet s t" by (rule quiet_same) (simp_all add: refund_frame[OF rf])
  show qu: "quiet s ?u" by (intro quiet_fold quiet_rearm_owner q)
  have "refs_in s t" using assms(1) by (simp add: refund_frame[OF rf] sched_ok_def)
  then have "refs_in s ?u"
    by (induction ws arbitrary: t) (simp_all add: refs_rearm_owner)
  with qu assms(1) show "sched_ok ?u" by (rule quiet_sched_ok)
qed

lemma penalize_ok: "sched_ok s \<Longrightarrow> sched_ok (penalize sc until s)"
  by (rule sched_ok_same[of s]) (simp_all add: penalize_def Let_def sched_ok_def refs_in_def)

lemma set_limits_rearm:
  assumes ok: "sched_ok s" and same: "jobs t = jobs s" "lanes t = lanes s" "in_flight t = in_flight s"
    "next_job_id t = next_job_id s" and r: "refs_in s t"
  shows "sched_ok (rearm_blocked_and_parked now t)"
proof -
  have okt: "sched_ok t" by (rule sched_ok_same[OF ok same r])
  then have "refs_in t (rearm_blocked_and_parked now t)" by (intro refs_rearm_all) (simp_all add: sched_ok_def)
  with quiet_sched_ok[OF quiet_rearm_all[OF quiet_refl] okt] show ?thesis by blast
qed

lemma complete_ok:
  assumes ok: "sched_ok s"
  shows "sched_ok (complete j c now seen s)"
proof (cases "hm_get (in_flight s) j")
  case None
  with ok show ?thesis by (simp add: complete_def)
next
  case fl: (Some fl)
  define s1 where "s1 = s\<lparr>in_flight := hm_remove j (in_flight s)\<rparr>"
  define s2 where "s2 = (case if_lane fl of None \<Rightarrow> s1 | Some l \<Rightarrow> complete_lane j l now s1)"
  define s3 where "s3 = (if c = NoRequest
      then (let (ws, t) = refund_windows now j fl s2 in fold (\<lambda>w u. rearm_reservation_owner w now u) ws t)
      else s2)"
  have "sched_ok s1" unfolding s1_def by (rule flight_removed_ok[OF ok])
  then have s2: "sched_ok s2" unfolding s2_def by (auto intro: complete_lane_ok split: option.split)
  then have "sched_ok s3" unfolding s3_def by (auto intro: refund_rearm(1) split: prod.split)
  moreover have "complete j c now seen s = (case c of
      RetryAfter sc d \<Rightarrow> if d = 0 then s3 else penalize sc (seen + d) s3 | _ \<Rightarrow> s3)"
    unfolding complete_def fl option.case Let_def s1_def s2_def s3_def by (rule refl)
  ultimately show ?thesis by (auto intro: penalize_ok split: outbound_completion.split)
qed

text \<open>The limit updates: either an error and nothing else, or new windows and limits before the
  blocked and parked requests are pushed again.\<close>

definition with_limits :: "outbound_limits \<Rightarrow> instant \<Rightarrow> scheduler_state \<Rightarrow> scheduler_state" where
  "with_limits limits now s =
     (let (global_events, s1) = collect_global_events now s
      in s1\<lparr>global_limits := lim_global limits,
             global_windows := ws_insert_events now global_events (ws_new (lim_global limits) AnyKind),
             chat_limits := lim_chat limits,
             chat_window_sets := rebuild_sets now
               (\<lambda>chat. ws_new (lim_chat limits) (window_chat_kind_of chat))
               (hm_map_values (\<lambda>_ ws. live_chat_events now ws) (chat_window_sets s1))\<rparr>)"

definition with_class_limits :: "outbound_class_limits \<Rightarrow> instant \<Rightarrow> scheduler_state \<Rightarrow> scheduler_state" where
  "with_class_limits limits now s =
     s\<lparr>class_limits := limits,
       class_global_windows := fold (\<lambda>(cl, es). hm_adjust cl (ws_insert_events now es))
         (hm_map_values (\<lambda>_ ws. fst (ws_collect_events now ws)) (class_global_windows s))
         (class_window_sets (clim_global limits)),
       class_chat_window_sets := rebuild_sets now (\<lambda>(_, cl). ws_new_class (clim_chat limits) cl)
         (hm_map_values (\<lambda>_ ws. fst (ws_collect_events now ws)) (class_chat_window_sets s))\<rparr>"

lemma with_limits_frame [simp]:
  "jobs (with_limits limits now s) = jobs s" "lanes (with_limits limits now s) = lanes s"
  "in_flight (with_limits limits now s) = in_flight s"
  "next_job_id (with_limits limits now s) = next_job_id s" "coalesce (with_limits limits now s) = coalesce s"
  "aging (with_limits limits now s) = aging s" "penalties (with_limits limits now s) = penalties s"
  "class_limits (with_limits limits now s) = class_limits s"
  "global_limits (with_limits limits now s) = lim_global limits"
  "chat_limits (with_limits limits now s) = lim_chat limits"
  "refs_in r (with_limits limits now s) = refs_in r s"
  by (simp_all add: with_limits_def collect_global_events_def Let_def refs_in_def)

lemma with_class_limits_frame [simp]:
  "jobs (with_class_limits limits' now s) = jobs s" "lanes (with_class_limits limits' now s) = lanes s"
  "in_flight (with_class_limits limits' now s) = in_flight s"
  "next_job_id (with_class_limits limits' now s) = next_job_id s"
  "coalesce (with_class_limits limits' now s) = coalesce s"
  "aging (with_class_limits limits' now s) = aging s"
  "penalties (with_class_limits limits' now s) = penalties s"
  "global_limits (with_class_limits limits' now s) = global_limits s"
  "chat_limits (with_class_limits limits' now s) = chat_limits s"
  "class_limits (with_class_limits limits' now s) = limits'"
  "refs_in r (with_class_limits limits' now s) = refs_in r s"
  by (simp_all add: with_class_limits_def refs_in_def)

lemma set_limits_cases [consumes 1, case_names error ok]:
  assumes "set_limits limits now s = (r, t)"
  obtains e where "r = Inl e" "t = s"
  | "r = Inr ()" "t = rearm_blocked_and_parked now (with_limits limits now s)"
    "first_misfit (pending_misfit limits) s = None"
    "\<forall>w\<in>set (lim_global limits @ lim_chat limits). wl_window w \<noteq> 0"
    "\<forall>w\<in>set (lim_global limits). wl_kind w = AnyKind"
proof (cases "\<exists>e. r = Inl e")
  case True
  then show ?thesis using assms that(1)
    by (auto simp: set_limits_def collect_global_events_def Let_def split: if_splits option.splits prod.splits)
next
  case False
  then show ?thesis using assms that(2)
    by (auto simp: set_limits_def with_limits_def Let_def split: if_splits option.splits prod.splits)
qed

lemma set_class_limits_cases [consumes 1, case_names error ok]:
  assumes "set_class_limits limits now s = (r, t)"
  obtains e where "r = Inl e" "t = s"
  | "r = Inr ()" "t = rearm_blocked_and_parked now (with_class_limits limits now s)"
    "first_misfit (pending_misfit_class limits) s = None"
    "\<forall>w\<in>set (clim_global limits @ clim_chat limits). cl_window w \<noteq> 0"
  using assms
  by (auto simp: set_class_limits_def with_class_limits_def Let_def split: if_splits option.splits)

lemma set_limits_ok:
  assumes ok: "sched_ok s" and "set_limits limits now s = (r, t)"
  shows "sched_ok t"
  using assms(2) set_limits_rearm[OF ok, of "with_limits limits now s"] ok
  by (cases rule: set_limits_cases) (simp_all add: sched_ok_def)

lemma set_class_limits_ok:
  assumes ok: "sched_ok s" and "set_class_limits limits now s = (r, t)"
  shows "sched_ok t"
  using assms(2) set_limits_rearm[OF ok, of "with_class_limits limits now s"] ok
  by (cases rule: set_class_limits_cases) (simp_all add: sched_ok_def)

lemma next_deadline_ok:
  assumes ok: "sched_ok s" and "next_deadline now s = (w, t)"
  shows "sched_ok t"
  using quiet_sched_ok[OF quiet_next_deadline[OF assms(2) quiet_refl] ok] refs_next_deadline[OF assms(2)] ok
  by (simp add: sched_ok_def)

lemma cancel_ok: "sched_ok s \<Longrightarrow> sched_ok (cancel j now s)"
proof (cases "hm_get (jobs s) j")
  case None
  assume ok: "sched_ok s"
  from None have c: "cancel j now s = compact_blocked_if_needed (compact_delayed_if_needed s)"
    by (simp add: cancel_def remove_waiting_def)
  have "quiet s (cancel j now s)" unfolding c by (intro quiet_compact quiet_refl)
  moreover have "refs_in s (cancel j now s)" unfolding c using ok by (intro refs_compact) (simp add: sched_ok_def)
  ultimately show ?thesis using ok quiet_sched_ok by blast
qed (use cancel_spec in blast)

lemma class_window_sets_keys: "hm_ok (class_window_sets ls)"
proof -
  have "hm_ok m \<Longrightarrow> hm_ok (fold (\<lambda>l m. hm_insert (cl_class l)
    ((case hm_get m (cl_class l) of None \<Rightarrow> [] | Some g \<Rightarrow> g) @ [l]) m) ls m)" for m
    by (induction ls arbitrary: m) simp_all
  then show ?thesis by (simp add: class_window_sets_def group_by_class_def)
qed

lemma scheduler_new_ok:
  assumes "scheduler_new limits climits ag = Inr s"
  shows "sched_ok s" and "windows_ok now s" and "aging s = ag"
proof -
  have "list_all (\<lambda>p. ws_at now (snd p)) (class_window_sets ls)" for ls
    by (simp add: class_window_sets_def hm_map_values_def list_all_iff)
  then show "sched_ok s" "windows_ok now s" "aging s = ag"
    using assms class_window_sets_keys by (auto simp: scheduler_new_def sched_ok_def ids_ok_def flights_ok_def lanes_ok_def
        refs_in_def lane_of_def job_static_def windows_ok_def split: if_splits)
qed

subsection \<open>The remaining operations keep the windows\<close>

lemma ws_at_refund: "ws_at now ws \<Longrightarrow> ws_at now (snd (ws_refund t j w ws))"
proof -
  assume w: "ws_at now ws"
  have "rw_ok (snd (rw_refund t j w r)) \<and> rw_until now (snd (rw_refund t j w r))" if "r \<in> set ws" for r
  proof -
    have "rw_ok r" "rw_until now r" using w that by (auto simp: ws_at_def ws_ok_def list_all_iff)
    moreover obtain b r' where rf: "rw_refund t j w r = (b, r')" by fastforce
    ultimately show ?thesis using rw_refund_ok(1,2)[OF _ rf] rf by simp
  qed
  then show ?thesis by (simp add: ws_at_def ws_ok_def ws_refund_snd list_all_iff)
qed

lemma windows_ok_parts:
  assumes "windows_ok now s"
  shows "ws_at now g \<Longrightarrow> windows_ok now (s\<lparr>global_windows := g\<rparr>)"
    and "ws_at now ws \<Longrightarrow> windows_ok now (s\<lparr>class_global_windows := hm_insert cl ws (class_global_windows s)\<rparr>)"
    and "ws_at now ws \<Longrightarrow> windows_ok now (s\<lparr>chat_window_sets := hm_insert chat ws (chat_window_sets s)\<rparr>)"
    and "windows_ok now (s\<lparr>chat_window_sets := hm_remove chat (chat_window_sets s)\<rparr>)"
    and "ws_at now ws \<Longrightarrow> windows_ok now (s\<lparr>class_chat_window_sets := hm_insert k ws (class_chat_window_sets s)\<rparr>)"
  using assms by (auto simp: windows_ok_def intro: list_all_hm_insert list_all_hm_remove)

lemma refund_windows_ok:
  assumes rf: "refund_windows now j fl s = (ws, t)" and w: "windows_ok now s"
  shows "windows_ok now t"
proof -
  note get = list_all_hm_get[of "ws_at now"]
  have g: "windows_ok now (snd (refund_global now j n s))" if w: "windows_ok now s" for n s
  proof -
    obtain hit ws1 where 1: "ws_refund now j n (global_windows s) = (hit, ws1)" by fastforce
    have "ws_at now ws1" using ws_at_refund[of now "global_windows s" now j n] w 1 by (simp add: windows_ok_def)
    then show ?thesis using windows_ok_parts(1)[OF w] 1 by (simp add: refund_global_def)
  qed
  have cg: "windows_ok now (snd (refund_class_global now j n cl s))" if w: "windows_ok now s" for n cl s
  proof (cases "hm_get (class_global_windows s) cl")
    case (Some ws0)
    obtain hit ws1 where 1: "ws_refund now j n ws0 = (hit, ws1)" by fastforce
    have "ws_at now ws0" using get[OF _ Some] w by (simp add: windows_ok_def)
    then have "ws_at now ws1" using ws_at_refund[of now ws0 now j n] 1 by simp
    then show ?thesis using windows_ok_parts(2)[OF w] Some 1 by (simp add: refund_class_global_def)
  qed (use w in \<open>simp add: refund_class_global_def\<close>)
  have ch: "windows_ok now (snd (refund_chat now j n chat s))" if w: "windows_ok now s" for n chat s
  proof (cases "hm_get (chat_window_sets s) chat")
    case (Some ws0)
    obtain hit ws1 where 1: "ws_refund now j n ws0 = (hit, ws1)" by fastforce
    obtain idle ws2 where 2: "ws_is_idle now ws1 = (idle, ws2)" by fastforce
    have "ws_at now ws0" using get[OF _ Some] w by (simp add: windows_ok_def)
    then have "ws_at now ws2" using ws_at_refund[of now ws0 now j n] ws_is_idle_at[of now ws1] 1 2 by simp
    then show ?thesis using windows_ok_parts(3,4)[OF w] Some 1 2 by (simp add: refund_chat_def)
  qed (use w in \<open>simp add: refund_chat_def\<close>)
  have cc: "windows_ok now (snd (refund_class_chat now j n chat cl s))" if w: "windows_ok now s" for n chat cl s
  proof (cases "hm_get (class_chat_window_sets s) (chat, cl)")
    case (Some ws0)
    obtain hit ws1 where 1: "ws_refund now j n ws0 = (hit, ws1)" by fastforce
    have "ws_at now ws0" using get[OF _ Some] w by (simp add: windows_ok_def)
    then have "ws_at now ws1" using ws_at_refund[of now ws0 now j n] 1 by simp
    then show ?thesis using windows_ok_parts(5)[OF w] Some 1 by (simp add: refund_class_chat_def)
  qed (use w in \<open>simp add: refund_class_chat_def\<close>)
  obtain r1 s1 where 1: "refund_global now j (if_weight fl) s = (r1, s1)" by fastforce
  obtain r2 s2 where 2: "refund_class_global now j (if_weight fl) (if_class fl) s1 = (r2, s2)" by fastforce
  have w2: "windows_ok now s2" using g[OF w, of "if_weight fl"] cg[of s1 "if_weight fl" "if_class fl"] 1 2 by simp
  show ?thesis
  proof (cases "if_scope fl")
    case ScopeGlobal
    with rf 1 2 w2 show ?thesis by (simp add: refund_windows_def)
  next
    case (ScopeChat chat)
    obtain r3 s3 where 3: "refund_chat now j (if_weight fl) chat s2 = (r3, s3)" by fastforce
    have "windows_ok now s3" using ch[OF w2, of "if_weight fl" chat] 3 by simp
    then show ?thesis using cc[of s3 "if_weight fl" chat "if_class fl"] rf 1 2 3 ScopeChat
      by (auto simp: refund_windows_def split: prod.splits)
  qed
qed

lemma wins_start [simp]: "wins (start j now s) = wins s"
  by (simp add: start_def Let_def split: option.split)

lemma wins_complete_lane [simp]: "wins (complete_lane j l now s) = wins s"
  by (simp add: complete_lane_def Let_def split: option.split)

lemma wins_penalize [simp]: "wins (penalize sc until s) = wins s"
  by (simp add: penalize_def Let_def)

lemma wins_next_deadline: "next_deadline now s = (w, t) \<Longrightarrow> wins t = wins s"
  by (auto simp: next_deadline_def drop_stale_heads_def Let_def split: prod.splits)

lemma complete_windows_ok:
  assumes w: "windows_ok now s"
  shows "windows_ok now (complete j c now seen s)"
proof (cases "hm_get (in_flight s) j")
  case None
  with w show ?thesis by (simp add: complete_def)
next
  case fl: (Some fl)
  define s1 where "s1 = s\<lparr>in_flight := hm_remove j (in_flight s)\<rparr>"
  define s2 where "s2 = (case if_lane fl of None \<Rightarrow> s1 | Some l \<Rightarrow> complete_lane j l now s1)"
  define s3 where "s3 = (if c = NoRequest
      then (let (ws, t) = refund_windows now j fl s2 in fold (\<lambda>w u. rearm_reservation_owner w now u) ws t)
      else s2)"
  have "wins s2 = wins s" by (simp add: s2_def s1_def split: option.split)
  then have w2: "windows_ok now s2" using wins_windows_ok w by blast
  have w3: "windows_ok now s3"
  proof (cases "c = NoRequest")
    case True
    obtain ws t where rf: "refund_windows now j fl s2 = (ws, t)" by fastforce
    have "wins s3 = wins t" by (simp add: s3_def True rf wins_fold)
    then show ?thesis using wins_windows_ok refund_windows_ok[OF rf w2] by blast
  qed (simp add: s3_def w2)
  have "complete j c now seen s = (case c of
      RetryAfter sc d \<Rightarrow> if d = 0 then s3 else penalize sc (seen + d) s3 | _ \<Rightarrow> s3)"
    unfolding complete_def fl option.case Let_def s1_def s2_def s3_def by (rule refl)
  then have "wins (complete j c now seen s) = wins s3" by (simp split: outbound_completion.split)
  then show ?thesis using wins_windows_ok w3 by blast
qed

lemma ws_at_insert_events:
  assumes "list_all (\<lambda>r. rw_history r = [] \<and> rw_used r = 0) ws"
    and "sorted (map fst es)" and "\<And>e. e \<in> set es \<Longrightarrow> fst e \<le> now"
  shows "ws_at now (ws_insert_events now es ws)"
  using assms
  by (auto simp: ws_insert_events_map ws_at_def ws_ok_def list_all_iff rw_ok_def rw_until_def sorted_map
      sorted_wrt_filter)

lemma fresh_ws_new: "list_all (\<lambda>r. rw_history r = [] \<and> rw_used r = 0) (ws_new ls k)"
  "list_all (\<lambda>r. rw_history r = [] \<and> rw_used r = 0) (ws_new_class cls cl)"
  by (simp_all add: ws_new_def ws_new_class_def rw_new_def list_all_iff)

definition events_ok :: "instant \<Rightarrow> window_event list \<Rightarrow> bool" where
  "events_ok now es \<longleftrightarrow> sorted (map fst es) \<and> (\<forall>e\<in>set es. fst e \<le> now)"

lemma events_ok_history:
  assumes "ws_at now ws" and "longest_window ws = Some r"
  shows "events_ok now (rw_history r)"
  using assms longest_window_Some[OF assms(2)]
  by (auto simp: ws_at_def ws_ok_def list_all_iff rw_ok_def rw_until_def events_ok_def)

lemma events_ok_filter: "events_ok now es \<Longrightarrow> events_ok now (filter P es)"
  by (auto simp: events_ok_def sorted_map sorted_wrt_filter)

lemma ws_at_pruned: "ws_at now ws \<Longrightarrow> ws_at now (map (rw_prune now) ws)"
  by (simp add: ws_at_def ws_ok_def list_all_iff)

lemma events_ok_collect:
  assumes "ws_at now ws"
  shows "events_ok now (fst (ws_collect_events now ws))"
  using events_ok_history[OF ws_at_pruned[OF assms]]
  by (cases "longest_window (map (rw_prune now) ws)") (simp_all add: ws_collect_events_def events_ok_def Let_def)

lemma events_ok_live: "ws_at now ws \<Longrightarrow> events_ok now (live_chat_events now ws)"
  using events_ok_history[of now ws] events_ok_filter
  by (auto simp: live_chat_events_def split: option.split) (simp add: events_ok_def)

lemma ws_at_rebuilt:
  assumes "events_ok now es" and "list_all (\<lambda>r. rw_history r = [] \<and> rw_used r = 0) ws"
  shows "ws_at now (ws_insert_events now es ws)"
  using ws_at_insert_events[OF assms(2)] assms(1) by (simp add: events_ok_def)

lemma rebuild_sets_ok:
  assumes "list_all (\<lambda>p. events_ok now (snd p)) evs"
    and fresh: "\<And>k. list_all (\<lambda>r. rw_history r = [] \<and> rw_used r = 0) (f k)"
  shows "list_all (\<lambda>p. ws_at now (snd p)) (rebuild_sets now f evs)"
proof -
  have "list_all (\<lambda>p. ws_at now (snd p)) m \<Longrightarrow> list_all (\<lambda>p. ws_at now (snd p)) (fold (\<lambda>(k, es) m.
      if es = [] then m
      else let ws = ws_insert_events now es (f k)
           in if list_ex (\<lambda>r. rw_history r \<noteq> []) ws then hm_insert k ws m else m) evs m)" for m
    using assms(1)
  proof (induction evs arbitrary: m)
    case (Cons p evs)
    obtain k es where p: "p = (k, es)" by fastforce
    have "ws_at now (ws_insert_events now es (f k))"
      by (rule ws_at_rebuilt[OF _ fresh]) (use Cons.prems(2) p in simp)
    then have "list_all (\<lambda>p. ws_at now (snd p)) (if es = [] then m
      else let ws = ws_insert_events now es (f k)
           in if list_ex (\<lambda>r. rw_history r \<noteq> []) ws then hm_insert k ws m else m)"
      using Cons.prems(1) by (simp add: Let_def list_all_hm_insert)
    from Cons.IH[OF this] Cons.prems(2) show ?case by (simp add: p)
  qed simp
  then show ?thesis by (simp add: rebuild_sets_def)
qed

lemma adjust_sets_ok:
  assumes "list_all (\<lambda>p. events_ok now (snd p)) evs" and "hm_ok evs"
    and "list_all (\<lambda>p. ws_at now (snd p)) m"
    and "\<And>k ws. k \<in> set (hm_keys evs) \<Longrightarrow> (k, ws) \<in> set m \<Longrightarrow> list_all (\<lambda>r. rw_history r = [] \<and> rw_used r = 0) ws"
  shows "list_all (\<lambda>p. ws_at now (snd p)) (fold (\<lambda>(k, es). hm_adjust k (ws_insert_events now es)) evs m)"
  using assms
proof (induction evs arbitrary: m)
  case (Cons p evs)
  obtain k es where p: "p = (k, es)" by fastforce
  let ?m = "hm_adjust k (ws_insert_events now es) m"
  have ev: "events_ok now es" using Cons.prems(1) p by simp
  have "list_all (\<lambda>p. ws_at now (snd p)) (fold (\<lambda>(k, es). hm_adjust k (ws_insert_events now es)) evs ?m)"
  proof (rule Cons.IH)
    show "list_all (\<lambda>p. events_ok now (snd p)) evs" "hm_ok evs" using Cons.prems(1,2) by simp_all
    show "list_all (\<lambda>p. ws_at now (snd p)) ?m"
    proof -
      have "ws_at now (ws_insert_events now es ws)" if "(k, ws) \<in> set m" for ws
        by (rule ws_at_rebuilt[OF ev]) (use Cons.prems(4)[of k ws] that p in simp)
      then show ?thesis using Cons.prems(3) by (auto simp: hm_adjust_def list_all_iff)
    qed
    show "list_all (\<lambda>r. rw_history r = [] \<and> rw_used r = 0) ws"
      if "k' \<in> set (hm_keys evs)" "(k', ws) \<in> set ?m" for k' ws
      using that Cons.prems(2,4) by (auto simp: hm_adjust_def p image_iff split: if_splits)
  qed
  then show ?case by (simp add: p)
qed simp

lemma class_window_sets_fresh:
  "(k, ws) \<in> set (class_window_sets ls) \<Longrightarrow> list_all (\<lambda>r. rw_history r = [] \<and> rw_used r = 0) ws"
  by (auto simp: class_window_sets_def hm_map_values_def fresh_ws_new)

lemma with_limits_windows:
  assumes w: "windows_ok now s"
  shows "windows_ok now (with_limits limits now s)"
proof -
  have g: "ws_at now (global_windows s)" using w by (simp add: windows_ok_def)
  have "ws_at now (global_windows (with_limits limits now s))"
    using ws_at_rebuilt[OF _ fresh_ws_new(1)] events_ok_collect[OF g]
    by (simp add: with_limits_def collect_global_events_def ws_collect_events_def Let_def)
  moreover have "list_all (\<lambda>p. events_ok now (snd p))
      (hm_map_values (\<lambda>_ ws. live_chat_events now ws) (chat_window_sets s))"
    using w by (auto simp: hm_map_values_def list_all_iff windows_ok_def intro!: events_ok_live)
  from rebuild_sets_ok[OF this fresh_ws_new(1)]
  have "list_all (\<lambda>p. ws_at now (snd p)) (chat_window_sets (with_limits limits now s))"
    by (simp add: with_limits_def collect_global_events_def Let_def)
  ultimately show ?thesis using w
    by (simp add: windows_ok_def) (simp add: with_limits_def collect_global_events_def Let_def)
qed

lemma with_class_limits_windows:
  assumes w: "windows_ok now s"
  shows "windows_ok now (with_class_limits limits now s)"
proof -
  have ev: "list_all (\<lambda>p. events_ok now (snd p)) (hm_map_values (\<lambda>_ ws. fst (ws_collect_events now ws)) m)"
    if "list_all (\<lambda>p. ws_at now (snd p)) m" for m :: "('k \<times> window_set) list"
    using that by (auto simp: hm_map_values_def list_all_iff intro!: events_ok_collect)
  have "list_all (\<lambda>p. ws_at now (snd p)) (fold (\<lambda>(cl, es). hm_adjust cl (ws_insert_events now es))
      (hm_map_values (\<lambda>_ ws. fst (ws_collect_events now ws)) (class_global_windows s))
      (class_window_sets (clim_global limits)))"
  proof (rule adjust_sets_ok[OF ev])
    show "list_all (\<lambda>p. ws_at now (snd p)) (class_global_windows s)" using w by (simp add: windows_ok_def)
    show "hm_ok (hm_map_values (\<lambda>_ ws. fst (ws_collect_events now ws)) (class_global_windows s))"
      using w by (simp add: windows_ok_def)
    show "list_all (\<lambda>p. ws_at now (snd p)) (class_window_sets (clim_global limits))"
      by (simp add: class_window_sets_def hm_map_values_def list_all_iff)
  qed (use class_window_sets_fresh in blast)
  moreover have "list_all (\<lambda>p. ws_at now (snd p)) (class_chat_window_sets (with_class_limits limits now s))"
    unfolding with_class_limits_def
    by (simp, rule rebuild_sets_ok[OF ev]) (use w fresh_ws_new in \<open>auto simp: windows_ok_def split: prod.split\<close>)
  moreover have "hm_ok (fold (\<lambda>(cl, es). hm_adjust cl (ws_insert_events now es)) evs m)"
    if "hm_ok m" for evs and m :: "(outbound_class, window_set) hmap"
    using that by (induction evs arbitrary: m) auto
  ultimately show ?thesis using w class_window_sets_keys
    by (simp add: windows_ok_def) (simp add: with_class_limits_def)
qed

lemma set_limits_windows:
  assumes w: "windows_ok now s" and "set_limits limits now s = (r, t)"
  shows "windows_ok now t"
  using assms(2)
proof (cases rule: set_limits_cases)
  case ok
  then have "wins t = wins (with_limits limits now s)" by simp
  then show ?thesis using wins_windows_ok with_limits_windows[OF w] by blast
qed (use w in simp)

lemma set_class_limits_windows:
  assumes w: "windows_ok now s" and "set_class_limits limits now s = (r, t)"
  shows "windows_ok now t"
  using assms(2)
proof (cases rule: set_class_limits_cases)
  case ok
  then have "wins t = wins (with_class_limits limits now s)" by simp
  then show ?thesis using wins_windows_ok with_class_limits_windows[OF w] by blast
qed (use w in simp)

end
