(* ===== verification/Scheduler_Lines.thy ===== *)
theory Scheduler_Lines
  imports Scheduler_Reach
begin

text \<open>
  What a lane promises its requests.  \<open>line s l\<close> is the lane's queue of waiting requests, in order;
  \<open>seat s l\<close> is its mode, the request that holds it and the count of its permits.  Bookkeeping
  changes neither, except that a lane nobody waits in or holds may be forgotten; a grant takes the
  first of the line, a removal deletes one, and an enqueue appends, or replaces in place.
\<close>

definition line :: "scheduler_state \<Rightarrow> lane_key \<Rightarrow> job_id list" where
  "line s l = (case hm_get (lanes s) l of None \<Rightarrow> [] | Some ln \<Rightarrow> map snd (live_pending (jobs s) ln))"

type_synonym seat = "outbound_lane_mode \<times> job_id option \<times> nat"

definition seat_of :: "lane_state \<Rightarrow> seat" where
  "seat_of ln = (ln_mode ln, ln_in_flight ln, ln_in_flight_count ln)"

definition seat :: "scheduler_state \<Rightarrow> lane_key \<Rightarrow> seat option" where
  "seat s l = map_option seat_of (hm_get (lanes s) l)"

fun seat_free :: "seat \<Rightarrow> bool" where
  "seat_free (BoundedOrderedStart mx, h, n) = (n < mx \<or> n = 0)"
| "seat_free (m, h, n) = (n = 0 \<or> h = None)"

definition seat_step :: "seat option \<Rightarrow> seat option \<Rightarrow> bool" where
  "seat_step v v' \<longleftrightarrow> v' = v \<or> (v' = None \<and> (case v of None \<Rightarrow> True | Some x \<Rightarrow> seat_free x))"

text \<open>Positions of a lane: below its counter unless that has wrapped, and one per waiting request.\<close>

definition orders_ok :: "scheduler_state \<Rightarrow> lane_key \<Rightarrow> bool" where
  "orders_ok s l \<longleftrightarrow>
     (case hm_get (lanes s) l of
        None \<Rightarrow> True
      | Some ln \<Rightarrow> ln_next_order ln < 2 ^ 64
          \<and> (ln_next_order ln \<noteq> 0 \<longrightarrow> list_all (\<lambda>p. fst p < ln_next_order ln) (ln_pending ln))
          \<and> distinct (map fst (live_pending (jobs s) ln)))"

lemma seat_free_lane: "seat_free (seat_of ln) = lane_free ln"
  by (cases "ln_mode ln") (simp_all add: seat_of_def lane_free_def)

lemma seat_step_refl [simp]: "seat_step v v"
  by (simp add: seat_step_def)

lemma seat_step_trans: "seat_step a b \<Longrightarrow> seat_step b c \<Longrightarrow> seat_step a c"
  by (auto simp: seat_step_def)

lemma line_cong: "lanes t = lanes s \<Longrightarrow> (\<And>j. hm_has (jobs t) j = hm_has (jobs s) j) \<Longrightarrow> line t = line s"
  unfolding line_def by presburger

lemma orders_ok_cong:
  "lanes t = lanes s \<Longrightarrow> (\<And>j. hm_has (jobs t) j = hm_has (jobs s) j) \<Longrightarrow> orders_ok t = orders_ok s"
  unfolding orders_ok_def by presburger

lemma seat_cong: "lanes t = lanes s \<Longrightarrow> seat t = seat s"
  by (intro ext) (simp add: seat_def)

lemma quiet_kept: "quiet s t \<Longrightarrow> lane_kept (jobs s) (hm_get (lanes s) l) (hm_get (lanes t) l)"
  by (simp add: quiet_def)

lemma quiet_line: "quiet s t \<Longrightarrow> line t l = line s l"
  using quiet_kept[of s t l] quiet_live_pending[of s t] unfolding line_def
  by (cases "hm_get (lanes s) l"; cases "hm_get (lanes t) l") (simp_all add: lane_kept_def)

lemma quiet_seat: "quiet s t \<Longrightarrow> seat_step (seat s l) (seat t l)"
  using quiet_kept[of s t l]
  by (cases "hm_get (lanes s) l"; cases "hm_get (lanes t) l")
     (auto simp: lane_kept_def seat_def seat_step_def seat_of_def seat_free_lane[unfolded seat_of_def])

lemma quiet_orders: "quiet s t \<Longrightarrow> orders_ok s l \<Longrightarrow> orders_ok t l"
  using quiet_kept[of s t l] quiet_live_pending[of s t] unfolding orders_ok_def
  by (cases "hm_get (lanes s) l"; cases "hm_get (lanes t) l") (auto simp: lane_kept_def list_all_iff)

text \<open>A line holds exactly the pending requests of its lane, each once.\<close>

lemma lane_entry_live:
  assumes "lane_entry_ok s l p" and "hm_has (jobs s) (snd p)"
  obtains b where "job_static s (snd p) = Some b" "m_lane (fst b) = Some l"
    "snd (snd (snd b)) = Some (fst p)"
  using assms unfolding job_static_has lane_entry_ok_def by blast

lemma entry_unique:
  assumes ps: "list_all (lane_entry_ok s l) ps" "sorted_wrt (<) ps" and i: "hm_has (jobs s) i"
    and "p \<in> set ps" "p' \<in> set ps" "snd p = i" "snd p' = i"
  shows "p = p'"
proof -
  have e: "lane_entry_ok s l p" "lane_entry_ok s l p'" using ps(1) assms(4,5) by (simp_all add: list_all_iff)
  have "fst p = fst p'"
    by (rule lane_entry_live[OF e(1)]; rule lane_entry_live[OF e(2)]) (use assms in simp_all)
  then show ?thesis using assms(6,7) by (simp add: prod_eq_iff)
qed

lemma line_facts:
  assumes ok: "sched_ok s"
  shows "distinct (line s l)" and "i \<in> set (line s l) \<longleftrightarrow> lane_of s i = Some l"
proof -
  have lanes: "lanes_ok s" using ok by (simp add: sched_ok_def)
  have "distinct (line s l) \<and> (i \<in> set (line s l) \<longrightarrow> lane_of s i = Some l)"
  proof (cases "hm_get (lanes s) l")
    case (Some ln)
    let ?ps = "live_pending (jobs s) ln"
    have e: "list_all (lane_entry_ok s l) (ln_pending ln)" "sorted_wrt (<) (ln_pending ln)"
      using lanes Some unfolding lanes_ok_def by blast+
    have "inj_on snd (set ?ps)"
      by (rule inj_onI) (rule entry_unique[OF e], auto)
    moreover have "distinct ?ps" using e(2) by (simp add: strict_sorted_iff distinct_filter)
    ultimately have "distinct (line s l)" using Some by (simp add: line_def distinct_map)
    moreover have "i \<in> set (line s l) \<Longrightarrow> lane_of s i = Some l"
    proof -
      assume "i \<in> set (line s l)"
      then obtain p where p: "p \<in> set (ln_pending ln)" "snd p = i" "hm_has (jobs s) i"
        using Some by (auto simp: line_def)
      have "lane_entry_ok s l p" using e(1) p(1) by (simp add: list_all_iff)
      then show "lane_of s i = Some l"
        by (rule lane_entry_live) (use p in \<open>simp_all add: lane_of_def\<close>)
    qed
    ultimately show ?thesis by blast
  qed (simp add: line_def)
  moreover have "lane_of s i = Some l \<Longrightarrow> i \<in> set (line s l)"
  proof -
    assume i: "lane_of s i = Some l"
    then obtain ln where ln: "hm_get (lanes s) l = Some ln" "i \<in> snd ` set (ln_pending ln)"
      using lanes unfolding lanes_ok_def by blast
    with lane_of_has[OF i] show "i \<in> set (line s l)" by (force simp: line_def)
  qed
  ultimately show "distinct (line s l)" and "i \<in> set (line s l) \<longleftrightarrow> lane_of s i = Some l" by blast+
qed

lemma line_without:
  assumes "lanes t = lanes s" and "\<And>i. hm_has (jobs t) i \<longleftrightarrow> i \<noteq> j \<and> hm_has (jobs s) i"
  shows "line t l = filter (\<lambda>i. i \<noteq> j) (line s l)"
proof -
  have "filter (\<lambda>p. hm_has (jobs t) (snd p)) ps
      = filter (\<lambda>p. snd p \<noteq> j) (filter (\<lambda>p. hm_has (jobs s) (snd p)) ps)" for ps :: "(nat \<times> job_id) list"
    unfolding filter_filter assms(2) by (meson filter_cong)
  then show ?thesis unfolding line_def assms(1)
    by (simp add: filter_map o_def split: option.split)
qed

lemma orders_without:
  assumes "lanes t = lanes s" and "\<And>i. hm_has (jobs t) i \<longleftrightarrow> i \<noteq> j \<and> hm_has (jobs s) i"
  shows "orders_ok s l \<Longrightarrow> orders_ok t l"
proof -
  have "filter (\<lambda>p. hm_has (jobs t) (snd p)) ps
      = filter (\<lambda>p. snd p \<noteq> j) (filter (\<lambda>p. hm_has (jobs s) (snd p)) ps)" for ps :: "(nat \<times> job_id) list"
    unfolding filter_filter assms(2) by (meson filter_cong)
  then have "hm_ok (filter (\<lambda>p. hm_has (jobs s) (snd p)) ps) \<Longrightarrow> hm_ok (filter (\<lambda>p. hm_has (jobs t) (snd p)) ps)"
    for ps :: "(nat \<times> job_id) list"
    by (simp only: distinct_map_filter)
  then show "orders_ok s l \<Longrightarrow> orders_ok t l" unfolding orders_ok_def assms(1)
    by (auto split: option.split)
qed

subsection \<open>A grant takes the first of the line\<close>

definition held_by :: "job_id \<Rightarrow> seat \<Rightarrow> seat" where
  "held_by j x = (case x of (m, h, n) \<Rightarrow> (m, (case m of BoundedOrderedStart _ \<Rightarrow> h | _ \<Rightarrow> Some j), n + 1))"

text \<open>The slot of a request that leaves the pending map is free again.\<close>

definition slot_freed :: "job_id \<Rightarrow> coalesce_key option \<Rightarrow> (coalesce_key, job_id) hmap
    \<Rightarrow> (coalesce_key, job_id) hmap" where
  "slot_freed j key m =
     (case key of None \<Rightarrow> m | Some k \<Rightarrow> if hm_get m k = Some j then hm_remove k m else m)"

definition serves :: "job_id \<Rightarrow> scheduler_state \<Rightarrow> scheduler_state \<Rightarrow> bool" where
  "serves j s t \<longleftrightarrow> grants j s t
     \<and> (\<forall>l. line s l = (if lane_of s j = Some l then [j] else []) @ line t l)
     \<and> (\<forall>l. lane_of s j = Some l \<longrightarrow> (\<exists>x. seat s l = Some x
            \<and> mode_has_capacity (fst x) (snd (snd x)) \<and> seat_step (Some (held_by j x)) (seat t l)))
     \<and> (\<forall>l. lane_of s j \<noteq> Some l \<longrightarrow> seat_step (seat s l) (seat t l))
     \<and> (\<forall>l. orders_ok s l \<longrightarrow> orders_ok t l)
     \<and> coalesce t = slot_freed j (Option.bind (job_req s j) (\<lambda>b. snd (snd b))) (coalesce s)"

lemma coalesce_remove_entry: "coalesce (remove_coalesce_entry j k s) = slot_freed j k (coalesce s)"
  by (simp add: remove_coalesce_entry_def slot_freed_def split: option.split)

lemma serves_quiet:
  assumes s: "serves j s t" and q: "quiet t u"
  shows "serves j s u"
proof -
  have "grants j s u" using s grants_quiet[OF _ q] by (simp add: serves_def)
  moreover have "coalesce u = slot_freed j (Option.bind (job_req s j) (\<lambda>b. snd (snd b))) (coalesce s)"
    using s q by (simp add: quiet_def serves_def)
  moreover have "line s l = (if lane_of s j = Some l then [j] else []) @ line u l" for l
    using s quiet_line[OF q, of l] by (simp only: serves_def)
  moreover have "\<exists>x. seat s l = Some x \<and> mode_has_capacity (fst x) (snd (snd x))
        \<and> seat_step (Some (held_by j x)) (seat u l)" if "lane_of s j = Some l" for l
    using s that seat_step_trans[OF _ quiet_seat[OF q, of l]] unfolding serves_def by blast
  moreover have "seat_step (seat s l) (seat u l)" if "lane_of s j \<noteq> Some l" for l
    using s that seat_step_trans[OF _ quiet_seat[OF q, of l]] unfolding serves_def by blast
  moreover have "orders_ok s l \<longrightarrow> orders_ok u l" for l
    using s quiet_orders[OF q, of l] unfolding serves_def by blast
  ultimately show ?thesis unfolding serves_def by blast
qed

lemma quiet_serves:
  assumes q: "quiet s t" and s: "serves j t u"
  shows "serves j s u"
proof -
  note same = quiet_lane_of[OF q, of j]
  have "grants j s u" using s quiet_grants[OF q] by (simp add: serves_def)
  moreover have "coalesce u = slot_freed j (Option.bind (job_req s j) (\<lambda>b. snd (snd b))) (coalesce s)"
    using s q quiet_req[OF q] by (simp add: quiet_def serves_def)
  moreover have "line s l = (if lane_of s j = Some l then [j] else []) @ line u l" for l
    using s quiet_line[OF q, of l] same by (simp only: serves_def)
  moreover have "\<exists>x. seat s l = Some x \<and> mode_has_capacity (fst x) (snd (snd x))
        \<and> seat_step (Some (held_by j x)) (seat u l)" if l: "lane_of s j = Some l" for l
  proof -
    have "\<exists>x. seat t l = Some x \<and> mode_has_capacity (fst x) (snd (snd x))
        \<and> seat_step (Some (held_by j x)) (seat u l)"
      using s l unfolding serves_def same by blast
    with quiet_seat[OF q, of l] show ?thesis by (auto simp: seat_step_def)
  qed
  moreover have "seat_step (seat s l) (seat u l)" if "lane_of s j \<noteq> Some l" for l
    using s that seat_step_trans[OF quiet_seat[OF q, of l]] unfolding serves_def same by blast
  moreover have "orders_ok s l \<longrightarrow> orders_ok u l" for l
    using s quiet_orders[OF q, of l] unfolding serves_def by blast
  ultimately show ?thesis unfolding serves_def by blast
qed

lemma grant_core_serves:
  assumes c: "cand_ok s c" and job: "hm_get (jobs s) (c_job c) = Some job" and ok: "sched_ok s"
    and t: "t = grant_core c job now s"
  shows "serves (c_job c) s t"
proof -
  let ?j = "c_job c"
  note f = grant_core_fields[OF c job t]
  have g: "grants ?j s t" using grant_core_grants[OF c job] t by blast
  have lane_j: "lane_of s ?j = m_lane (j_meta job)"
    using job by (simp add: lane_of_def job_static_def static_def)
  define u where "u = s\<lparr>jobs := hm_remove ?j (jobs s)\<rparr>"
  have has_u: "hm_has (jobs u) i \<longleftrightarrow> i \<noteq> ?j \<and> hm_has (jobs s) i" for i by (simp add: u_def)
  have lanes_u: "lanes u = lanes s" by (simp add: u_def)
  have co: "coalesce t = slot_freed ?j (j_coalesce_key job) (coalesce s)"
  proof -
    obtain v where v: "grant_in_lane ?j (m_lane (j_meta job)) (remove_coalesce_entry ?j (j_coalesce_key job) u) = Some v"
      using grant_lane_defined[OF c job] lanes_u by fastforce
    have "coalesce v = slot_freed ?j (j_coalesce_key job) (coalesce s)"
      using v by (auto simp: grant_in_lane_def coalesce_remove_entry u_def split: option.splits)
    moreover have "coalesce (consume_windows now ?j (j_meta job) v) = coalesce v"
      by (simp add: consume_windows_def Let_def split: outbound_scope.split)
    ultimately show ?thesis using v by (simp add: t grant_core_def Let_def u_def)
  qed
  have other: "line t l = line u l \<and> seat t l = seat s l \<and> (orders_ok t l = orders_ok u l)"
    if "m_lane (j_meta job) \<noteq> Some l" for l
  proof -
    have "hm_get (lanes t) l = hm_get (lanes u) l"
      using f(10) that by (auto simp: lanes_u split: option.split)
    moreover have js: "jobs t = jobs u" by (simp add: f(1) u_def)
    ultimately show ?thesis unfolding line_def seat_def orders_ok_def js by (simp add: lanes_u)
  qed
  have absent: "?j \<notin> set (line s l)" if "m_lane (j_meta job) \<noteq> Some l" for l
    using line_facts(2)[OF ok, of ?j l] that lane_j by simp
  have own: "line s l = ?j # line t l \<and> (\<exists>x. seat s l = Some x \<and> mode_has_capacity (fst x) (snd (snd x))
        \<and> seat t l = Some (held_by ?j x)) \<and> (orders_ok s l \<longrightarrow> orders_ok t l)"
    if l: "m_lane (j_meta job) = Some l" for l
  proof -
    obtain ln n ps ln' where ln: "hm_get (lanes s) l = Some ln" "ln_pending ln = (n, ?j) # ps"
      "lane_has_capacity ln" "take_lane_head ?j ln = Some ln'" "ln_pending ln' = ps"
      "lanes t = hm_insert l ln' (lanes s)"
      using grant_core_lane[OF c job l, of now] t by metis
    have ln': "ln_mode ln' = ln_mode ln" "ln_in_flight_count ln' = ln_in_flight_count ln + 1"
      "ln_in_flight ln' = (case ln_mode ln of BoundedOrderedStart _ \<Rightarrow> ln_in_flight ln | _ \<Rightarrow> Some ?j)"
      "ln_next_order ln' = ln_next_order ln"
      using ln(2,4) by (auto simp: take_lane_head_def)
    have jn: "?j \<notin> snd ` set (filter (\<lambda>p. hm_has (jobs s) (snd p)) ps)"
      using line_facts(1)[OF ok, of l] ln(1,2) job by (simp add: line_def)
    have lp: "filter (\<lambda>p. hm_has (jobs t) (snd p)) ps = filter (\<lambda>p. hm_has (jobs s) (snd p)) ps"
      using jn by (force simp: f(1) intro!: filter_cong)
    have "line s l = ?j # line t l"
      using ln lp job unfolding line_def by simp
    moreover have "seat t l = Some (held_by ?j (seat_of ln))"
      using ln(6) ln' by (simp add: seat_def seat_of_def held_by_def)
    moreover have "mode_has_capacity (fst (seat_of ln)) (snd (snd (seat_of ln)))"
      using ln(3) by (simp add: seat_of_def lane_has_capacity_def)
    moreover have "orders_ok s l \<longrightarrow> orders_ok t l"
      using ln lp job ln'(4) unfolding orders_ok_def by simp
    ultimately show ?thesis using ln(1) by (simp add: seat_def)
  qed
  have "line s l = (if lane_of s ?j = Some l then [?j] else []) @ line t l" for l
  proof (cases "m_lane (j_meta job) = Some l")
    case True
    with own show ?thesis by (simp add: lane_j)
  next
    case False
    have "filter (\<lambda>i. i \<noteq> ?j) (line s l) = line s l" using absent[OF False] by (simp add: filter_id_conv) metis
    with False other[OF False] line_without[OF lanes_u has_u] show ?thesis by (simp add: lane_j)
  qed
  moreover have "\<exists>x. seat s l = Some x \<and> mode_has_capacity (fst x) (snd (snd x))
      \<and> seat_step (Some (held_by ?j x)) (seat t l)" if "lane_of s ?j = Some l" for l
    using own[of l] that by (auto simp: lane_j seat_step_def)
  moreover have "seat_step (seat s l) (seat t l)" if "lane_of s ?j \<noteq> Some l" for l
    using other[of l] that by (simp add: lane_j)
  moreover have "orders_ok s l \<longrightarrow> orders_ok t l" for l
    using own other orders_without[OF lanes_u has_u] by blast
  moreover have "Option.bind (job_req s ?j) (\<lambda>b. snd (snd b)) = j_coalesce_key job"
    using job by (simp add: job_req_def)
  ultimately show ?thesis using g co unfolding serves_def by simp
qed

lemma grant_turn_serves:
  assumes ok: "sched_ok s" and turn: "grant_turn now s = TurnMore [g] t"
  shows "serves (g_job g) s t"
proof -
  obtain c s1 where pop: "pop_candidate now s = (Some c, s1)"
    using turn by (auto simp: grant_turn_def split: prod.splits option.splits)
  obtain v s2 where adm: "admission c now s1 = (Some v, s2)" and set: "settle c v now s2 = TurnMore [g] t"
    using turn pop by (auto simp: grant_turn_def split: prod.splits option.splits)
  have q1: "quiet s s1" by (rule quiet_pop[OF pop]) simp
  have r1: "refs_in s s1" using refs_pop[OF pop] ok by (simp add: sched_ok_def)
  have ok1: "sched_ok s1" by (rule quiet_sched_ok[OF q1 ok r1])
  have c1: "cand_ok s1 c" using pop_cand_ok[OF pop ok quiet_refl] ok by (simp add: sched_ok_def)
  have q2: "quiet s1 s2" by (rule quiet_admission[OF adm]) simp
  have "refs_in s1 s2" using refs_admission[OF adm] ok1 by (simp add: sched_ok_def)
  then have ok2: "sched_ok s2" by (rule quiet_sched_ok[OF q2 ok1])
  have c2: "cand_ok s2 c" using c1 admission_cand_ok[OF adm] by simp
  then obtain job where job: "hm_get (jobs s2) (c_job c) = Some job"
    by (auto simp: cand_ok_def split: option.splits)
  from set obtain u where u: "grant c now s2 = Some u" "t = rearm_reservations c now u"
    and g: "g_job g = c_job c"
    by (cases v) (auto simp: settle_def turn_of_def Let_def split: option.splits)
  let ?core = "grant_core c job now s2"
  have "u = rearm_bounded_lane (m_lane (j_meta job)) now ?core" using u(1) grant_core_eq[OF c2 job] by simp
  then have q3: "quiet ?core t" unfolding u(2) by (auto intro!: quiet_rearm quiet_rearm_bounded)
  have "serves (c_job c) s2 t" by (rule serves_quiet[OF grant_core_serves[OF c2 job ok2 refl] q3])
  then show ?thesis using quiet_serves[OF quiet_trans[OF q1 q2]] g by simp
qed

lemma grant_loop_rule [consumes 3, case_names start quiet serve]:
  assumes loop: "grant_loop now s = Some (gs', t)" and "sched_ok s" and "windows_ok now s" and "I gs s"
    and quiet: "\<And>gs u v. sched_ok u \<Longrightarrow> quiet u v \<Longrightarrow> I gs u \<Longrightarrow> I gs v"
    and serve: "\<And>gs g u v. sched_ok u \<Longrightarrow> serves (g_job g) u v \<Longrightarrow> I gs u \<Longrightarrow> I (gs @ [g]) v"
  shows "I (gs @ gs') t"
  using assms(1-4)
proof (induction now s arbitrary: gs gs' rule: grant_loop.induct)
  case (1 now s)
  note turn = grant_turn_spec[OF "1.prems"(2,3)]
  show ?case
  proof (cases "grant_turn now s")
    case TurnPanic
    with turn show ?thesis by simp
  next
    case (TurnDone t')
    with "1.prems"(1) have "gs' = []" "t = t'" by (simp_all add: grant_loop.simps[of now s])
    with turn TurnDone quiet[OF "1.prems"(2) _ "1.prems"(4)] show ?thesis by simp
  next
    case (TurnMore gs1 s1)
    with turn have ok: "sched_ok s1" "windows_ok now s1" and step: "gs1 = [] \<and> quiet s s1 \<or> (\<exists>g. gs1 = [g])"
      by auto
    obtain gs2 where rest: "grant_loop now s1 = Some (gs2, t)" "gs' = gs1 @ gs2"
      using "1.prems"(1) TurnMore by (auto simp: grant_loop.simps[of now s])
    have "I (gs @ gs1) s1"
      using step quiet[OF "1.prems"(2) _ "1.prems"(4)] "1.prems"(4)
        serve[OF "1.prems"(2) grant_turn_serves[OF "1.prems"(2)]] TurnMore by auto
    from "1.IH"[OF TurnMore rest(1) ok this] rest(2) show ?thesis by simp
  qed
qed

lemma finish_pass_same:
  "coalesce (finish_pass now s) = coalesce s" "line (finish_pass now s) = line s"
  "seat (finish_pass now s) = seat s" "orders_ok (finish_pass now s) = orders_ok s"
  "job_req (finish_pass now s) = job_req s"
proof -
  have same: "jobs (finish_pass now s) = jobs s" "lanes (finish_pass now s) = lanes s"
    by (simp_all add: finish_pass_fields)
  show "line (finish_pass now s) = line s" "seat (finish_pass now s) = seat s"
    "orders_ok (finish_pass now s) = orders_ok s" "job_req (finish_pass now s) = job_req s"
    unfolding fun_eq_iff line_def seat_def orders_ok_def job_req_def same by (intro allI refl)+
  show "coalesce (finish_pass now s) = coalesce s"
    by (simp add: finish_pass_def prune_expired_penalties_def prune_idle_chat_windows_def
        compact_reservations_if_needed_def)
qed

text \<open>
  An invariant of quiet steps and of served requests is an invariant of the pass; \<open>gs\<close> is what has
  been granted so far.
\<close>

lemma grant_ready_rule [consumes 3, case_names start quiet serve finish]:
  assumes pass: "grant_ready now s = Some (gs, t)" and ok: "sched_ok s" and w: "windows_ok now s"
    and I: "I [] s"
    and quiet: "\<And>gs u v. sched_ok u \<Longrightarrow> quiet u v \<Longrightarrow> I gs u \<Longrightarrow> I gs v"
    and serve: "\<And>gs g u v. sched_ok u \<Longrightarrow> serves (g_job g) u v \<Longrightarrow> I gs u \<Longrightarrow> I (gs @ [g]) v"
    and finish: "\<And>u. I gs u \<Longrightarrow> I gs (finish_pass now u)"
  shows "I gs t"
proof -
  obtain s1 s2 where s1: "promote_all now s = Some s1" and loop: "grant_loop now s1 = Some (gs, s2)"
    and t: "t = finish_pass now s2"
    using pass by (auto simp: grant_ready_def split: option.splits)
  have q: "quiet s s1" by (rule quiet_promote_all[OF s1]) simp
  have ids: "ids_ok s" and refs: "refs_in s s" using ok by (simp_all add: sched_ok_def)
  have ok1: "sched_ok s1" by (rule quiet_sched_ok[OF q ok refs_promote_all[OF ids s1 refs]])
  have w1: "windows_ok now s1" using w wins_windows_ok[OF wins_promote_all[OF s1]] by simp
  have "I ([] @ gs) s2"
    by (rule grant_loop_rule[OF loop ok1 w1]) (use quiet[OF ok q I] quiet serve in blast)+
  then show ?thesis unfolding t using finish by simp
qed

text \<open>A pass serves every lane in order: what it grants is a prefix of the line.\<close>

lemma pass_serves_in_order:
  assumes "grant_ready now s = Some (gs, t)" and "sched_ok s" and "windows_ok now s"
  shows "line s l = map g_job (filter (\<lambda>g. lane_of s (g_job g) = Some l) gs) @ line t l"
proof -
  have "line s l = map g_job (filter (\<lambda>g. lane_of s (g_job g) = Some l) gs) @ line t l
    \<and> (\<forall>i. hm_has (jobs t) i \<longrightarrow> lane_of t i = lane_of s i)"
    using assms
  proof (cases rule: grant_ready_rule[where I = "\<lambda>gs u. line s l
      = map g_job (filter (\<lambda>g. lane_of s (g_job g) = Some l) gs) @ line u l
      \<and> (\<forall>i. hm_has (jobs u) i \<longrightarrow> lane_of u i = lane_of s i)"])
    case (quiet gs u v)
    have "lane_of v i = lane_of u i" "hm_has (jobs v) i = hm_has (jobs u) i" for i
      using quiet_lane_of quiet_has quiet(2) by blast+
    with quiet(3) quiet_line[OF quiet(2)] show ?case by simp
  next
    case (serve gs g u v)
    have g: "grants (g_job g) u v"
      and l: "line u l = (if lane_of u (g_job g) = Some l then [g_job g] else []) @ line v l"
      using serve(2) unfolding serves_def by blast+
    have "hm_has (jobs u) (g_job g)" using g unfolding job_static_has grants_def by auto
    then have "lane_of u (g_job g) = lane_of s (g_job g)" using serve(3) by blast
    moreover have "lane_of v i = lane_of s i" if "hm_has (jobs v) i" for i
      using that serve(3) lane_of_removed[OF g, of i] unfolding grants_has[OF g] by simp
    ultimately show ?case using serve(3) l by simp
  next
    case (finish u)
    then show ?case using finish_pass_same(2) by (simp add: finish_pass_fields lane_of_def)
  qed simp_all
  then show ?thesis by blast
qed

end
