(* ===== verification/Scheduler_Slots.thy ===== *)
theory Scheduler_Slots
  imports Scheduler_Lines
begin

text \<open>
  What an enqueue and a removal do to the lines.  \<open>slots s l\<close> is the line with the position of each
  request; a fresh request gets a position after all of them, a superseding one the position of the
  request it replaces.
\<close>

definition slots :: "scheduler_state \<Rightarrow> lane_key \<Rightarrow> (nat \<times> job_id) list" where
  "slots s l = (case hm_get (lanes s) l of None \<Rightarrow> [] | Some ln \<Rightarrow> live_pending (jobs s) ln)"

lemma line_slots: "line s l = map snd (slots s l)"
  by (simp add: line_def slots_def split: option.split)

lemma quiet_slots: "quiet s t \<Longrightarrow> slots t l = slots s l"
  using quiet_kept[of s t l] quiet_live_pending[of s t] unfolding slots_def
  by (cases "hm_get (lanes s) l"; cases "hm_get (lanes t) l") (simp_all add: lane_kept_def)

lemma slots_without:
  assumes "lanes t = lanes s" and "\<And>i. hm_has (jobs t) i \<longleftrightarrow> i \<noteq> j \<and> hm_has (jobs s) i"
  shows "slots t l = filter (\<lambda>p. snd p \<noteq> j) (slots s l)"
proof -
  have "filter (\<lambda>p. hm_has (jobs t) (snd p)) ps
      = filter (\<lambda>p. snd p \<noteq> j) (filter (\<lambda>p. hm_has (jobs s) (snd p)) ps)" for ps :: "(nat \<times> job_id) list"
    unfolding filter_filter assms(2) by (meson filter_cong)
  then show ?thesis unfolding slots_def assms(1) by (simp split: option.split)
qed

lemma sorted_slots: "sched_ok s \<Longrightarrow> sorted_wrt (<) (slots s l)"
  by (cases "hm_get (lanes s) l")
     (auto simp: slots_def sched_ok_def lanes_ok_def sorted_wrt_filter)

text \<open>The counter of a lane, as the next position it hands out; zero for a lane to be created.\<close>

definition counter :: "scheduler_state \<Rightarrow> lane_key \<Rightarrow> nat" where
  "counter s l = (case hm_get (lanes s) l of None \<Rightarrow> 0 | Some ln \<Rightarrow> ln_next_order ln)"

lemma quiet_counter: "quiet s t \<Longrightarrow> counter t l = counter s l \<or> hm_get (lanes t) l = None"
  using quiet_kept[of s t l] unfolding counter_def
  by (cases "hm_get (lanes s) l"; cases "hm_get (lanes t) l") (simp_all add: lane_kept_def)

subsection \<open>Removal\<close>

lemma before_removal_lines:
  assumes ok: "sched_ok s" and job: "hm_get (jobs s) j = Some job"
  obtains u where "quiet s u" and "quiet (u\<lparr>jobs := hm_remove j (jobs u),
      coalesce := slot_freed j (j_coalesce_key job) (coalesce u)\<rparr>) (remove_waiting j now s)"
proof -
  let ?s4 = "before_removal j job now s"
  let ?s5 = "remove_coalesce_entry j (j_coalesce_key job) ?s4"
  let ?s6 = "?s5\<lparr>jobs := hm_remove j (jobs ?s5)\<rparr>"
  have s4: "quiet s ?s4" using before_removal_ok ok by (simp add: sched_ok_def)
  have s6: "?s6 = ?s4\<lparr>jobs := hm_remove j (jobs ?s4),
      coalesce := slot_freed j (j_coalesce_key job) (coalesce ?s4)\<rparr>"
    by (simp add: remove_coalesce_entry_def slot_freed_def split: option.split)
  have "quiet ?s6 (remove_waiting j now s)"
    using quiet_forget[OF quiet_refl]
    by (auto simp: remove_waiting_eq[OF job] Let_def simp del: quiet_refl split: option.split) simp_all
  then show thesis using that[OF s4] unfolding s6 by blast
qed

lemma remove_waiting_lines:
  assumes ok: "sched_ok s" and job: "hm_get (jobs s) j = Some job"
  shows "slots (remove_waiting j now s) l = filter (\<lambda>p. snd p \<noteq> j) (slots s l)"
    and "line (remove_waiting j now s) l = filter (\<lambda>i. i \<noteq> j) (line s l)"
    and "seat_step (seat s l) (seat (remove_waiting j now s) l)"
    and "orders_ok s l \<Longrightarrow> orders_ok (remove_waiting j now s) l"
    and "coalesce (remove_waiting j now s) = slot_freed j (j_coalesce_key job) (coalesce s)"
    and "counter (remove_waiting j now s) l = counter s l \<or> hm_get (lanes (remove_waiting j now s)) l = None"
proof -
  let ?t = "remove_waiting j now s"
  obtain u where q: "quiet s u" and "quiet (u\<lparr>jobs := hm_remove j (jobs u),
      coalesce := slot_freed j (j_coalesce_key job) (coalesce u)\<rparr>) ?t"
    by (rule before_removal_lines[OF assms])
  define v where "v = u\<lparr>jobs := hm_remove j (jobs u),
      coalesce := slot_freed j (j_coalesce_key job) (coalesce u)\<rparr>"
  have q': "quiet v ?t" using \<open>quiet _ ?t\<close> by (simp only: v_def)
  have same: "lanes v = lanes u" and has: "hm_has (jobs v) i \<longleftrightarrow> i \<noteq> j \<and> hm_has (jobs u) i" for i
    by (simp_all add: v_def)
  have "slots v l = filter (\<lambda>p. snd p \<noteq> j) (slots s l)"
    using slots_without[OF same has, of l] quiet_slots[OF q, of l] by simp
  then show "slots ?t l = filter (\<lambda>p. snd p \<noteq> j) (slots s l)" using quiet_slots[OF q'] by simp
  then show "line ?t l = filter (\<lambda>i. i \<noteq> j) (line s l)"
    by (simp add: line_slots filter_map o_def)
  show "seat_step (seat s l) (seat ?t l)"
    using quiet_seat[OF q, of l] quiet_seat[OF q', of l] seat_cong[OF same] seat_step_trans by metis
  show "orders_ok s l \<Longrightarrow> orders_ok ?t l"
    by (rule quiet_orders[OF q' orders_without[OF same has quiet_orders[OF q]]])
  have "coalesce v = slot_freed j (j_coalesce_key job) (coalesce s)" using q by (simp add: v_def quiet_def)
  then show "coalesce ?t = slot_freed j (j_coalesce_key job) (coalesce s)" using q' by (simp add: quiet_def)
  have "counter v l = counter u l" by (simp add: counter_def same)
  moreover have "hm_get (lanes v) l = None \<Longrightarrow> hm_get (lanes ?t) l = None"
    using quiet_kept[OF q', of l] by (cases "hm_get (lanes ?t) l") (simp_all add: lane_kept_def)
  ultimately show "counter ?t l = counter s l \<or> hm_get (lanes ?t) l = None"
    using quiet_counter[OF q, of l] quiet_counter[OF q', of l] same by metis
qed

lemma cancel_lines:
  assumes ok: "sched_ok s"
  shows "line (cancel j now s) l = filter (\<lambda>i. i \<noteq> j) (line s l)"
    and "seat_step (seat s l) (seat (cancel j now s) l)"
    and "orders_ok s l \<Longrightarrow> orders_ok (cancel j now s) l"
    and "coalesce (cancel j now s)
      = slot_freed j (Option.bind (job_req s j) (\<lambda>b. snd (snd b))) (coalesce s)"
proof -
  let ?r = "remove_waiting j now s"
  have q: "quiet ?r (cancel j now s)" unfolding cancel_def by (intro quiet_compact quiet_refl)
  have r: "line ?r l = filter (\<lambda>i. i \<noteq> j) (line s l) \<and> seat_step (seat s l) (seat ?r l)
    \<and> (orders_ok s l \<longrightarrow> orders_ok ?r l)
    \<and> coalesce ?r = slot_freed j (Option.bind (job_req s j) (\<lambda>b. snd (snd b))) (coalesce s)"
  proof (cases "hm_get (jobs s) j")
    case None
    then have "lane_of s j = None" by (simp add: lane_of_def job_static_def)
    then have "j \<notin> set (line s l)" using line_facts(2)[OF ok, of j l] by simp
    then have "filter (\<lambda>i. i \<noteq> j) (line s l) = line s l" by (simp add: filter_id_conv) metis
    with None show ?thesis by (simp add: remove_waiting_def slot_freed_def job_req_def)
  next
    case (Some job)
    then have "Option.bind (job_req s j) (\<lambda>b. snd (snd b)) = j_coalesce_key job" by (simp add: job_req_def)
    with remove_waiting_lines(2,5)[OF ok Some, of now] remove_waiting_lines(3,4)[OF ok Some, of l now]
    show ?thesis by simp
  qed
  show "line (cancel j now s) l = filter (\<lambda>i. i \<noteq> j) (line s l)" using r quiet_line[OF q] by simp
  show "seat_step (seat s l) (seat (cancel j now s) l)" using r quiet_seat[OF q] seat_step_trans by blast
  show "orders_ok s l \<Longrightarrow> orders_ok (cancel j now s) l" using r quiet_orders[OF q] by blast
  show "coalesce (cancel j now s)
      = slot_freed j (Option.bind (job_req s j) (\<lambda>b. snd (snd b))) (coalesce s)"
    using r q by (simp add: quiet_def)
qed

subsection \<open>Insertion\<close>

lemma map_snd_renumbered [simp]: "map snd (renumbered ps) = map snd ps"
  by (rule nth_equalityI) (simp_all add: renumbered_nth)

lemma map_fst_renumbered [simp]: "map fst (renumbered ps) = [0..<length ps]"
  by (rule nth_equalityI) (simp_all add: renumbered_nth)

lemma renumbered_live:
  "map snd (filter (\<lambda>p. P (snd p)) (renumbered ps)) = map snd (filter (\<lambda>p. P (snd p)) ps)"
proof -
  have "map snd (filter (\<lambda>p. P (snd p)) qs) = filter P (map snd qs)" for qs :: "(nat \<times> job_id) list"
    by (simp add: filter_map o_def)
  then show ?thesis by simp
qed

lemma bts_insert_last:
  fixes x :: "'a::linorder"
  assumes "sorted_wrt (<) xs" and "\<And>y. y \<in> set xs \<Longrightarrow> y < x"
  shows "bts_insert x xs = xs @ [x]"
proof -
  have "x \<notin> set xs" using assms(2) by blast
  then show ?thesis using assms
    by (auto simp: bts_insert_def strict_sorted_iff intro!: sorted_insort_is_snoc less_imp_le)
qed

lemma bts_insert_between:
  fixes x :: "'a::linorder"
  assumes "sorted_wrt (<) (xs @ ys)" and "\<And>y. y \<in> set xs \<Longrightarrow> y < x" and "\<And>y. y \<in> set ys \<Longrightarrow> x < y"
  shows "bts_insert x (xs @ ys) = xs @ x # ys"
proof (rule sorted_distinct_set_unique)
  have "sorted (xs @ ys)" "distinct (xs @ ys)" using assms(1) strict_sorted_iff by blast+
  then have "sorted (bts_insert x (xs @ ys)) \<and> distinct (bts_insert x (xs @ ys))"
    by (intro strict_sorted_bts_insert) simp
  then show "sorted (bts_insert x (xs @ ys))" "distinct (bts_insert x (xs @ ys))" by blast+
  show "sorted (xs @ x # ys)" "distinct (xs @ x # ys)" using \<open>sorted (xs @ ys)\<close> \<open>distinct (xs @ ys)\<close> assms(2,3)
    by (force simp: sorted_append)+
qed auto

lemma filter_bts_insert:
  fixes x :: "'a::linorder"
  assumes "sorted_wrt (<) xs" and "P x" and "x \<notin> set xs"
  shows "filter P (bts_insert x xs) = bts_insert x (filter P xs)"
  using assms by (auto simp: bts_insert_def strict_sorted_iff filter_insort[where f = "\<lambda>x. x"])

text \<open>A lane ready for its next position: after the renumbering, the counter is above every position.\<close>

lemma rebased_lane:
  assumes lane: "hm_get (lanes s) l = Some ln0" and o: "orders_ok s l"
    and "length (ln_pending ln0) < 2 ^ 64"
    and s: "sorted_wrt (<) (ln_pending ln0)"
  obtains ln where "hm_get (lanes (rebase_lane_orders l s)) l = Some ln"
    and "seat_of ln = seat_of ln0" and "ln_next_order ln < 2 ^ 64"
    and "\<forall>p\<in>set (ln_pending ln). fst p < ln_next_order ln"
    and "snd ` set (ln_pending ln) = snd ` set (ln_pending ln0)"
    and "map snd (live_pending (jobs s) ln) = map snd (live_pending (jobs s) ln0)"
    and "distinct (map fst (live_pending (jobs s) ln))" and "sorted_wrt (<) (ln_pending ln)"
proof (cases "ln_next_order ln0 = 0 \<and> ln_pending ln0 \<noteq> []")
  case True
  let ?ps = "ln_pending ln0"
  let ?ln = "ln0\<lparr>ln_pending := renumbered ?ps, ln_next_order := length (renumbered ?ps)\<rparr>"
  have "hm_get (lanes (rebase_lane_orders l s)) l = Some ?ln"
    using True lane by (simp add: rebase_lane_orders_def Let_def)
  moreover have "fst p < length ?ps" if "p \<in> set (renumbered ?ps)" for p
    using that set_renumbered[of "fst p" "snd p" ?ps] by simp
  moreover have "hm_ok (filter P (renumbered ?ps))" for P by (rule distinct_map_filter) simp
  ultimately show thesis
    using that[of ?ln] assms(3) renumbered_live[of "\<lambda>i. hm_has (jobs s) i" ?ps] sorted_renumbered[of ?ps]
      renumbered_ids[of ?ps]
    by (simp add: seat_of_def)
next
  case False
  then have "rebase_lane_orders l s = s" using lane by (auto simp: rebase_lane_orders_def)
  then show thesis using that[of ln0] lane o s False
    by (auto simp: orders_ok_def list_all_iff)
qed

definition fresh_seat :: "outbound_lane_mode \<Rightarrow> seat option \<Rightarrow> seat" where
  "fresh_seat mode v = (case v of None \<Rightarrow> (mode, None, 0) | Some x \<Rightarrow> x)"

lemma insert_pending_other:
  assumes "insert_lane_pending l j inherited mode s = (order, u)" and "l' \<noteq> l"
  shows "hm_get (lanes u) l' = hm_get (lanes s) l'"
  using assms
  by (auto simp: insert_lane_pending_def rebase_lane_orders_def Let_def split: option.splits if_splits)

text \<open>The lane before the position is chosen: the one there is, or a new one.\<close>

definition open_lane :: "lane_key \<Rightarrow> outbound_lane_mode \<Rightarrow> scheduler_state \<Rightarrow> scheduler_state" where
  "open_lane l mode s =
     (if hm_has (lanes s) l then s else s\<lparr>lanes := hm_insert l (lane_new mode) (lanes s)\<rparr>)"

lemma open_lane_facts:
  obtains ln where "hm_get (lanes (open_lane l mode s)) l = Some ln"
    and "live_pending (jobs s) ln = slots s l"
    and "seat_of ln = fresh_seat mode (seat s l)" and "ln_next_order ln = counter s l"
    and "ln_pending ln = (case hm_get (lanes s) l of None \<Rightarrow> [] | Some ln \<Rightarrow> ln_pending ln)"
proof (cases "hm_get (lanes s) l")
  case None
  show thesis
    by (rule that[of "lane_new mode"])
       (simp_all add: None open_lane_def slots_def seat_def fresh_seat_def counter_def lane_new_def seat_of_def)
next
  case (Some ln)
  show thesis
    by (rule that[of ln]) (simp_all add: Some open_lane_def slots_def seat_def fresh_seat_def counter_def)
qed

lemma open_lane_same [simp]: "jobs (open_lane l mode s) = jobs s"
  by (simp add: open_lane_def)

lemma open_lane_orders: "orders_ok s l \<Longrightarrow> orders_ok (open_lane l mode s) l"
  by (simp add: open_lane_def orders_ok_def lane_new_def)

definition lane_room :: "scheduler_state \<Rightarrow> lane_key \<Rightarrow> job_id \<Rightarrow> bool" where
  "lane_room s l j \<longleftrightarrow>
     (\<forall>ln. hm_get (lanes s) l = Some ln \<longrightarrow>
        length (ln_pending ln) < 2 ^ 64 \<and> sorted_wrt (<) (ln_pending ln)
        \<and> list_all (\<lambda>p. snd p < j) (ln_pending ln))"

lemma set_order_has: "hm_has (set_order p js) i = hm_has js i"
  by (auto simp: set_order_def split: if_splits)

lemma fold_set_order_has: "hm_has (fold set_order ps js) i = hm_has js i"
  by (induction ps arbitrary: js) (simp_all only: fold_simps set_order_has)

lemma rebase_lane_orders_has: "hm_has (jobs (rebase_lane_orders l s)) i = hm_has (jobs s) i"
  unfolding job_req_has rebase_lane_orders_req(1) by (rule refl)

lemma insert_fresh_lines:
  assumes ins: "insert_lane_pending l j None mode s = (order, u)"
    and o: "orders_ok s l" and room: "lane_room s l j" and j: "hm_has (jobs s) j"
  defines "t \<equiv> u\<lparr>jobs := set_order (order, j) (jobs u)\<rparr>"
  shows "line t l = line s l @ [j]" and "orders_ok t l" and "seat t l = Some (fresh_seat mode (seat s l))"
    and "\<And>i. hm_has (jobs t) i = hm_has (jobs s) i"
proof -
  obtain ln1 where ln1: "hm_get (lanes (open_lane l mode s)) l = Some ln1"
    "live_pending (jobs s) ln1 = slots s l" "seat_of ln1 = fresh_seat mode (seat s l)"
    "ln_pending ln1 = (case hm_get (lanes s) l of None \<Rightarrow> [] | Some ln \<Rightarrow> ln_pending ln)"
    by (rule open_lane_facts)
  have shape: "length (ln_pending ln1) < 2 ^ 64" "sorted_wrt (<) (ln_pending ln1)"
    "\<forall>p\<in>set (ln_pending ln1). snd p < j"
    using room ln1(4) unfolding lane_room_def
    by (cases "hm_get (lanes s) l"; simp add: list_all_iff)+
  define s2 where "s2 = rebase_lane_orders l (open_lane l mode s)"
  obtain ln where ln: "hm_get (lanes s2) l = Some ln" "seat_of ln = seat_of ln1"
    "ln_next_order ln < 2 ^ 64" "\<forall>p\<in>set (ln_pending ln). fst p < ln_next_order ln"
    "snd ` set (ln_pending ln) = snd ` set (ln_pending ln1)"
    "map snd (live_pending (jobs s) ln) = map snd (live_pending (jobs s) ln1)"
    "distinct (map fst (live_pending (jobs s) ln))" "sorted_wrt (<) (ln_pending ln)"
    by (rule rebased_lane[OF ln1(1) open_lane_orders[OF o] shape(1,2), unfolded open_lane_same, folded s2_def])
  let ?n = "ln_next_order ln"
  let ?f = "\<lambda>n. n\<lparr>ln_next_order := wrapping_add order 1, ln_pending := bts_insert (order, j) (ln_pending n)\<rparr>"
  have u: "order = ?n" "u = s2\<lparr>lanes := hm_adjust l ?f (lanes s2)\<rparr>"
    using ins ln(1) unfolding insert_lane_pending_def Let_def open_lane_def[symmetric] s2_def[symmetric] by auto
  have last: "bts_insert (?n, j) (ln_pending ln) = ln_pending ln @ [(?n, j)]"
    using ln(4,8) by (intro bts_insert_last) (auto simp: less_prod_def)
  have get: "hm_get (lanes t) l = Some (ln\<lparr>ln_next_order := wrapping_add ?n 1,
      ln_pending := ln_pending ln @ [(?n, j)]\<rparr>)"
    using ln(1) last by (simp add: t_def u)
  have has_u: "hm_has (jobs s2) i = hm_has (jobs s) i" for i
    unfolding s2_def rebase_lane_orders_has open_lane_same by (rule refl)
  have "jobs t = set_order (order, j) (jobs s2)" by (simp add: t_def u)
  then show has: "hm_has (jobs t) i = hm_has (jobs s) i" for i by (simp only: set_order_has has_u)
  have live: "filter (\<lambda>p. hm_has (jobs t) (snd p)) (ln_pending ln @ [(?n, j)]) = live_pending (jobs s) ln @ [(?n, j)]"
    unfolding has using j by simp
  have "line t l = map snd (filter (\<lambda>p. hm_has (jobs t) (snd p)) (ln_pending ln @ [(?n, j)]))"
    unfolding line_def get by simp
  then have "line t l = map snd (live_pending (jobs s) ln1) @ [j]" unfolding live using ln(6) by simp
  then show "line t l = line s l @ [j]" unfolding ln1(2) line_slots .
  show "seat t l = Some (fresh_seat mode (seat s l))"
    unfolding ln1(3)[symmetric] ln(2)[symmetric] by (simp add: seat_def get seat_of_def)
  have "?n \<notin> fst ` set (live_pending (jobs s) ln)" using ln(4) by fastforce
  then have "distinct (map fst (live_pending (jobs s) ln @ [(?n, j)]))" using ln(7) by simp
  moreover have nxt: "wrapping_add ?n 1 \<noteq> 0 \<Longrightarrow> wrapping_add ?n 1 = ?n + 1"
    using ln(3) by (cases "?n + 1 = 2 ^ 64") (simp_all add: wrapping_add_def)
  moreover have "wrapping_add ?n 1 < 2 ^ 64" by (simp add: wrapping_add_def)
  moreover have "live_pending (jobs t) (ln\<lparr>ln_next_order := wrapping_add ?n 1,
      ln_pending := ln_pending ln @ [(?n, j)]\<rparr>) = live_pending (jobs s) ln @ [(?n, j)]"
    using live by simp
  ultimately have "distinct (map fst (live_pending (jobs t) (ln\<lparr>ln_next_order := wrapping_add ?n 1,
      ln_pending := ln_pending ln @ [(?n, j)]\<rparr>)))" and "wrapping_add ?n 1 < 2 ^ 64"
    by (simp_all only:)
  then show "orders_ok t l"
    using ln(4) nxt unfolding orders_ok_def get option.case
    by (intro conjI) (auto simp: list_all_iff less_Suc_eq)
qed

text \<open>A superseding request takes over a position no live request has.\<close>

lemma insert_inherited_lines:
  assumes ins: "insert_lane_pending l j (Some n) mode s = (order, u)"
    and o: "orders_ok s l" and room: "lane_room s l j" and j: "hm_has (jobs s) j"
    and n: "counter s l \<noteq> 0 \<Longrightarrow> n < counter s l" "n \<notin> fst ` set (slots s l)"
    and sl: "slots s l = xs @ ys" and xs: "\<And>p. p \<in> set xs \<Longrightarrow> fst p < n" and ys: "\<And>p. p \<in> set ys \<Longrightarrow> n < fst p"
  defines "t \<equiv> u\<lparr>jobs := set_order (order, j) (jobs u)\<rparr>"
  shows "line t l = map snd xs @ j # map snd ys" and "orders_ok t l"
    and "seat t l = Some (fresh_seat mode (seat s l))"
    and "\<And>i. hm_has (jobs t) i = hm_has (jobs s) i"
proof -
  obtain ln where ln: "hm_get (lanes (open_lane l mode s)) l = Some ln"
    "live_pending (jobs s) ln = slots s l" "seat_of ln = fresh_seat mode (seat s l)"
    "ln_next_order ln = counter s l"
    "ln_pending ln = (case hm_get (lanes s) l of None \<Rightarrow> [] | Some ln \<Rightarrow> ln_pending ln)"
    by (rule open_lane_facts)
  have shape: "sorted_wrt (<) (ln_pending ln)" "\<forall>p\<in>set (ln_pending ln). snd p < j"
    using room ln(5) unfolding lane_room_def
    by (cases "hm_get (lanes s) l"; simp add: list_all_iff)+
  let ?f = "\<lambda>m. m\<lparr>ln_pending := bts_insert (n, j) (ln_pending m)\<rparr>"
  have u: "order = n" "u = (open_lane l mode s)\<lparr>lanes := hm_adjust l ?f (lanes (open_lane l mode s))\<rparr>"
    using ins unfolding insert_lane_pending_def Let_def open_lane_def[symmetric] by auto
  have get: "hm_get (lanes t) l = Some (ln\<lparr>ln_pending := bts_insert (n, j) (ln_pending ln)\<rparr>)"
    using ln(1) by (simp add: t_def u)
  have "jobs t = set_order (order, j) (jobs s)" by (simp add: t_def u)
  then show has: "hm_has (jobs t) i = hm_has (jobs s) i" for i by (simp only: set_order_has)
  have "sorted_wrt (<) (xs @ ys)" using shape(1) unfolding sl[symmetric] ln(2)[symmetric]
    by (simp add: sorted_wrt_filter)
  then have mid: "bts_insert (n, j) (xs @ ys) = xs @ (n, j) # ys"
    using xs ys by (intro bts_insert_between) (auto simp: less_prod_def)
  have "(n, j) \<notin> set (ln_pending ln)" using shape(2) by fastforce
  then have live: "filter (\<lambda>p. hm_has (jobs t) (snd p)) (bts_insert (n, j) (ln_pending ln)) = xs @ (n, j) # ys"
    unfolding has mid[symmetric] sl[symmetric] ln(2)[symmetric]
    using filter_bts_insert[OF shape(1), of "\<lambda>p. hm_has (jobs s) (snd p)" "(n, j)"] j by simp
  have "line t l = map snd (filter (\<lambda>p. hm_has (jobs t) (snd p)) (bts_insert (n, j) (ln_pending ln)))"
    unfolding line_def get by simp
  then show "line t l = map snd xs @ j # map snd ys" unfolding live by simp
  show "seat t l = Some (fresh_seat mode (seat s l))"
    unfolding ln(3)[symmetric] by (simp add: seat_def get seat_of_def)
  have o1: "ln_next_order ln < 2 ^ 64" "ln_next_order ln \<noteq> 0 \<longrightarrow> list_all (\<lambda>p. fst p < ln_next_order ln) (ln_pending ln)"
    "distinct (map fst (xs @ ys))"
    using open_lane_orders[OF o, of mode] unfolding orders_ok_def ln(1) option.case open_lane_same ln(2) sl by blast+
  have "distinct (map fst (xs @ (n, j) # ys))" using o1(3) n(2) unfolding sl by auto
  moreover have "live_pending (jobs t) (ln\<lparr>ln_pending := bts_insert (n, j) (ln_pending ln)\<rparr>) = xs @ (n, j) # ys"
    using live by simp
  ultimately have "distinct (map fst (live_pending (jobs t) (ln\<lparr>ln_pending := bts_insert (n, j) (ln_pending ln)\<rparr>)))"
    by (simp only:)
  then show "orders_ok t l"
    using o1(1,2) n(1) unfolding orders_ok_def get option.case
    by (intro conjI) (simp_all add: list_all_iff ln(4))
qed

lemma insert_pending_has:
  assumes "insert_lane_pending l j inherited mode s = (order, u)"
  shows "hm_has (jobs u) i = hm_has (jobs s) i"
proof (cases inherited)
  case None
  then have "jobs u = jobs (rebase_lane_orders l (open_lane l mode s))"
    using assms unfolding insert_lane_pending_def Let_def open_lane_def[symmetric] by auto
  then show ?thesis by (simp only: rebase_lane_orders_has open_lane_same)
next
  case (Some n)
  then have "jobs u = jobs s"
    using assms unfolding insert_lane_pending_def Let_def open_lane_def[symmetric] by auto
  then show ?thesis by simp
qed

lemma place_job_quiet:
  assumes "m_lane (j_meta job) = Some l"
    and "insert_lane_pending l j (j_lane_order job) (opt_lane_mode opts) s = (order, v)"
  shows "quiet (v\<lparr>jobs := set_order (order, j) (jobs v)\<rparr>) (place_job j job superseded opts s)"
proof -
  let ?u = "v\<lparr>jobs := set_order (order, j) (jobs v)\<rparr>"
  let ?w = "?u\<lparr>lanes := hm_adjust l (\<lambda>n. n\<lparr>ln_in_candidate_heap := False, ln_candidate_effective := 0\<rparr>)
    (lanes ?u)\<rparr>"
  have "quiet ?u ?w" by (rule quiet_lane_adjust) simp_all
  moreover have "place_job j job superseded opts s = push_lane_head_candidate l (opt_now opts) ?w
    \<or> place_job j job superseded opts s = push_lane_head_candidate l (opt_now opts) ?u"
    using assms unfolding place_job_def Let_def by simp
  ultimately show ?thesis using quiet_push_lane[of ?u ?u] quiet_push_lane[of ?u ?w] by auto
qed

lemma place_job_coalesce: "coalesce (place_job j job superseded opts s) = coalesce s"
proof (cases "m_lane (j_meta job)")
  case None
  then show ?thesis using quiet_push_job[of s s] by (auto simp: place_job_def quiet_def)
next
  case (Some l)
  obtain order v where ins: "insert_lane_pending l j (j_lane_order job) (opt_lane_mode opts) s = (order, v)"
    by fastforce
  then have "coalesce v = coalesce s"
    by (auto simp: insert_lane_pending_def rebase_lane_orders_def Let_def split: option.splits if_splits)
  then show ?thesis using place_job_quiet[OF Some ins, of superseded] by (simp add: quiet_def)
qed

text \<open>The state in which the job is in the job map but not yet in its lane.\<close>

lemma with_job_lines:
  assumes ok: "sched_ok s" and "jobs s2 = jobs (with_job job s)" and "lanes s2 = lanes s"
  shows "slots s2 l = slots s l" and "line s2 l = line s l" and "orders_ok s2 l = orders_ok s l"
    and "seat s2 l = seat s l" and "counter s2 l = counter s l"
    and "lane_room s2 l (next_job_id s) \<longleftrightarrow>
      (\<forall>ln. hm_get (lanes s) l = Some ln \<longrightarrow> length (ln_pending ln) < 2 ^ 64)"
proof -
  have lanes: "lanes_ok s" using ok by (simp add: sched_ok_def)
  have below: "list_all (\<lambda>p. snd p < next_job_id s) (ln_pending ln)" "sorted_wrt (<) (ln_pending ln)"
    if "hm_get (lanes s) l = Some ln" for ln
    using lanes that unfolding lanes_ok_def lane_entry_ok_def by (auto simp: list_all_iff)
  have live: "live_pending (jobs s2) ln = live_pending (jobs s) ln" if "hm_get (lanes s) l = Some ln" for ln
  proof (rule filter_cong[OF refl])
    fix p assume "p \<in> set (ln_pending ln)"
    then have "snd p < next_job_id s" using below(1)[OF that] by (simp add: list_all_iff)
    then show "hm_has (jobs s2) (snd p) = hm_has (jobs s) (snd p)" by (simp add: assms(2) with_job_def)
  qed
  show slots: "slots s2 l = slots s l"
    unfolding slots_def assms(3) using live by (cases "hm_get (lanes s) l") simp_all
  then show "line s2 l = line s l" by (simp add: line_slots)
  show "orders_ok s2 l = orders_ok s l"
    unfolding orders_ok_def assms(3) using live by (cases "hm_get (lanes s) l") simp_all
  show "seat s2 l = seat s l" "counter s2 l = counter s l" by (simp_all add: seat_def counter_def assms(3))
  show "lane_room s2 l (next_job_id s) \<longleftrightarrow>
      (\<forall>ln. hm_get (lanes s) l = Some ln \<longrightarrow> length (ln_pending ln) < 2 ^ 64)"
    unfolding lane_room_def assms(3) using below by blast
qed

definition lane_small :: "scheduler_state \<Rightarrow> lane_key \<Rightarrow> bool" where
  "lane_small s l \<longleftrightarrow> (\<forall>ln. hm_get (lanes s) l = Some ln \<longrightarrow> length (ln_pending ln) < 2 ^ 64)"

lemma insert_job_lines:
  assumes ok: "sched_ok s" and ins: "insert_job meta opts key ih s = (out, t)"
  defines "j \<equiv> next_job_id s" and "mode \<equiv> opt_lane_mode opts"
  shows "coalesce t = (case key of None \<Rightarrow> coalesce s | Some k \<Rightarrow> hm_insert k j (coalesce s))"
    and "m_lane meta \<noteq> Some l \<Longrightarrow>
      line t l = line s l \<and> seat_step (seat s l) (seat t l) \<and> (orders_ok s l \<longrightarrow> orders_ok t l)"
    and "m_lane meta = Some l \<Longrightarrow> seat_step (Some (fresh_seat mode (seat s l))) (seat t l)"
    and "m_lane meta = Some l \<Longrightarrow> ih_lane_order ih = None \<Longrightarrow> orders_ok s l \<Longrightarrow> lane_small s l \<Longrightarrow>
      line t l = line s l @ [j] \<and> orders_ok t l"
    and "m_lane meta = Some l \<Longrightarrow> ih_lane_order ih = Some n \<Longrightarrow> orders_ok s l \<Longrightarrow> lane_small s l
      \<Longrightarrow> (counter s l \<noteq> 0 \<longrightarrow> n < counter s l) \<Longrightarrow> slots s l = xs @ ys
      \<Longrightarrow> (\<forall>p\<in>set xs. fst p < n) \<Longrightarrow> (\<forall>p\<in>set ys. n < fst p)
      \<Longrightarrow> line t l = map snd xs @ j # map snd ys \<and> orders_ok t l"
proof -
  let ?job = "new_job meta opts key ih"
  define s1 where "s1 = with_job ?job s"
  define s2 where "s2 = (case opt_not_before opts of None \<Rightarrow> s1
    | Some nb \<Rightarrow> s1\<lparr>delayed := heap_push (Reverse (DelayedJob nb (ih_sequence ih) j)) (delayed s1)\<rparr>)"
  define s3 where "s3 = place_job j ?job (ih_superseded ih) opts s2"
  define s4 where "s4 = (case key of None \<Rightarrow> s3 | Some k \<Rightarrow> s3\<lparr>coalesce := hm_insert k j (coalesce s3)\<rparr>)"
  have t: "t = compact_blocked_if_needed (compact_candidate_heap_if_needed (compact_delayed_if_needed s4))"
    using ins unfolding insert_job_def with_job_def[symmetric] Let_def s4_def s3_def s2_def s1_def j_def by simp
  have q: "quiet s4 t" unfolding t by (intro quiet_compact quiet_refl)
  have same2: "jobs s2 = jobs (with_job ?job s)" "lanes s2 = lanes s" "coalesce s2 = coalesce s"
    by (simp_all add: s2_def s1_def with_job_def split: option.split)
  note w = with_job_lines[OF ok same2(1,2)]
  have has_j: "hm_has (jobs s2) j" by (simp add: same2 with_job_def j_def)
  have s4: "line s4 l = line s3 l" "seat s4 l = seat s3 l" "orders_ok s4 l = orders_ok s3 l" for l
    by (simp_all add: s4_def line_def seat_def orders_ok_def split: option.split)
  have fin: "line t l = line s3 l" "seat_step (seat s3 l) (seat t l)" "orders_ok s3 l \<Longrightarrow> orders_ok t l" for l
    using quiet_line[OF q, of l] quiet_seat[OF q, of l] quiet_orders[OF q, of l] s4 by simp_all
  have "coalesce s3 = coalesce s" by (simp add: s3_def place_job_coalesce same2)
  then show "coalesce t = (case key of None \<Rightarrow> coalesce s | Some k \<Rightarrow> hm_insert k j (coalesce s))"
    using q by (simp add: quiet_def s4_def split: option.split)
  have meta: "j_meta ?job = meta" and order: "m_lane meta = Some l \<Longrightarrow> j_lane_order ?job = ih_lane_order ih" for l
    by (simp_all add: new_job_def split: option.split)
  show "line t l = line s l \<and> seat_step (seat s l) (seat t l) \<and> (orders_ok s l \<longrightarrow> orders_ok t l)"
    if l: "m_lane meta \<noteq> Some l"
  proof (cases "m_lane meta")
    case None
    then have "quiet s2 s3" using quiet_push_job[of s2 s2] by (simp add: s3_def place_job_def meta)
    note q3 = quiet_line[OF this, of l] quiet_seat[OF this, of l] quiet_orders[OF this, of l]
    show ?thesis using q3 w fin seat_step_trans by metis
  next
    case (Some l')
    obtain order v where i: "insert_lane_pending l' j (j_lane_order ?job) mode s2 = (order, v)" by fastforce
    let ?u = "v\<lparr>jobs := set_order (order, j) (jobs v)\<rparr>"
    have q3: "quiet ?u s3" unfolding s3_def
      by (rule place_job_quiet) (use Some i in \<open>simp_all add: meta mode_def\<close>)
    have get: "hm_get (lanes ?u) l = hm_get (lanes s2) l"
      using insert_pending_other[OF i, of l] l Some by auto
    have has: "hm_has (jobs ?u) i = hm_has (jobs s2) i" for i
    proof -
      have "hm_has (jobs v) i = hm_has (jobs s2) i" by (rule insert_pending_has[OF i])
      moreover have "jobs ?u = set_order (order, j) (jobs v)" by simp
      ultimately show ?thesis by (simp only: set_order_has)
    qed
    have u: "line ?u l = line s2 l" "seat ?u l = seat s2 l" "orders_ok ?u l = orders_ok s2 l"
      unfolding line_def seat_def orders_ok_def get has by (rule refl)+
    have "line t l = line s l" using fin(1) quiet_line[OF q3] u(1) w(2) by simp
    moreover have "seat_step (seat s l) (seat t l)"
      using seat_step_trans[OF quiet_seat[OF q3] fin(2)] u(2) w(4) by metis
    ultimately show ?thesis using fin(3) quiet_orders[OF q3] u(3) w(3) by blast
  qed
  show "seat_step (Some (fresh_seat mode (seat s l))) (seat t l)" if l: "m_lane meta = Some l"
  proof -
    obtain order v where i: "insert_lane_pending l j (j_lane_order ?job) mode s2 = (order, v)" by fastforce
    let ?u = "v\<lparr>jobs := set_order (order, j) (jobs v)\<rparr>"
    have q3: "quiet ?u s3" unfolding s3_def
      by (rule place_job_quiet) (use l i in \<open>simp_all add: meta mode_def\<close>)
    have "seat ?u l = Some (fresh_seat mode (seat s2 l))"
    proof -
      obtain ln where ln: "hm_get (lanes (open_lane l mode s2)) l = Some ln"
        "seat_of ln = fresh_seat mode (seat s2 l)" by (rule open_lane_facts)
      show ?thesis using i ln
        by (auto simp: insert_lane_pending_def open_lane_def rebase_lane_orders_def Let_def seat_def seat_of_def
            split: option.splits if_splits)
    qed
    then show ?thesis using seat_step_trans[OF quiet_seat[OF q3] fin(2), of l] w(4) by simp
  qed
  show "line t l = line s l @ [j] \<and> orders_ok t l"
    if l: "m_lane meta = Some l" and ih: "ih_lane_order ih = None" and o: "orders_ok s l" and sm: "lane_small s l"
  proof -
    obtain order v where i: "insert_lane_pending l j None mode s2 = (order, v)" by fastforce
    let ?u = "v\<lparr>jobs := set_order (order, j) (jobs v)\<rparr>"
    have q3: "quiet ?u s3" unfolding s3_def
      by (rule place_job_quiet) (use l i ih order in \<open>simp_all add: meta mode_def\<close>)
    have room: "lane_room s2 l j" using w(6) sm by (simp add: j_def lane_small_def)
    have o2: "orders_ok s2 l" using o w(3) by simp
    note u = insert_fresh_lines[OF i o2 room has_j]
    show ?thesis using fin(1,3) quiet_line[OF q3] quiet_orders[OF q3] u(1,2) w(2) by simp
  qed
  show "line t l = map snd xs @ j # map snd ys \<and> orders_ok t l"
    if l: "m_lane meta = Some l" and ih: "ih_lane_order ih = Some n" and o: "orders_ok s l" and sm: "lane_small s l"
      and n: "counter s l \<noteq> 0 \<longrightarrow> n < counter s l" and sl: "slots s l = xs @ ys"
      and xs: "\<forall>p\<in>set xs. fst p < n" and ys: "\<forall>p\<in>set ys. n < fst p"
  proof -
    obtain order v where i: "insert_lane_pending l j (Some n) mode s2 = (order, v)" by fastforce
    let ?u = "v\<lparr>jobs := set_order (order, j) (jobs v)\<rparr>"
    have q3: "quiet ?u s3" unfolding s3_def
      by (rule place_job_quiet) (use l i ih order in \<open>simp_all add: meta mode_def\<close>)
    have room: "lane_room s2 l j" using w(6) sm by (simp add: j_def lane_small_def)
    have o2: "orders_ok s2 l" using o w(3) by simp
    have c2: "counter s2 l \<noteq> 0 \<Longrightarrow> n < counter s2 l" using n w(5) by simp
    have f2: "n \<notin> fst ` set (slots s2 l)" using xs ys by (auto simp: w(1) sl)
    have sl2: "slots s2 l = xs @ ys" using sl w(1) by simp
    note u = insert_inherited_lines[OF i o2 room has_j c2 f2 sl2]
    show ?thesis using fin(1,3) quiet_line[OF q3] quiet_orders[OF q3] u(1,2) xs ys by simp
  qed
qed

end
