(* ===== verification/Scheduler_Replace.thy ===== *)
theory Scheduler_Replace
  imports Scheduler_Slots
begin

text \<open>
  Latest-wins replacement.  \<open>coalesce_ok\<close>: the slot map names, for every slot, the one pending
  request that carries it.  Under it an enqueue appends to the line of its lane, or puts the new
  request exactly where the superseded one stood.
\<close>

definition coalesce_ok :: "scheduler_state \<Rightarrow> bool" where
  "coalesce_ok s \<longleftrightarrow>
     (\<forall>k j. hm_get (coalesce s) k = Some j \<longrightarrow> (\<exists>m c. job_req s j = Some (m, c, Some k)))
     \<and> (\<forall>j m c k. job_req s j = Some (m, c, Some k) \<longrightarrow> hm_get (coalesce s) k = Some j
          \<and> ck_scope k = m_scope m \<and> ck_lane k = m_lane m \<and> ck_class k = m_class m)"

lemma kept_length:
  assumes "lane_kept js (Some a) (Some b)" and "sorted_wrt (<) (ln_pending a)"
  shows "length (ln_pending b) \<le> length (ln_pending a)"
proof -
  have "set (ln_pending b) \<subseteq> set (ln_pending a)" "sorted_wrt (<) (ln_pending b)"
    using assms by (simp_all add: lane_kept_def)
  then have "card (set (ln_pending b)) \<le> card (set (ln_pending a))"
    "distinct (ln_pending b)" "distinct (ln_pending a)"
    using assms(2) by (auto simp: strict_sorted_iff intro: card_mono)
  then show ?thesis by (simp add: distinct_card)
qed

lemma quiet_small:
  assumes q: "quiet s t" and ok: "lanes_ok s" and small: "lane_small s l"
  shows "lane_small t l"
  unfolding lane_small_def
proof (intro allI impI)
  fix ln assume ln: "hm_get (lanes t) l = Some ln"
  with quiet_kept[OF q, of l] obtain ln0 where ln0: "hm_get (lanes s) l = Some ln0"
    by (cases "hm_get (lanes s) l") (auto simp: lane_kept_def)
  then have "sorted_wrt (<) (ln_pending ln0)" using ok unfolding lanes_ok_def by blast
  then have "length (ln_pending ln) \<le> length (ln_pending ln0)"
    using kept_length quiet_kept[OF q, of l] ln ln0 by metis
  also have "\<dots> < 2 ^ 64" using small ln0 by (simp add: lane_small_def)
  finally show "length (ln_pending ln) < 2 ^ 64" .
qed

lemma remove_waiting_small:
  assumes ok: "sched_ok s" and job: "hm_get (jobs s) j = Some job" and small: "lane_small s l"
  shows "lane_small (remove_waiting j now s) l"
proof -
  obtain u where q: "quiet s u" and q': "quiet (u\<lparr>jobs := hm_remove j (jobs u),
      coalesce := slot_freed j (j_coalesce_key job) (coalesce u)\<rparr>) (remove_waiting j now s)"
    by (rule before_removal_lines[OF ok job])
  let ?v = "u\<lparr>jobs := hm_remove j (jobs u), coalesce := slot_freed j (j_coalesce_key job) (coalesce u)\<rparr>"
  have "lanes_ok u" using quiet_lanes_ok[OF q] ok by (simp add: sched_ok_def)
  then have sorted: "sorted_wrt (<) (ln_pending ln)" if "hm_get (lanes ?v) l = Some ln" for ln
    using that unfolding lanes_ok_def by simp
  have sv: "lane_small ?v l" using quiet_small[OF q _ small] ok by (simp add: sched_ok_def lane_small_def)
  show ?thesis
    unfolding lane_small_def
  proof (intro allI impI)
    fix ln assume ln: "hm_get (lanes (remove_waiting j now s)) l = Some ln"
    with quiet_kept[OF q', of l] obtain ln0 where ln0: "hm_get (lanes ?v) l = Some ln0"
      by (cases "hm_get (lanes ?v) l") (auto simp: lane_kept_def)
    then have "length (ln_pending ln) \<le> length (ln_pending ln0)"
      using kept_length quiet_kept[OF q', of l] sorted[OF ln0] ln by metis
    also have "\<dots> < 2 ^ 64" using sv ln0 unfolding lane_small_def by blast
    finally show "length (ln_pending ln) < 2 ^ 64" .
  qed
qed

text \<open>Where the superseded request stood.\<close>

lemma place_of:
  assumes ok: "sched_ok s" and o: "orders_ok s l" and job: "hm_get (jobs s) old = Some job"
    and l: "m_lane (j_meta job) = Some l"
  obtains n xs ys where "slots s l = xs @ (n, old) # ys" and "j_lane_order job = Some n"
    and "\<forall>p\<in>set xs. fst p < n" and "\<forall>p\<in>set ys. n < fst p" and "counter s l \<noteq> 0 \<longrightarrow> n < counter s l"
    and "\<forall>p\<in>set (xs @ ys). snd p \<noteq> old"
proof -
  have lo: "lane_of s old = Some l" using job l by (simp add: lane_of_def job_static_def static_def)
  then obtain n where n: "(n, old) \<in> set (slots s l)"
    using line_facts(2)[OF ok, of old l] by (auto simp: line_slots)
  then obtain ln where ln: "hm_get (lanes s) l = Some ln" "(n, old) \<in> set (ln_pending ln)"
    by (cases "hm_get (lanes s) l") (auto simp: slots_def)
  have "lane_entry_ok s l (n, old)"
    using ok ln unfolding sched_ok_def lanes_ok_def by (auto simp: list_all_iff)
  then have order: "j_lane_order job = Some n"
    using job by (auto simp: lane_entry_ok_def job_static_def static_def)
  obtain xs ys where split: "slots s l = xs @ (n, old) # ys" using n by (meson split_list)
  have "distinct (map fst (slots s l))"
    using o ln(1) by (simp add: orders_ok_def slots_def)
  then have d: "n \<notin> fst ` set xs" "n \<notin> fst ` set ys" using split by auto
  have "sorted_wrt (<) (xs @ (n, old) # ys)" using sorted_slots[OF ok, of l] split by simp
  then have lt: "\<forall>p\<in>set xs. p < (n, old)" "\<forall>p\<in>set ys. (n, old) < p" by (simp_all add: sorted_wrt_append)
  have "\<forall>p\<in>set xs. fst p < n" using lt(1) d(1) by (force simp: less_prod_def)
  moreover have "\<forall>p\<in>set ys. n < fst p" using lt(2) d(2) by (force simp: less_prod_def)
  moreover have "counter s l \<noteq> 0 \<longrightarrow> n < counter s l"
    using o ln by (auto simp: orders_ok_def counter_def list_all_iff)
  moreover have "distinct (map snd (xs @ (n, old) # ys))"
    using line_facts(1)[OF ok, of l] by (simp add: line_slots split)
  then have "\<forall>p\<in>set (xs @ ys). snd p \<noteq> old" by force
  ultimately show thesis using that split order by blast
qed

lemma replaceable_iff:
  assumes "sched_ok s" and "coalesce_ok s"
  shows "replaceable key s = Option.bind key (hm_get (coalesce s))"
proof (cases "Option.bind key (hm_get (coalesce s))")
  case None
  then show ?thesis by (cases key) (simp_all add: replaceable_def)
next
  case (Some j)
  then obtain k where k: "key = Some k" "hm_get (coalesce s) k = Some j" by (cases key) auto
  then have "job_req s j \<noteq> None" using assms(2) unfolding coalesce_ok_def by fastforce
  then have "hm_has (jobs s) j" unfolding job_req_has .
  moreover have "\<not> hm_has (in_flight s) j"
    using assms(1) calculation unfolding sched_ok_def flights_ok_def by blast
  ultimately show ?thesis using k Some by (simp add: replaceable_def)
qed

definition replaced :: "job_id option \<Rightarrow> job_id \<Rightarrow> job_id list \<Rightarrow> job_id list" where
  "replaced old j is = (case old of None \<Rightarrow> is | Some o' \<Rightarrow> map (\<lambda>i. if i = o' then j else i) is)"

lemma replaced_absent: "o' \<notin> set is \<Longrightarrow> replaced (Some o') j is = is"
  by (auto simp: replaced_def intro!: map_idI)

lemma enqueue_lines:
  assumes ok: "sched_ok s" and co: "coalesce_ok s" and enq: "enqueue meta opts s = (Inr out, t)"
    and o: "\<And>l. orders_ok s l" and small: "\<And>l. lane_small s l"
  defines "j \<equiv> eo_job out" and "key \<equiv> coalesce_key_of meta (opt_mode opts)"
  shows "line t l = replaced (eo_superseded out) j (line s l)
      @ (if m_lane meta = Some l \<and> eo_superseded out = None then [j] else [])"
    and "orders_ok t l"
    and "m_lane meta \<noteq> Some l \<Longrightarrow> seat_step (seat s l) (seat t l)"
    and "m_lane meta = Some l \<Longrightarrow>
      \<exists>v. seat_step (seat s l) v \<and> seat_step (Some (fresh_seat (opt_lane_mode opts) v)) (seat t l)"
    and "hm_get (coalesce t) k = (if key = Some k then Some j else hm_get (coalesce s) k)"
proof -
  obtain ih s1 where sup: "supersede meta key (opt_now opts) s = Inr (ih, s1)"
    and ins: "insert_job meta opts key ih s1 = (out, t)"
    using enq by (auto simp: enqueue_def Let_def key_def split: option.splits sum.splits prod.splits if_splits)
  note sp = supersede_spec[OF ok sup]
  have ok1: "sched_ok s1" and sup_eq: "ih_superseded ih = replaceable key s"
    and id1: "next_job_id s1 = next_job_id s" using sp by blast+
  note i = insert_job_lines[OF ok1 ins]
  have out: "j = next_job_id s1" "eo_superseded out = replaceable key s"
    using insert_job_ok(2,3)[OF ok1 ins] sup_eq by (simp_all add: inserts_def j_def)
  have none: "line t l = line s l @ (if m_lane meta = Some l then [j] else []) \<and> orders_ok t l
    \<and> seat_step (seat s l) (seat s1 l) \<and> (\<forall>k. hm_get (coalesce s1) k = hm_get (coalesce s) k)"
    if n: "replaceable key s = None"
  proof -
    have q: "quiet s s1" using sp n by simp
    have ihn: "ih_lane_order ih = None" using sup n by (auto simp: supersede_def split: prod.splits)
    have "orders_ok s1 l" "lane_small s1 l" "line s1 l = line s l"
      using quiet_orders[OF q o] quiet_small[OF q _ small] ok quiet_line[OF q] by (simp_all add: sched_ok_def)
    then show ?thesis using i(2)[of l] i(4)[of l, OF _ ihn] quiet_seat[OF q, of l] q out(1)
      by (cases "m_lane meta = Some l") (simp_all add: quiet_def)
  qed
  have some: "line t l = replaced (Some old) j (line s l) \<and> orders_ok t l \<and> seat_step (seat s l) (seat s1 l)
      \<and> (\<forall>k. key \<noteq> Some k \<longrightarrow> hm_get (coalesce s1) k = hm_get (coalesce s) k)"
    if n: "replaceable key s = Some old" for old
  proof -
    obtain job where job: "hm_get (jobs s) old = Some job" and order: "ih_lane_order ih = j_lane_order job"
      using sp n by auto
    have s1: "s1 = remove_waiting old (opt_now opts) s"
      using sup n job by (auto simp: supersede_def split: if_splits)
    obtain k0 where k0: "key = Some k0" "hm_get (coalesce s) k0 = Some old"
      using n replaceable_iff[OF ok co, of key] by (cases key) auto
    have "job_req s old = Some (j_meta job, j_correlation job, j_coalesce_key job)"
      using job by (simp add: job_req_def)
    then have ck: "j_coalesce_key job = Some k0" "ck_lane k0 = m_lane (j_meta job)"
      using co k0(2) unfolding coalesce_ok_def by fastforce+
    have same_lane: "m_lane (j_meta job) = m_lane meta"
      using ck(2) k0(1) by (auto simp: key_def coalesce_key_of_def split: outbound_enqueue_mode.splits)
    have lo: "lane_of s old = m_lane meta"
      using job same_lane by (simp add: lane_of_def job_static_def static_def)
    note r = remove_waiting_lines[OF ok job, folded s1]
    have r1: "slots s1 l = filter (\<lambda>p. snd p \<noteq> old) (slots s l)" "line s1 l = filter (\<lambda>i. i \<noteq> old) (line s l)"
      "seat_step (seat s l) (seat s1 l)" "orders_ok s1 l"
      "coalesce s1 = slot_freed old (Some k0) (coalesce s)"
      "counter s1 l = counter s l \<or> hm_get (lanes s1) l = None"
      using remove_waiting_lines[OF ok job] o ck(1) s1 by auto
    have slots1: "\<forall>k. key \<noteq> Some k \<longrightarrow> hm_get (coalesce s1) k = hm_get (coalesce s) k"
      by (simp add: r1(5) slot_freed_def k0)
    show ?thesis
    proof (cases "m_lane meta = Some l")
      case False
      then have "old \<notin> set (line s l)" using line_facts(2)[OF ok, of old l] lo by simp
      then have "line s1 l = line s l" "replaced (Some old) j (line s l) = line s l"
        by (simp_all add: r1(2) replaced_absent filter_id_conv) metis
      then show ?thesis using i(2)[OF False] r1(3,4) slots1 by simp
    next
      case True
      obtain n xs ys where p: "slots s l = xs @ (n, old) # ys" "j_lane_order job = Some n"
        "\<forall>p\<in>set xs. fst p < n" "\<forall>p\<in>set ys. n < fst p" "counter s l \<noteq> 0 \<longrightarrow> n < counter s l"
        "\<forall>p\<in>set (xs @ ys). snd p \<noteq> old"
        by (rule place_of[OF ok o job]) (use same_lane True in auto)
      have sl: "slots s1 l = xs @ ys" using p(6) by (simp add: r1(1) p(1) filter_id_conv)
      have c1: "counter s1 l \<noteq> 0 \<longrightarrow> n < counter s1 l"
        using r1(6) p(5) by (auto simp: counter_def)
      have small1: "lane_small s1 l" using remove_waiting_small[OF ok job small] s1 by simp
      have "line t l = map snd xs @ j # map snd ys \<and> orders_ok t l"
        using i(5)[OF True _ r1(4) small1 c1 sl p(3,4)] order p(2) out(1) by simp
      moreover have "replaced (Some old) j (line s l) = map snd xs @ j # map snd ys"
        using p(6) by (auto simp: line_slots p(1) replaced_def)
      ultimately show ?thesis using r1(3) slots1 by simp
    qed
  qed
  have all: "line t l = replaced (eo_superseded out) j (line s l)
      @ (if m_lane meta = Some l \<and> eo_superseded out = None then [j] else [])
    \<and> orders_ok t l \<and> seat_step (seat s l) (seat s1 l)
    \<and> (\<forall>k. key \<noteq> Some k \<longrightarrow> hm_get (coalesce s1) k = hm_get (coalesce s) k)"
    using none some out(2) by (cases "replaceable key s") (simp_all add: replaced_def)
  then show "line t l = replaced (eo_superseded out) j (line s l)
      @ (if m_lane meta = Some l \<and> eo_superseded out = None then [j] else [])" and "orders_ok t l" by blast+
  show "m_lane meta \<noteq> Some l \<Longrightarrow> seat_step (seat s l) (seat t l)"
    using all i(2)[of l] seat_step_trans by blast
  show "m_lane meta = Some l \<Longrightarrow>
      \<exists>v. seat_step (seat s l) v \<and> seat_step (Some (fresh_seat (opt_lane_mode opts) v)) (seat t l)"
    using all i(3)[of l] by blast
  show "hm_get (coalesce t) k = (if key = Some k then Some j else hm_get (coalesce s) k)"
    using all out(1) by (auto simp: i(1) split: option.split)
qed

end
