(* ===== verification/Scheduler_Machine.thy ===== *)
theory Scheduler_Machine
  imports Scheduler_Replace
begin

text \<open>
  The scheduler as a transition system.  A machine is the clock, the requests whose start was
  reported, and the scheduler; a step lets the clock advance or is one call of the actor.  Every
  lane is always used with the same mode, and a lane's queue is shorter than \<open>2 ^ 64\<close> entries.
\<close>

record machine =
  clock :: instant
  started :: "job_id list"
  sched :: scheduler_state

inductive sched_step :: "(lane_key \<Rightarrow> outbound_lane_mode) \<Rightarrow> machine \<Rightarrow> machine \<Rightarrow> bool"
  for modes where
  step_tick: "clock m \<le> t \<Longrightarrow> sched_step modes m (m\<lparr>clock := t\<rparr>)"
| step_enqueue: "enqueue meta opts (sched m) = (r, s) \<Longrightarrow> opt_now opts = clock m
    \<Longrightarrow> (\<forall>l. m_lane meta = Some l \<longrightarrow> opt_lane_mode opts = modes l) \<Longrightarrow> (\<forall>l. lane_small (sched m) l)
    \<Longrightarrow> sched_step modes m (m\<lparr>sched := s\<rparr>)"
| step_cancel: "sched_step modes m (m\<lparr>sched := cancel j (clock m) (sched m)\<rparr>)"
| step_grant: "grant_ready (clock m) (sched m) = Some (gs, s) \<Longrightarrow> sched_step modes m (m\<lparr>sched := s\<rparr>)"
| step_start: "sched_step modes m (m\<lparr>sched := start j (clock m) (sched m),
    started := (if hm_has (in_flight (sched m)) j then j # started m else started m)\<rparr>)"
| step_complete: "sched_step modes m (m\<lparr>sched := complete j c (clock m) seen (sched m)\<rparr>)"
| step_penalize: "sched_step modes m (m\<lparr>sched := penalize sc until (sched m)\<rparr>)"
| step_limits: "set_limits limits (clock m) (sched m) = (r, s) \<Longrightarrow> sched_step modes m (m\<lparr>sched := s\<rparr>)"
| step_class_limits: "set_class_limits climits (clock m) (sched m) = (r, s)
    \<Longrightarrow> sched_step modes m (m\<lparr>sched := s\<rparr>)"
| step_deadline: "next_deadline (clock m) (sched m) = (w, s) \<Longrightarrow> sched_step modes m (m\<lparr>sched := s\<rparr>)"

definition sched_init :: "machine \<Rightarrow> bool" where
  "sched_init m \<longleftrightarrow> started m = [] \<and>
     (\<exists>limits climits ag. scheduler_new limits climits ag = Inr (sched m) \<and> aging_ok ag)"

interpretation sys: transition_system sched_init "sched_step modes" for modes .

subsection \<open>What start, complete and the controls leave alone\<close>

definition release_on_start :: "job_id \<Rightarrow> seat \<Rightarrow> seat" where
  "release_on_start j x = (if fst x = OrderedStart \<and> fst (snd x) = Some j then (OrderedStart, None, 0) else x)"

definition release_on_complete :: "job_id \<Rightarrow> seat \<Rightarrow> seat" where
  "release_on_complete j x =
     (case x of (m, h, n) \<Rightarrow>
        (case m of
           BoundedOrderedStart _ \<Rightarrow> (m, h, n - 1)
         | _ \<Rightarrow> if h = Some j then (m, None, 0) else x))"

text \<open>The same requests, positions and slots; a seat of a lane outside \<open>ls\<close> changes quietly.\<close>

definition same_queues :: "scheduler_state \<Rightarrow> scheduler_state \<Rightarrow> bool" where
  "same_queues s t \<longleftrightarrow> job_req t = job_req s \<and> coalesce t = coalesce s
     \<and> (\<forall>l. line t l = line s l) \<and> (\<forall>l. orders_ok s l \<longrightarrow> orders_ok t l)"

lemma quiet_same_queues: "quiet s t \<Longrightarrow> same_queues s t"
proof -
  assume q: "quiet s t"
  have "coalesce t = coalesce s" using q by (simp add: quiet_def)
  then show ?thesis
    unfolding same_queues_def quiet_req[OF q] quiet_line[OF q] using quiet_orders[OF q] by blast
qed

lemma same_queues_trans: "same_queues s t \<Longrightarrow> same_queues t u \<Longrightarrow> same_queues s u"
  by (simp add: same_queues_def)

lemma same_queues_lanes:
  assumes j: "jobs t = jobs s" and c: "coalesce t = coalesce s"
    and sub: "\<And>l. hm_get (lanes t) l = hm_get (lanes s) l
      \<or> (\<exists>ln. hm_get (lanes s) l = Some ln \<and> (\<exists>ln'. hm_get (lanes t) l = Some ln'
            \<and> ln_pending ln' = ln_pending ln \<and> ln_next_order ln' = ln_next_order ln)
          \<or> hm_get (lanes s) l = Some ln \<and> hm_get (lanes t) l = None \<and> ln_pending ln = [])"
  shows "same_queues s t"
proof -
  have "line t l = line s l \<and> (orders_ok s l \<longrightarrow> orders_ok t l)" for l
    using sub[of l] unfolding line_def orders_ok_def j by (elim disjE exE conjE) simp_all
  then show ?thesis by (simp add: same_queues_def c job_req_def[abs_def] j)
qed

lemma same_queues_lane:
  assumes "hm_get (lanes s) l = Some ln" and "ln_pending ln' = ln_pending ln"
    and "ln_next_order ln' = ln_next_order ln"
  shows "same_queues s (s\<lparr>lanes := hm_insert l ln' (lanes s)\<rparr>)"
  by (rule same_queues_lanes) (use assms in auto)

lemma same_queues_lane_gone:
  assumes "hm_get (lanes s) l = Some ln" and "ln_pending ln = []"
  shows "same_queues s (s\<lparr>lanes := hm_remove l (lanes s)\<rparr>)"
  by (rule same_queues_lanes) (use assms in auto)

text \<open>The lane of a permit that ends: a new seat, then the head is pushed or the lane forgotten.\<close>

lemma released_lane:
  assumes lane: "hm_get (lanes s) l = Some ln" and p: "ln_pending ln' = ln_pending ln"
    and n: "ln_next_order ln' = ln_next_order ln"
  defines "s1 \<equiv> s\<lparr>lanes := hm_insert l ln' (lanes s)\<rparr>"
  assumes t: "t = push_lane_head_candidate l now s1 \<or> t = s1
    \<or> t = s1\<lparr>lanes := hm_remove l (lanes s1)\<rparr> \<and> ln_pending ln = [] \<and> lane_free ln'"
  shows "same_queues s t" and "same_env s t" and "next_job_id t = next_job_id s"
    and "seat_step (Some (seat_of ln')) (seat t l)" and "l' \<noteq> l \<Longrightarrow> seat_step (seat s l') (seat t l')"
proof -
  have s1: "same_queues s s1" "same_env s s1" "next_job_id s1 = next_job_id s" "seat s1 l = Some (seat_of ln')"
    "\<And>l'. l' \<noteq> l \<Longrightarrow> seat s1 l' = seat s l'"
    using same_queues_lane[OF lane p n] by (simp_all add: s1_def same_env_def seat_def)
  have q: "quiet s1 (push_lane_head_candidate l now s1)" by (rule quiet_push_lane) simp
  have gone: "same_queues s1 (s1\<lparr>lanes := hm_remove l (lanes s1)\<rparr>)" if "ln_pending ln = []"
    by (rule same_queues_lane_gone[of _ _ ln']) (simp_all add: s1_def p that)
  have all: "same_queues s1 t \<and> same_env s1 t \<and> next_job_id t = next_job_id s1 \<and> seat_step (seat s1 l) (seat t l)
    \<and> (\<forall>l'. l' \<noteq> l \<longrightarrow> seat_step (seat s1 l') (seat t l'))"
    using t
  proof (elim disjE conjE)
    assume "t = push_lane_head_candidate l now s1"
    then show ?thesis using quiet_same_queues[OF q] quiet_same_env[OF q] quiet_seat[OF q] q
      by (simp add: quiet_def)
  next
    assume "t = s1"
    then show ?thesis by (simp add: same_queues_def same_env_def)
  next
    assume "t = s1\<lparr>lanes := hm_remove l (lanes s1)\<rparr>" "ln_pending ln = []" "lane_free ln'"
    then show ?thesis using gone
      by (simp add: same_env_def seat_step_def s1(4) seat_free_lane) (simp add: seat_def)
  qed
  then show "same_queues s t" "same_env s t" "next_job_id t = next_job_id s"
    "seat_step (Some (seat_of ln')) (seat t l)" "l' \<noteq> l \<Longrightarrow> seat_step (seat s l') (seat t l')"
    using s1 same_queues_trans same_env_trans by auto
qed

definition lane_of_permit :: "scheduler_state \<Rightarrow> job_id \<Rightarrow> lane_key option" where
  "lane_of_permit s j = Option.bind (hm_get (in_flight s) j) if_lane"

lemma start_facts:
  shows "same_queues s (start j now s)" and "same_env s (start j now s)"
    and "next_job_id (start j now s) = next_job_id s"
    and "lane_of_permit s j = Some l \<Longrightarrow>
      seat_step (map_option (release_on_start j) (seat s l)) (seat (start j now s) l)"
    and "lane_of_permit s j \<noteq> Some l \<Longrightarrow> seat_step (seat s l) (seat (start j now s) l)"
proof -
  let ?t = "start j now s"
  have "same_queues s ?t \<and> same_env s ?t \<and> next_job_id ?t = next_job_id s
    \<and> (lane_of_permit s j = Some l \<longrightarrow> seat_step (map_option (release_on_start j) (seat s l)) (seat ?t l))
    \<and> (lane_of_permit s j \<noteq> Some l \<longrightarrow> seat_step (seat s l) (seat ?t l))"
  proof (cases "lane_of_permit s j")
    case None
    then have "?t = s" by (simp add: start_def lane_of_permit_def)
    with None show ?thesis by (simp add: same_queues_def)
  next
    case (Some l0)
    show ?thesis
    proof (cases "hm_get (lanes s) l0")
      case None
      then have "?t = s" using Some by (simp add: start_def lane_of_permit_def)
      with None Some show ?thesis by (auto simp: same_queues_def seat_def)
    next
      case lane: (Some ln)
      show ?thesis
      proof (cases "release_start j ln")
        case None
        then have "release_on_start j (seat_of ln) = seat_of ln"
          by (auto simp: release_start_def release_on_start_def seat_of_def split: if_splits)
        moreover have "?t = s" using None lane Some by (simp add: start_def lane_of_permit_def)
        ultimately show ?thesis using lane Some by (auto simp: same_queues_def seat_def)
      next
        case (Some ln')
        have ln': "ln_pending ln' = ln_pending ln" "ln_next_order ln' = ln_next_order ln"
          "seat_of ln' = release_on_start j (seat_of ln)" "lane_free ln'"
          using Some by (auto simp: release_start_def release_on_start_def seat_of_def lane_free_def
              split: if_splits)
        have t: "?t = (if ln_pending ln \<noteq> [] then push_lane_head_candidate l0 now (s\<lparr>lanes := hm_insert l0 ln' (lanes s)\<rparr>)
          else (s\<lparr>lanes := hm_insert l0 ln' (lanes s)\<rparr>)\<lparr>lanes := hm_remove l0 (lanes (s\<lparr>lanes := hm_insert l0 ln' (lanes s)\<rparr>))\<rparr>)"
          using \<open>lane_of_permit s j = Some l0\<close> lane Some ln'(1)
          by (simp add: start_def lane_of_permit_def Let_def)
        have "?t = push_lane_head_candidate l0 now (s\<lparr>lanes := hm_insert l0 ln' (lanes s)\<rparr>)
          \<or> ?t = s\<lparr>lanes := hm_insert l0 ln' (lanes s)\<rparr>
          \<or> ?t = (s\<lparr>lanes := hm_insert l0 ln' (lanes s)\<rparr>)\<lparr>lanes := hm_remove l0 (lanes (s\<lparr>lanes := hm_insert l0 ln' (lanes s)\<rparr>))\<rparr>
            \<and> ln_pending ln = [] \<and> lane_free ln'"
          using ln'(4) unfolding t by (cases "ln_pending ln = []") simp_all
        note r = released_lane[OF lane ln'(1,2) this]
        show ?thesis using r(1-4) r(5)[of l] \<open>lane_of_permit s j = Some l0\<close> lane
          by (cases "l = l0") (simp_all add: seat_def[of s] ln'(3))
      qed
    qed
  qed
  then show "same_queues s ?t" "same_env s ?t" "next_job_id ?t = next_job_id s"
    "lane_of_permit s j = Some l \<Longrightarrow> seat_step (map_option (release_on_start j) (seat s l)) (seat ?t l)"
    "lane_of_permit s j \<noteq> Some l \<Longrightarrow> seat_step (seat s l) (seat ?t l)" by blast+
qed

lemma complete_lane_facts:
  shows "same_queues s (complete_lane j l0 now s)" and "same_env s (complete_lane j l0 now s)"
    and "next_job_id (complete_lane j l0 now s) = next_job_id s"
    and "seat_step (map_option (release_on_complete j) (seat s l0)) (seat (complete_lane j l0 now s) l0)"
    and "l \<noteq> l0 \<Longrightarrow> seat_step (seat s l) (seat (complete_lane j l0 now s) l)"
proof -
  let ?t = "complete_lane j l0 now s"
  have "same_queues s ?t \<and> same_env s ?t \<and> next_job_id ?t = next_job_id s
    \<and> seat_step (map_option (release_on_complete j) (seat s l0)) (seat ?t l0)
    \<and> (l \<noteq> l0 \<longrightarrow> seat_step (seat s l) (seat ?t l))"
  proof (cases "hm_get (lanes s) l0")
    case None
    then show ?thesis by (simp add: complete_lane_def same_queues_def seat_def)
  next
    case lane: (Some ln)
    define ln' where "ln' = (case release_complete j ln of None \<Rightarrow> ln | Some m \<Rightarrow> m)"
    have ln': "ln_pending ln' = ln_pending ln" "ln_next_order ln' = ln_next_order ln"
      "seat_of ln' = release_on_complete j (seat_of ln)"
      by (auto simp: ln'_def release_complete_def release_on_complete_def seat_of_def
          split: option.split outbound_lane_mode.splits if_splits)
    let ?s1 = "s\<lparr>lanes := hm_insert l0 ln' (lanes s)\<rparr>"
    let ?gone = "?s1\<lparr>lanes := hm_remove l0 (lanes ?s1)\<rparr>"
    show ?thesis
    proof (cases "release_complete j ln")
      case None
      then have "ln' = ln" by (simp add: ln'_def)
      then have rel: "release_on_complete j (seat_of ln) = seat_of ln" using ln'(3) by simp
      have "?t = (if lane_is_idle ln then s\<lparr>lanes := hm_remove l0 (lanes s)\<rparr> else s)"
        using None lane by (simp add: complete_lane_def)
      then show ?thesis using lane rel lane_free_idle[of ln] same_queues_lane_gone[OF lane]
        by (auto simp: same_queues_def same_env_def seat_def seat_step_def lane_is_idle_def seat_free_lane)
    next
      case (Some m)
      then have t: "?t = (if ln_pending ln \<noteq> [] then push_lane_head_candidate l0 now ?s1
          else if lane_is_idle ln' then ?gone else ?s1)"
        using lane ln'(1) by (simp add: complete_lane_def ln'_def Let_def)
      have "?t = push_lane_head_candidate l0 now ?s1 \<or> ?t = ?s1
          \<or> ?t = ?gone \<and> ln_pending ln = [] \<and> lane_free ln'"
        using lane_free_idle[of ln'] unfolding t
        by (cases "ln_pending ln = []"; cases "lane_is_idle ln'") simp_all
      note r = released_lane[OF lane ln'(1,2) this]
      show ?thesis using r(1-4) r(5)[of l] lane by (simp add: seat_def[of s] ln'(3))
    qed
  qed
  then show "same_queues s ?t" "same_env s ?t" "next_job_id ?t = next_job_id s"
    "seat_step (map_option (release_on_complete j) (seat s l0)) (seat ?t l0)"
    "l \<noteq> l0 \<Longrightarrow> seat_step (seat s l) (seat ?t l)" by blast+
qed

lemma same_queues_plain:
  "same_queues s (s\<lparr>in_flight := f\<rparr>)" "same_queues s (s\<lparr>penalties := p\<rparr>)"
  by (rule same_queues_lanes; simp)+

lemma penalize_facts:
  "same_queues s (penalize sc until s)" "lanes (penalize sc until s) = lanes s"
  "in_flight (penalize sc until s) = in_flight s" "next_job_id (penalize sc until s) = next_job_id s"
  "aging (penalize sc until s) = aging s" "global_limits (penalize sc until s) = global_limits s"
  "chat_limits (penalize sc until s) = chat_limits s" "class_limits (penalize sc until s) = class_limits s"
  by (simp_all add: penalize_def Let_def same_queues_plain)

lemma complete_facts:
  assumes fl: "hm_get (in_flight s) j = Some fl" and t_def: "t = complete j c now seen s"
  shows "same_queues s t" and "in_flight t = hm_remove j (in_flight s)" and "next_job_id t = next_job_id s"
    and "aging t = aging s" and "global_limits t = global_limits s" and "chat_limits t = chat_limits s"
    and "class_limits t = class_limits s"
    and "if_lane fl = Some l \<Longrightarrow> seat_step (map_option (release_on_complete j) (seat s l)) (seat t l)"
    and "if_lane fl \<noteq> Some l \<Longrightarrow> seat_step (seat s l) (seat t l)"
proof -
  define s1 where "s1 = s\<lparr>in_flight := hm_remove j (in_flight s)\<rparr>"
  define s2 where "s2 = (case if_lane fl of None \<Rightarrow> s1 | Some l \<Rightarrow> complete_lane j l now s1)"
  define s3 where "s3 = (if c = NoRequest
      then (let (ws, t) = refund_windows now j fl s2 in fold (\<lambda>w u. rearm_reservation_owner w now u) ws t)
      else s2)"
  have t: "t = (case c of RetryAfter sc d \<Rightarrow> if d = 0 then s3 else penalize sc (seen + d) s3 | _ \<Rightarrow> s3)"
    unfolding t_def complete_def fl option.case Let_def s1_def s2_def s3_def by (rule refl)
  have s1: "same_queues s s1" unfolding s1_def by (rule same_queues_plain)
  have seat1: "seat s1 = seat s" by (rule seat_cong) (simp add: s1_def)
  have s2: "same_queues s1 s2 \<and> same_env s1 s2 \<and> next_job_id s2 = next_job_id s1
    \<and> (if_lane fl = Some l \<longrightarrow> seat_step (map_option (release_on_complete j) (seat s1 l)) (seat s2 l))
    \<and> (if_lane fl \<noteq> Some l \<longrightarrow> seat_step (seat s1 l) (seat s2 l))" for l
  proof (cases "if_lane fl")
    case None
    then show ?thesis by (simp add: s2_def same_queues_def)
  next
    case (Some l0)
    then have e: "s2 = complete_lane j l0 now s1" by (simp add: s2_def)
    show ?thesis unfolding e Some
      using complete_lane_facts(1-4)[where s = s1 and j = j and ?l0.0 = l0 and now = now]
        complete_lane_facts(5)[where s = s1 and j = j and ?l0.0 = l0 and now = now and l = l]
      by (cases "l = l0") (simp_all only: option.inject, blast+)
  qed
  have q3: "quiet s2 s3"
  proof (cases "c = NoRequest")
    case True
    obtain ws u where rf: "refund_windows now j fl s2 = (ws, u)" by fastforce
    have "quiet s2 u" by (rule quiet_same) (simp_all add: refund_frame[OF rf])
    then have "quiet s2 (fold (\<lambda>w u. rearm_reservation_owner w now u) ws u)"
      by (intro quiet_fold quiet_rearm_owner)
    then show ?thesis using True rf by (simp add: s3_def)
  qed (simp add: s3_def)
  have s3: "same_queues s s3" using same_queues_trans s1 s2 quiet_same_queues[OF q3] by blast
  have env3: "in_flight s3 = hm_remove j (in_flight s)" "next_job_id s3 = next_job_id s" "aging s3 = aging s"
    "global_limits s3 = global_limits s" "chat_limits s3 = chat_limits s" "class_limits s3 = class_limits s"
    using s2 q3 by (simp_all add: quiet_def same_env_def s1_def)
  have t3: "t = s3 \<or> (\<exists>sc until. t = penalize sc until s3)" by (auto simp: t split: outbound_completion.split)
  have "lanes t = lanes s3" using t3 penalize_facts(2) by auto
  then have st: "seat t = seat s3" by (rule seat_cong)
  show "same_queues s t" using t3 s3 same_queues_trans penalize_facts(1) by blast
  show "in_flight t = hm_remove j (in_flight s)" "next_job_id t = next_job_id s" "aging t = aging s"
    "global_limits t = global_limits s" "chat_limits t = chat_limits s" "class_limits t = class_limits s"
    using t3 env3 penalize_facts(3-8) by auto
  show "if_lane fl = Some l \<Longrightarrow> seat_step (map_option (release_on_complete j) (seat s l)) (seat t l)"
    "if_lane fl \<noteq> Some l \<Longrightarrow> seat_step (seat s l) (seat t l)"
    using s2[of l] quiet_seat[OF q3, of l] seat_step_trans unfolding st seat1 by blast+
qed

lemma complete_absent: "hm_get (in_flight s) j = None \<Longrightarrow> complete j c now seen s = s"
  by (simp add: complete_def)

lemma with_limits_queues:
  "same_queues s (with_limits limits now s)" "same_queues s (with_class_limits climits now s)"
  by (rule same_queues_lanes; simp)+

lemma set_limits_facts:
  assumes "set_limits limits now s = (r, t)"
  shows "same_queues s t" and "in_flight t = in_flight s" and "next_job_id t = next_job_id s"
    and "aging t = aging s" and "seat_step (seat s l) (seat t l)" and "class_limits t = class_limits s"
    and "r = Inl e \<Longrightarrow> t = s"
    and "r = Inr () \<Longrightarrow> global_limits t = lim_global limits \<and> chat_limits t = lim_chat limits
      \<and> first_misfit (pending_misfit limits) s = None"
proof -
  have q: "quiet (with_limits limits now s) (rearm_blocked_and_parked now (with_limits limits now s))"
    by (rule quiet_rearm_all) simp
  have seat: "seat (with_limits limits now s) = seat s" by (rule seat_cong) simp
  have "same_queues s t \<and> in_flight t = in_flight s \<and> next_job_id t = next_job_id s \<and> aging t = aging s
    \<and> seat_step (seat s l) (seat t l) \<and> class_limits t = class_limits s \<and> (r = Inl e \<longrightarrow> t = s)
    \<and> (r = Inr () \<longrightarrow> global_limits t = lim_global limits \<and> chat_limits t = lim_chat limits
      \<and> first_misfit (pending_misfit limits) s = None)"
    using assms
  proof (cases rule: set_limits_cases)
    case error
    then show ?thesis by (simp add: same_queues_def)
  next
    case ok
    then show ?thesis
      using same_queues_trans[OF with_limits_queues(1) quiet_same_queues[OF q]] quiet_seat[OF q, of l] q
      unfolding seat by (simp add: quiet_def)
  qed
  then show "same_queues s t" "in_flight t = in_flight s" "next_job_id t = next_job_id s"
    "aging t = aging s" "seat_step (seat s l) (seat t l)" "class_limits t = class_limits s"
    "r = Inl e \<Longrightarrow> t = s"
    "r = Inr () \<Longrightarrow> global_limits t = lim_global limits \<and> chat_limits t = lim_chat limits
      \<and> first_misfit (pending_misfit limits) s = None" by blast+
qed

lemma set_class_limits_facts:
  assumes "set_class_limits limits now s = (r, t)"
  shows "same_queues s t" and "in_flight t = in_flight s" and "next_job_id t = next_job_id s"
    and "aging t = aging s" and "seat_step (seat s l) (seat t l)" and "global_limits t = global_limits s"
    and "chat_limits t = chat_limits s" and "r = Inl e \<Longrightarrow> t = s"
    and "r = Inr () \<Longrightarrow> class_limits t = limits \<and> first_misfit (pending_misfit_class limits) s = None"
proof -
  have q: "quiet (with_class_limits limits now s) (rearm_blocked_and_parked now (with_class_limits limits now s))"
    by (rule quiet_rearm_all) simp
  have seat: "seat (with_class_limits limits now s) = seat s" by (rule seat_cong) simp
  have "same_queues s t \<and> in_flight t = in_flight s \<and> next_job_id t = next_job_id s \<and> aging t = aging s
    \<and> seat_step (seat s l) (seat t l) \<and> global_limits t = global_limits s \<and> chat_limits t = chat_limits s
    \<and> (r = Inl e \<longrightarrow> t = s)
    \<and> (r = Inr () \<longrightarrow> class_limits t = limits \<and> first_misfit (pending_misfit_class limits) s = None)"
    using assms
  proof (cases rule: set_class_limits_cases)
    case error
    then show ?thesis by (simp add: same_queues_def)
  next
    case ok
    then show ?thesis
      using same_queues_trans[OF with_limits_queues(2) quiet_same_queues[OF q]] quiet_seat[OF q, of l] q
      unfolding seat by (simp add: quiet_def)
  qed
  then show "same_queues s t" "in_flight t = in_flight s" "next_job_id t = next_job_id s"
    "aging t = aging s" "seat_step (seat s l) (seat t l)" "global_limits t = global_limits s"
    "chat_limits t = chat_limits s" "r = Inl e \<Longrightarrow> t = s"
    "r = Inr () \<Longrightarrow> class_limits t = limits \<and> first_misfit (pending_misfit_class limits) s = None" by blast+
qed

end
