(* ===== verification/Scheduler_Exclusive.thy ===== *)
theory Scheduler_Exclusive
  imports Scheduler_Safety
begin

text \<open>
  The lanes that admit one request at a time, and the weights of the waiting requests.  Over the
  reachable machines, a \<open>Serial\<close> lane has at most one permit in flight, an \<open>OrderedStart\<close> lane at
  most one whose start was not reported, and every waiting request fits the limits in force.
\<close>

subsection \<open>Exclusive lanes\<close>

definition exclusive :: "outbound_lane_mode \<Rightarrow> bool" where
  "exclusive mode = (mode = Serial \<or> mode = OrderedStart)"

text \<open>The permits of a lane that still keep it: all of them, or those not started yet.\<close>

definition holders :: "(lane_key \<Rightarrow> outbound_lane_mode) \<Rightarrow> job_id list \<Rightarrow> scheduler_state \<Rightarrow> lane_key \<Rightarrow> job_id set" where
  "holders modes st s l = {j. lane_of_permit s j = Some l \<and> \<not> (modes l = OrderedStart \<and> j \<in> set st)}"

definition seat_holds :: "(lane_key \<Rightarrow> outbound_lane_mode) \<Rightarrow> lane_key \<Rightarrow> job_id set \<Rightarrow> seat option \<Rightarrow> bool" where
  "seat_holds modes l H v \<longleftrightarrow>
     (case v of
        None \<Rightarrow> H = {}
      | Some (m, h, n) \<Rightarrow> m = modes l \<and> H = set_option h \<and> (n = 0 \<longleftrightarrow> h = None))"

definition exclusive_ok :: "(lane_key \<Rightarrow> outbound_lane_mode) \<Rightarrow> job_id list \<Rightarrow> scheduler_state \<Rightarrow> bool" where
  "exclusive_ok modes st s \<longleftrightarrow>
     (\<forall>l. exclusive (modes l) \<longrightarrow> seat_holds modes l (holders modes st s l) (seat s l))
     \<and> (\<forall>j\<in>set st. j < next_job_id s \<and> \<not> hm_has (jobs s) j)"

lemma seat_holds_step:
  assumes "seat_holds modes l H v" and "seat_step v v'" and "exclusive (modes l)"
  shows "seat_holds modes l H v'"
proof (cases v)
  case (Some x)
  obtain m h n where x: "x = (m, h, n)" by (cases x)
  show ?thesis
  proof (cases "v' = v")
    case False
    with assms(2) Some have "v' = None" "seat_free (m, h, n)" by (auto simp: seat_step_def x)
    with assms(1,3) Some show ?thesis by (cases m) (auto simp: seat_holds_def x exclusive_def)
  qed (use assms in simp)
qed (use assms in \<open>auto simp: seat_step_def\<close>)

lemma exclusive_okI:
  assumes "\<And>l. exclusive (modes l) \<Longrightarrow> seat_holds modes l (holders modes st s l) (seat s l)"
    and "\<And>j. j \<in> set st \<Longrightarrow> j < next_job_id s \<and> \<not> hm_has (jobs s) j"
  shows "exclusive_ok modes st s"
  using assms by (simp add: exclusive_ok_def)

lemma holders_cong: "in_flight t = in_flight s \<Longrightarrow> holders modes st t l = holders modes st s l"
  by (simp add: holders_def lane_of_permit_def)

lemma exclusive_ok_keep:
  assumes e: "exclusive_ok modes st s" and f: "in_flight t = in_flight s"
    and n: "next_job_id s \<le> next_job_id t" and j: "\<And>i. i < next_job_id s \<Longrightarrow> hm_has (jobs t) i \<Longrightarrow> hm_has (jobs s) i"
    and seat: "\<And>l. seat_step (seat s l) (seat t l)"
  shows "exclusive_ok modes st t"
proof (rule exclusive_okI)
  fix l assume "exclusive (modes l)"
  then show "seat_holds modes l (holders modes st t l) (seat t l)"
    using e seat_holds_step[OF _ seat] by (simp add: exclusive_ok_def holders_cong[OF f])
next
  fix i assume "i \<in> set st"
  then show "i < next_job_id t \<and> \<not> hm_has (jobs t) i"
    using e n j[of i] unfolding exclusive_ok_def by fastforce
qed

lemma exclusive_quiet:
  assumes "exclusive_ok modes st s" and q: "quiet s t"
  shows "exclusive_ok modes st t"
proof (rule exclusive_ok_keep[OF assms(1)])
  show "in_flight t = in_flight s" "next_job_id s \<le> next_job_id t" using q by (simp_all add: quiet_def)
  show "hm_has (jobs t) i \<Longrightarrow> hm_has (jobs s) i" for i unfolding quiet_has[OF q] .
qed (rule quiet_seat[OF q])

lemma exclusive_serves:
  assumes e: "exclusive_ok modes st s" and sv: "serves j s t" and ok: "sched_ok s"
  shows "exclusive_ok modes st t"
proof -
  have g: "grants j s t" using sv by (simp add: serves_def)
  then obtain b where b: "job_static s j = Some b" "in_flight t = hm_insert j (in_flight_of (fst b)) (in_flight s)"
    by (auto simp: grants_def)
  have pend: "hm_has (jobs s) j" using b(1) unfolding job_static_has by simp
  then have fresh: "\<not> hm_has (in_flight s) j" using ok unfolding sched_ok_def flights_ok_def by blast
  have unst: "j \<notin> set st" using e pend unfolding exclusive_ok_def by blast
  have lane: "lane_of s j = if_lane (in_flight_of (fst b))" using b(1) by (simp add: lane_of_def in_flight_of_def)
  have permit: "lane_of_permit t i = (if i = j then lane_of s j else lane_of_permit s i)" for i
    using lane by (simp add: lane_of_permit_def b(2))
  have none: "lane_of_permit s j = None" using fresh by (auto simp: lane_of_permit_def)
  show ?thesis
  proof (rule exclusive_okI)
    fix l assume ex: "exclusive (modes l)"
    have hold: "seat_holds modes l (holders modes st s l) (seat s l)" using e ex by (simp add: exclusive_ok_def)
    show "seat_holds modes l (holders modes st t l) (seat t l)"
    proof (cases "lane_of s j = Some l")
      case True
      then obtain x where x: "seat s l = Some x" "mode_has_capacity (fst x) (snd (snd x))"
        "seat_step (Some (held_by j x)) (seat t l)" using sv unfolding serves_def by blast
      obtain m h n where xm: "x = (m, h, n)" by (cases x)
      have "m = modes l" "holders modes st s l = set_option h" "n = 0 \<longleftrightarrow> h = None"
        using hold x(1) by (simp_all add: seat_holds_def xm)
      moreover have "n = 0" using x(2) ex \<open>m = modes l\<close> by (auto simp: xm exclusive_def)
      ultimately have empty: "holders modes st s l = {}" by simp
      have "holders modes st t l = insert j (holders modes st s l)"
        using True none unst by (auto simp: holders_def permit)
      then have "seat_holds modes l (holders modes st t l) (Some (held_by j x))"
        using empty \<open>m = modes l\<close> ex by (auto simp: seat_holds_def held_by_def xm exclusive_def)
      then show ?thesis using seat_holds_step x(3) ex by blast
    next
      case False
      then have "seat_step (seat s l) (seat t l)" using sv unfolding serves_def by blast
      moreover have "holders modes st t l = holders modes st s l"
        using False none by (auto simp: holders_def permit)
      ultimately show ?thesis using seat_holds_step hold ex by simp
    qed
  next
    fix i assume "i \<in> set st"
    then have "i < next_job_id s" "\<not> hm_has (jobs s) i" using e unfolding exclusive_ok_def by blast+
    then show "i < next_job_id t \<and> \<not> hm_has (jobs t) i"
      unfolding grants_has[OF g] grants_next[OF g] by blast
  qed
qed

lemma exclusive_pass:
  assumes "grant_ready now s = Some (gs, t)" and "sched_ok s" and "windows_ok now s" and "exclusive_ok modes st s"
  shows "exclusive_ok modes st t"
  using assms(1-3)
proof (cases rule: grant_ready_rule[where I = "\<lambda>_. exclusive_ok modes st"])
  case (quiet gs u v)
  then show ?case using exclusive_quiet by blast
next
  case (serve gs g u v)
  then show ?case using exclusive_serves by blast
next
  case (finish u)
  then show ?case
    by (rule exclusive_ok_keep) (simp_all add: finish_pass_fields finish_pass_same)
qed (rule assms(4))

lemma exclusive_start:
  assumes e: "exclusive_ok modes st s" and ok: "sched_ok s"
  shows "exclusive_ok modes (if hm_has (in_flight s) j then j # st else st) (start j now s)"
proof (cases "hm_has (in_flight s) j")
  case False
  then have "start j now s = s" by (auto simp: start_def)
  with e False show ?thesis by simp
next
  case True
  let ?t = "start j now s"
  have f: "in_flight ?t = in_flight s" using start_facts(2)[of s j now] by (simp add: same_env_def)
  have flight: "j < next_job_id s" "\<not> hm_has (jobs s) j"
    using ok True unfolding sched_ok_def flights_ok_def by blast+
  have req: "job_req ?t = job_req s" using start_facts(1)[of s j now] by (simp add: same_queues_def)
  have "exclusive_ok modes (j # st) ?t"
  proof (rule exclusive_okI)
    fix l assume ex: "exclusive (modes l)"
    have hold: "seat_holds modes l (holders modes st s l) (seat s l)" using e ex by (simp add: exclusive_ok_def)
    have h: "holders modes (j # st) ?t l = holders modes st s l - (if modes l = OrderedStart then {j} else {})"
      by (auto simp: holders_def lane_of_permit_def f)
    show "seat_holds modes l (holders modes (j # st) ?t l) (seat ?t l)"
    proof (cases "lane_of_permit s j = Some l")
      case False
      then have "holders modes (j # st) ?t l = holders modes st s l" unfolding h by (auto simp: holders_def)
      then show ?thesis using seat_holds_step[OF hold start_facts(5)[OF False] ex] by simp
    next
      case True
      have "seat_holds modes l (holders modes (j # st) ?t l) (map_option (release_on_start j) (seat s l))"
      proof (cases "seat s l")
        case None
        with hold show ?thesis by (simp add: seat_holds_def h)
      next
        case (Some x)
        obtain m hh n where x: "x = (m, hh, n)" by (cases x)
        have "m = modes l" "holders modes st s l = set_option hh" "n = 0 \<longleftrightarrow> hh = None"
          using hold Some by (simp_all add: seat_holds_def x)
        then show ?thesis using Some by (auto simp: seat_holds_def x h release_on_start_def)
      qed
      from seat_holds_step[OF this start_facts(4)[OF True] ex] show ?thesis .
    qed
  next
    fix i assume "i \<in> set (j # st)"
    then have "i < next_job_id s" "\<not> hm_has (jobs s) i" using e flight unfolding exclusive_ok_def by auto
    then show "i < next_job_id ?t \<and> \<not> hm_has (jobs ?t) i"
      unfolding job_req_has req start_facts(3) by blast
  qed
  with True show ?thesis by simp
qed

lemma exclusive_complete:
  assumes e: "exclusive_ok modes st s"
  shows "exclusive_ok modes st (complete j c now seen s)"
proof (cases "hm_get (in_flight s) j")
  case None
  with e show ?thesis by (simp add: complete_absent)
next
  case (Some fl)
  let ?t = "complete j c now seen s"
  note f = complete_facts[OF Some refl, where c = c and now = now and seen = seen]
  have req: "job_req ?t = job_req s" using f(1) by (simp add: same_queues_def)
  have permit: "lane_of_permit ?t i = (if i = j then None else lane_of_permit s i)" for i
    by (simp add: lane_of_permit_def f(2))
  have lane: "lane_of_permit s j = if_lane fl" using Some by (simp add: lane_of_permit_def)
  show ?thesis
  proof (rule exclusive_okI)
    fix l assume ex: "exclusive (modes l)"
    have hold: "seat_holds modes l (holders modes st s l) (seat s l)" using e ex by (simp add: exclusive_ok_def)
    have h: "holders modes st ?t l = holders modes st s l - {j}" by (auto simp: holders_def permit)
    show "seat_holds modes l (holders modes st ?t l) (seat ?t l)"
    proof (cases "if_lane fl = Some l")
      case False
      then have "holders modes st ?t l = holders modes st s l" unfolding h by (auto simp: holders_def lane)
      then show ?thesis using seat_holds_step[OF hold f(9)[OF False] ex] by simp
    next
      case True
      have "seat_holds modes l (holders modes st ?t l) (map_option (release_on_complete j) (seat s l))"
      proof (cases "seat s l")
        case None
        with hold show ?thesis by (simp add: seat_holds_def h)
      next
        case (Some x)
        obtain m hh n where x: "x = (m, hh, n)" by (cases x)
        have seat: "m = modes l" "holders modes st s l = set_option hh" "n = 0 \<longleftrightarrow> hh = None"
          using hold Some by (simp_all add: seat_holds_def x)
        have "release_on_complete j x = (if hh = Some j then (m, None, 0) else x)"
          using ex by (cases m) (auto simp: x seat(1)[symmetric] release_on_complete_def exclusive_def)
        then show ?thesis using Some seat by (cases "hh = Some j") (auto simp: seat_holds_def h x)
      qed
      from seat_holds_step[OF this f(8)[OF True] ex] show ?thesis .
    qed
  next
    fix i assume "i \<in> set st"
    then show "i < next_job_id ?t \<and> \<not> hm_has (jobs ?t) i"
      using e unfolding job_req_has req f(3) exclusive_ok_def by blast
  qed
qed

lemma exclusive_enqueue:
  assumes e: "exclusive_ok modes st s" and ok: "sched_ok s" and q: "queues_ok s" and small: "\<And>l. lane_small s l"
    and enq: "enqueue meta opts s = (r, t)" and mode: "\<And>l. m_lane meta = Some l \<Longrightarrow> opt_lane_mode opts = modes l"
  shows "exclusive_ok modes st t"
proof (cases r)
  case (Inl err)
  then show ?thesis using enqueue_spec(2)[OF ok enq] exclusive_quiet[OF e] by blast
next
  case (Inr out)
  have co: "coalesce_ok s" and o: "\<And>l. orders_ok s l" using q by (simp_all add: queues_ok_def)
  have enq': "enqueue meta opts s = (Inr out, t)" using enq Inr by simp
  note lines = enqueue_lines[OF ok co enq' o small]
  note spec = enqueue_spec(3)[OF ok enq Inr]
  have f: "in_flight t = in_flight s" using enqueue_spec(1)[OF ok enq] by (simp add: same_env_def)
  show ?thesis
  proof (rule exclusive_okI)
    fix l assume ex: "exclusive (modes l)"
    have hold: "seat_holds modes l (holders modes st s l) (seat s l)" using e ex by (simp add: exclusive_ok_def)
    have same: "holders modes st t l = holders modes st s l" by (rule holders_cong[OF f])
    show "seat_holds modes l (holders modes st t l) (seat t l)"
    proof (cases "m_lane meta = Some l")
      case False
      show ?thesis unfolding same by (rule seat_holds_step[OF hold lines(3)[OF False] ex])
    next
      case True
      obtain v where v: "seat_step (seat s l) v" "seat_step (Some (fresh_seat (opt_lane_mode opts) v)) (seat t l)"
        using lines(4)[OF True] by blast
      have "seat_holds modes l (holders modes st s l) v" by (rule seat_holds_step[OF hold v(1) ex])
      then have "seat_holds modes l (holders modes st s l) (Some (fresh_seat (opt_lane_mode opts) v))"
        using mode[OF True] by (cases v) (auto simp: seat_holds_def fresh_seat_def)
      from seat_holds_step[OF this v(2) ex] show ?thesis unfolding same .
    qed
  next
    fix i assume "i \<in> set st"
    then have i: "i < next_job_id s" "job_req s i = None" using e unfolding exclusive_ok_def job_req_has by blast+
    then have "job_req t i = None" using spec by (auto split: option.splits)
    then show "i < next_job_id t \<and> \<not> hm_has (jobs t) i" using i spec unfolding job_req_has by simp
  qed
qed

lemma exclusive_step:
  assumes "sched_step modes m m'" and "base_ok m" and "queues_ok (sched m)" and "exclusive_ok modes (started m) (sched m)"
  shows "exclusive_ok modes (started m') (sched m')"
  using assms
proof (induction rule: sched_step.induct)
  case (step_enqueue meta opts m r s)
  then show ?case using exclusive_enqueue[of modes "started m" "sched m" meta opts r s] by (simp add: base_ok_def)
next
  case (step_cancel m j)
  then have ok: "sched_ok (sched m)" by (simp add: base_ok_def)
  have "in_flight (cancel j (clock m) (sched m)) = in_flight (sched m)
      \<and> next_job_id (cancel j (clock m) (sched m)) = next_job_id (sched m)"
  proof (cases "hm_get (jobs (sched m)) j")
    case None
    then show ?thesis
      by (simp add: cancel_def remove_waiting_def compact_blocked_if_needed_def compact_delayed_if_needed_def)
  qed (use cancel_spec[OF ok, of j _ "clock m"] in \<open>auto simp: removes_def\<close>)
  moreover have "hm_has (jobs (sched m)) i" if "hm_has (jobs (cancel j (clock m) (sched m))) i" for i
    using that unfolding job_req_has cancel_req[OF ok] by (simp split: if_splits)
  ultimately have "exclusive_ok modes (started m) (cancel j (clock m) (sched m))"
    using cancel_lines(2)[OF ok] by (intro exclusive_ok_keep[OF step_cancel(3)]) simp_all
  then show ?case by simp
next
  case (step_grant m gs s)
  then show ?case using exclusive_pass by (simp add: base_ok_def)
next
  case (step_start m j)
  then show ?case using exclusive_start by (simp add: base_ok_def)
next
  case (step_complete m j c seen)
  then show ?case using exclusive_complete by simp
next
  case (step_penalize m sc until)
  have "jobs (penalize sc until (sched m)) = jobs (sched m)" by (simp add: penalize_def Let_def)
  then have "exclusive_ok modes (started m) (penalize sc until (sched m))"
    using penalize_facts(2)[of sc until "sched m", THEN seat_cong]
    by (intro exclusive_ok_keep[OF step_penalize(3)]) (simp_all add: penalize_facts)
  then show ?case by simp
next
  case (step_limits limits m r s)
  note f = set_limits_facts[OF step_limits(1)]
  have "hm_has (jobs s) i = hm_has (jobs (sched m)) i" for i
    using f(1) unfolding job_req_has same_queues_def by simp
  then have "exclusive_ok modes (started m) s" using f(2,3,5) by (intro exclusive_ok_keep[OF step_limits(4)]) simp_all
  then show ?case by simp
next
  case (step_class_limits climits m r s)
  note f = set_class_limits_facts[OF step_class_limits(1)]
  have "hm_has (jobs s) i = hm_has (jobs (sched m)) i" for i
    using f(1) unfolding job_req_has same_queues_def by simp
  then have "exclusive_ok modes (started m) s" using f(2,3,5) by (intro exclusive_ok_keep[OF step_class_limits(4)]) simp_all
  then show ?case by simp
next
  case (step_deadline m w s)
  then show ?case using exclusive_quiet[OF _ quiet_next_deadline[OF _ quiet_refl]] by simp
qed simp

lemma scheduler_new_empty:
  "scheduler_new limits climits ag = Inr s \<Longrightarrow> jobs s = [] \<and> lanes s = [] \<and> in_flight s = []"
  by (auto simp: scheduler_new_def split: if_splits)

lemma exclusive_init: "sched_init m \<Longrightarrow> exclusive_ok modes (started m) (sched m)"
  by (auto simp: sched_init_def exclusive_ok_def seat_holds_def holders_def lane_of_permit_def
      seat_def dest!: scheduler_new_empty)

lemma reach_exclusive: "sys.reach modes m \<Longrightarrow> exclusive_ok modes (started m) (sched m)"
proof -
  assume r: "sys.reach modes m"
  have "base_ok m \<and> queues_ok (sched m) \<and> exclusive_ok modes (started m) (sched m)"
  proof (rule sys.reach_invariant[OF r])
    show "sched_init s \<Longrightarrow> base_ok s \<and> queues_ok (sched s) \<and> exclusive_ok modes (started s) (sched s)" for s
      using base_ok_init queues_ok_new exclusive_init by (auto simp: sched_init_def)
  qed (use base_ok_step queues_ok_step exclusive_step in blast)
  then show ?thesis by blast
qed

lemma exclusive_unique:
  assumes "exclusive_ok modes st s" and "exclusive (modes l)" and "i \<in> holders modes st s l" and "j \<in> holders modes st s l"
  shows "i = j"
proof -
  have "seat_holds modes l (holders modes st s l) (seat s l)" using assms(1,2) by (simp add: exclusive_ok_def)
  then have "holders modes st s l = {} \<or> (\<exists>h. holders modes st s l = set_option h)"
    by (auto simp: seat_holds_def split: option.splits)
  then show ?thesis using assms(3,4) by auto
qed

end
