(* ===== verification/Scheduler_Fit.thy ===== *)
theory Scheduler_Fit
  imports Scheduler_Exclusive
begin

text \<open>
  Weights and backlog: every waiting request of a reachable machine fits every limit with a
  capacity, because \<open>enqueue\<close> and the limit updates refuse the others.
\<close>

definition fits :: "scheduler_state \<Rightarrow> bool" where
  "fits s \<longleftrightarrow> (\<forall>j b. job_req s j = Some b \<longrightarrow> weight_error (fst b) s = None)"

lemma weight_error_cong:
  "global_limits t = global_limits s \<Longrightarrow> chat_limits t = chat_limits s \<Longrightarrow> class_limits t = class_limits s
    \<Longrightarrow> weight_error m t = weight_error m s"
  unfolding weight_error_def by (simp only:)

lemma fits_keep:
  assumes "fits s" and "global_limits t = global_limits s" "chat_limits t = chat_limits s"
    "class_limits t = class_limits s" and sub: "\<And>i b. job_req t i = Some b \<Longrightarrow> job_req s i = Some b"
  shows "fits t"
  unfolding fits_def weight_error_cong[OF assms(2-4)] using sub assms(1) unfolding fits_def by blast

lemma quiet_fits: "fits s \<Longrightarrow> quiet s t \<Longrightarrow> fits t"
  by (erule fits_keep) (simp_all add: quiet_req, simp_all add: quiet_def)

lemma first_misfit_None:
  "first_misfit check s = None \<Longrightarrow> job_req s j = Some b \<Longrightarrow> check (fst b) = None"
proof -
  assume none: "first_misfit check s = None" and j: "job_req s j = Some b"
  obtain job where job: "hm_get (jobs s) j = Some job" "fst b = j_meta job"
    using j by (auto simp: job_req_def)
  then have "job \<in> set (hm_values (jobs s))" by (intro hm_get_in_values)
  moreover have "List.map_filter (\<lambda>job. check (j_meta job)) (hm_values (jobs s)) = []"
    using none by (auto simp: first_misfit_def split: list.splits)
  then have "\<forall>x\<in>set (hm_values (jobs s)). check (j_meta x) = None"
    by (auto simp: List.map_filter_def filter_empty_conv)
  ultimately show ?thesis unfolding job(2) by blast
qed

lemma limits_fit:
  assumes "weight_error m s = None" and "pending_misfit limits m = None"
    and "global_limits t = lim_global limits" "chat_limits t = lim_chat limits" "class_limits t = class_limits s"
  shows "weight_error m t = None"
  using assms
  by (auto simp: weight_error_def pending_misfit_def Let_def split: option.splits outbound_scope.splits)

lemma class_limits_fit:
  assumes "weight_error m s = None" and "pending_misfit_class limits m = None"
    and "global_limits t = global_limits s" "chat_limits t = chat_limits s" "class_limits t = limits"
  shows "weight_error m t = None"
  using assms
  by (auto simp: weight_error_def pending_misfit_class_def Let_def split: option.splits outbound_scope.splits)

lemma set_limits_fits:
  assumes f: "fits s" and set: "set_limits limits now s = (r, t)"
  shows "fits t"
proof (cases r)
  case (Inl e)
  then show ?thesis using set_limits_facts(7)[OF set Inl] f by simp
next
  case (Inr u)
  then have new: "global_limits t = lim_global limits" "chat_limits t = lim_chat limits"
    "first_misfit (pending_misfit limits) s = None"
    using set_limits_facts(8)[OF set] by simp_all
  have same: "class_limits t = class_limits s" "job_req t = job_req s"
    using set_limits_facts(1,6)[OF set] by (simp_all add: same_queues_def)
  show ?thesis unfolding fits_def same(2)
  proof (intro allI impI)
    fix j b assume b: "job_req s j = Some b"
    then have "weight_error (fst b) s = None" using f unfolding fits_def by blast
    then show "weight_error (fst b) t = None"
      by (rule limits_fit[OF _ first_misfit_None[OF new(3) b] new(1,2) same(1)])
  qed
qed

lemma set_class_limits_fits:
  assumes f: "fits s" and set: "set_class_limits limits now s = (r, t)"
  shows "fits t"
proof (cases r)
  case (Inl e)
  then show ?thesis using set_class_limits_facts(8)[OF set Inl] f by simp
next
  case (Inr u)
  then have new: "class_limits t = limits" "first_misfit (pending_misfit_class limits) s = None"
    using set_class_limits_facts(9)[OF set] by simp_all
  have same: "global_limits t = global_limits s" "chat_limits t = chat_limits s" "job_req t = job_req s"
    using set_class_limits_facts(1,6,7)[OF set] by (simp_all add: same_queues_def)
  show ?thesis unfolding fits_def same(3)
  proof (intro allI impI)
    fix j b assume b: "job_req s j = Some b"
    then have "weight_error (fst b) s = None" using f unfolding fits_def by blast
    then show "weight_error (fst b) t = None"
      by (rule class_limits_fit[OF _ first_misfit_None[OF new(2) b] same(1,2) new(1)])
  qed
qed

lemma enqueue_weight_ok: "enqueue meta opts s = (Inr out, t) \<Longrightarrow> weight_error meta s = None"
  by (auto simp: enqueue_def split: option.splits)

lemma enqueue_fits:
  assumes f: "fits s" and ok: "sched_ok s" and enq: "enqueue meta opts s = (r, t)"
  shows "fits t"
proof (cases r)
  case (Inl e)
  then show ?thesis using enqueue_spec(2)[OF ok enq] quiet_fits[OF f] by blast
next
  case (Inr out)
  have same: "global_limits t = global_limits s" "chat_limits t = chat_limits s" "class_limits t = class_limits s"
    using enqueue_spec(1)[OF ok enq] by (simp_all add: same_env_def)
  have "job_req t i = Some b \<Longrightarrow> fst b = meta \<or> job_req s i = Some b" for i b
    using enqueue_spec(3)[OF ok enq Inr] by (auto split: option.splits if_splits)
  moreover have "weight_error meta s = None" using enqueue_weight_ok enq Inr by blast
  ultimately show ?thesis using f unfolding fits_def weight_error_cong[OF same] by metis
qed

lemma fits_step: "sched_step modes m m' \<Longrightarrow> base_ok m \<Longrightarrow> fits (sched m) \<Longrightarrow> fits (sched m')"
proof (induction rule: sched_step.induct)
  case (step_enqueue meta opts m r s)
  then show ?case using enqueue_fits by (simp add: base_ok_def)
next
  case (step_cancel m j)
  then have ok: "sched_ok (sched m)" by (simp add: base_ok_def)
  have "global_limits (cancel j (clock m) (sched m)) = global_limits (sched m)
      \<and> chat_limits (cancel j (clock m) (sched m)) = chat_limits (sched m)
      \<and> class_limits (cancel j (clock m) (sched m)) = class_limits (sched m)"
  proof (cases "hm_get (jobs (sched m)) j")
    case None
    then show ?thesis
      by (simp add: cancel_def remove_waiting_def compact_blocked_if_needed_def compact_delayed_if_needed_def)
  qed (use cancel_spec[OF ok, of j _ "clock m"] in \<open>auto simp: removes_def\<close>)
  then have "fits (cancel j (clock m) (sched m))"
    by (intro fits_keep[OF step_cancel(2)]) (simp_all add: cancel_req[OF ok] split: if_splits)
  then show ?case by simp
next
  case (step_grant m gs s)
  have "fits s"
  proof (rule grant_ready_rule[OF step_grant(1), where I = "\<lambda>_. fits"])
    show "fits u \<Longrightarrow> fits (finish_pass (clock m) u)" for u
      by (erule fits_keep) (simp_all add: finish_pass_fields finish_pass_same)
    show "serves (g_job g) u v \<Longrightarrow> fits u \<Longrightarrow> fits v" for g u v
    proof -
      assume "serves (g_job g) u v" and f: "fits u"
      then have g: "grants (g_job g) u v" by (simp add: serves_def)
      have "job_req v i = Some b \<Longrightarrow> job_req u i = Some b" for i b
        by (simp add: grants_req[OF g] split: if_splits)
      then show "fits v" using g by (intro fits_keep[OF f]) (simp_all add: grants_def)
    qed
  qed (use step_grant quiet_fits in \<open>auto simp: base_ok_def\<close>)
  then show ?case by simp
next
  case (step_start m j)
  have "fits (start j (clock m) (sched m))" using start_facts(1,2)[of "sched m" j "clock m"]
    by (intro fits_keep[OF step_start(2)]) (simp_all add: same_env_def same_queues_def)
  then show ?case by simp
next
  case (step_complete m j c seen)
  show ?case
  proof (cases "hm_get (in_flight (sched m)) j")
    case None
    with step_complete show ?thesis by (simp add: complete_absent)
  next
    case (Some fl)
    note f = complete_facts[OF Some refl, where c = c and now = "clock m" and seen = seen]
    have "fits (complete j c (clock m) seen (sched m))" using f(1)
      by (intro fits_keep[OF step_complete(2)]) (simp_all add: f same_queues_def)
    then show ?thesis by simp
  qed
next
  case (step_penalize m sc until)
  have "fits (penalize sc until (sched m))" using penalize_facts(1)[where sc = sc and until = until and s = "sched m"]
    by (intro fits_keep[OF step_penalize(2)]) (simp_all add: penalize_facts same_queues_def)
  then show ?case by simp
next
  case (step_limits limits m r s)
  then show ?case using set_limits_fits by simp
next
  case (step_class_limits climits m r s)
  then show ?case using set_class_limits_fits by simp
next
  case (step_deadline m w s)
  then show ?case using quiet_fits[OF _ quiet_next_deadline[OF _ quiet_refl]] by simp
qed simp

lemma reach_fits: "sys.reach modes m \<Longrightarrow> fits (sched m)"
proof -
  assume r: "sys.reach modes m"
  have "base_ok m \<and> fits (sched m)"
  proof (rule sys.reach_invariant[OF r])
    show "sched_init s \<Longrightarrow> base_ok s \<and> fits (sched s)" for s
      using base_ok_init by (auto simp: sched_init_def fits_def job_req_def dest!: scheduler_new_empty)
  qed (use base_ok_step fits_step in blast)
  then show ?thesis by blast
qed

end
