(* ===== verification/Scheduler_Demo.thy ===== *)
theory Scheduler_Demo
  imports Scheduler_Fit "HOL-Library.Code_Target_Numeral"
begin

text \<open>
  Concrete machines for the witnesses: a scheduler with one global window, and requests queued in
  a serial lane.  Times are in nanoseconds, as everywhere.
\<close>

definition demo_state :: "window_limit list \<Rightarrow> scheduler_state" where
  "demo_state ls = projr (scheduler_new \<lparr>lim_global = ls, lim_chat = []\<rparr> \<lparr>clim_global = [], clim_chat = []\<rparr>
     (os_aging outbound_settings_default))"

definition demo_meta :: "lane_key option \<Rightarrow> nat \<Rightarrow> outbound_meta" where
  "demo_meta lane w =
     \<lparr>m_scope = ScopeGlobal, m_lane = lane, m_class = 0, m_priority = NORMAL, m_weight = w\<rparr>"

definition demo_opts :: "outbound_lane_mode \<Rightarrow> outbound_enqueue_mode \<Rightarrow> instant \<Rightarrow> enqueue_options" where
  "demo_opts mode em now = \<lparr>opt_lane_mode = mode, opt_mode = em, opt_queue_capacity = 4,
     opt_not_before = None, opt_now = now, opt_correlation = None\<rparr>"

definition demo_enqueue :: "lane_key option \<Rightarrow> nat \<Rightarrow> outbound_enqueue_mode \<Rightarrow> scheduler_state \<Rightarrow> scheduler_state" where
  "demo_enqueue lane w em s = snd (enqueue (demo_meta lane w) (demo_opts Serial em 0) s)"

definition demo_grant :: "instant \<Rightarrow> scheduler_state \<Rightarrow> scheduler_state" where
  "demo_grant now s = snd (the (grant_ready now s))"

definition demo_granted :: "instant \<Rightarrow> scheduler_state \<Rightarrow> job_id list" where
  "demo_granted now s = map g_job (fst (the (grant_ready now s)))"

definition demo_machine :: "scheduler_state \<Rightarrow> machine" where
  "demo_machine s = \<lparr>clock = 0, started = [], sched = s\<rparr>"

abbreviation serial :: "lane_key \<Rightarrow> outbound_lane_mode" where
  "serial \<equiv> \<lambda>_. Serial"

lemma demo_reach_new:
  assumes "list_all (\<lambda>w. wl_window w \<noteq> 0 \<and> wl_kind w = AnyKind) ls"
  shows "sys.reach serial (demo_machine (demo_state ls))"
proof (rule sys.reach_init)
  have "scheduler_new \<lparr>lim_global = ls, lim_chat = []\<rparr> \<lparr>clim_global = [], clim_chat = []\<rparr>
      (os_aging outbound_settings_default) = Inr (demo_state ls)"
    using assms by (auto simp: demo_state_def scheduler_new_def outbound_settings_default_def list_all_iff
        HIGHEST_def LOWEST_def)
  moreover have "aging_ok (os_aging outbound_settings_default)"
    by (simp add: aging_ok_def outbound_settings_default_def HIGHEST_def)
  ultimately show "sched_init (demo_machine (demo_state ls))"
    unfolding sched_init_def demo_machine_def by auto
qed

lemma lane_small_list:
  "list_all (\<lambda>p. length (ln_pending (snd p)) < 2 ^ 64) (lanes s) \<Longrightarrow> lane_small s l"
  by (auto simp: lane_small_def list_all_iff dest!: map_of_SomeD)

lemma demo_reach_enqueue:
  assumes r: "sys.reach serial (demo_machine s)"
    and small: "list_all (\<lambda>p. length (ln_pending (snd p)) < 2 ^ 64) (lanes s)"
  shows "sys.reach serial (demo_machine (demo_enqueue lane w em s))"
proof -
  obtain out u where e: "enqueue (demo_meta lane w) (demo_opts Serial em 0) s = (out, u)" by fastforce
  have "sched_step serial (demo_machine s) ((demo_machine s)\<lparr>sched := u\<rparr>)"
    by (rule step_enqueue[of "demo_meta lane w" "demo_opts Serial em 0" _ out])
       (use e lane_small_list[OF small] in \<open>simp_all add: demo_machine_def demo_opts_def\<close>)
  then have "sys.reach serial ((demo_machine s)\<lparr>sched := u\<rparr>)" by (rule sys.reach_step[OF r])
  then show ?thesis by (simp add: demo_machine_def demo_enqueue_def e)
qed

text \<open>Two requests in lane 7 and one outside, with room for two in ten nanoseconds.\<close>

definition demo_three :: scheduler_state where
  "demo_three = demo_enqueue None 1 Fifo (demo_enqueue (Some 7) 1 Fifo
     (demo_enqueue (Some 7) 1 Fifo (demo_state [window_limit_new 2 10])))"

lemma demo_three_reach: "sys.reach serial (demo_machine demo_three)"
proof -
  let ?s0 = "demo_state [window_limit_new 2 10]"
  have "list_all (\<lambda>w. wl_window w \<noteq> 0 \<and> wl_kind w = AnyKind) [window_limit_new 2 10]"
    by (simp add: window_limit_new_def)
  then have r: "sys.reach serial (demo_machine ?s0)" by (rule demo_reach_new)
  have "list_all (\<lambda>p. length (ln_pending (snd p)) < 2 ^ 64) (lanes ?s0)" by code_simp
  from demo_reach_enqueue[OF r this, of "Some 7" 1 Fifo]
  have r: "sys.reach serial (demo_machine (demo_enqueue (Some 7) 1 Fifo ?s0))" .
  have "list_all (\<lambda>p. length (ln_pending (snd p)) < 2 ^ 64) (lanes (demo_enqueue (Some 7) 1 Fifo ?s0))" by code_simp
  from demo_reach_enqueue[OF r this, of "Some 7" 1 Fifo]
  have r: "sys.reach serial (demo_machine (demo_enqueue (Some 7) 1 Fifo (demo_enqueue (Some 7) 1 Fifo ?s0)))" .
  have "list_all (\<lambda>p. length (ln_pending (snd p)) < 2 ^ 64)
      (lanes (demo_enqueue (Some 7) 1 Fifo (demo_enqueue (Some 7) 1 Fifo ?s0)))" by code_simp
  from demo_reach_enqueue[OF r this, of None 1 Fifo] show ?thesis unfolding demo_three_def .
qed

lemma demo_three_pass: "demo_granted 0 demo_three = [0, 2]"
  by code_simp

lemma demo_three_after: "sys.reach serial (demo_machine (demo_grant 0 demo_three))"
proof -
  have b: "base_ok (demo_machine demo_three)" by (rule reach_base_ok[OF demo_three_reach])
  then obtain gs t where g: "grant_ready 0 demo_three = Some (gs, t)"
    using grant_ready_spec[of demo_three 0] by (auto simp: base_ok_def demo_machine_def)
  have "sched_step serial (demo_machine demo_three) ((demo_machine demo_three)\<lparr>sched := t\<rparr>)"
    by (rule step_grant) (use g in \<open>simp add: demo_machine_def\<close>)
  then have "sys.reach serial ((demo_machine demo_three)\<lparr>sched := t\<rparr>)" by (rule sys.reach_step[OF demo_three_reach])
  then show ?thesis by (simp add: demo_machine_def demo_grant_def g)
qed

end
