(* ===== verification/Scheduler_Claims.thy ===== *)
theory Scheduler_Claims
  imports Scheduler_Demo
begin

text \<open>
  What the scheduler promises its callers, over every reachable machine where the promise needs
  the invariants: the pass, the lanes, the slots, the limits and the error paths.
\<close>

subsection \<open>The pass\<close>




lemma demo_turn:
  "case grant_turn 0 demo_three of
     TurnMore [g] t \<Rightarrow> g_job g = 0 \<and> job_static demo_three 0 = Some (demo_meta (Some 7) 1, None, None, Some 0)
       \<and> map (map rw_used) (request_windows (demo_meta (Some 7) 1) t) = [[1]]
   | _ \<Rightarrow> False"
  by code_simp


text \<open>
  C5. Telegram's back-off is respected: no request of a scope under an unexpired \<open>RetryAfter\<close>
  penalty, global or of its chat, is granted by a pass, and penalties themselves only go by
  expiring.
\<close>

theorem pass_respects_penalties:
  assumes "sys.reach modes m" and "grant_ready (clock m) (sched m) = Some (gs, s)" and "g \<in> set gs"
  shows "\<exists>b. job_static (sched m) (g_job g) = Some b \<and> \<not> penalty_active PenaltyGlobal (clock m) (sched m)
    \<and> (\<forall>chat. m_scope (fst b) = ScopeChat chat \<longrightarrow> \<not> penalty_active (PenaltyChat chat) (clock m) (sched m))"
proof -
  have "sched_ok (sched m)" "windows_ok (clock m) (sched m)" "aging_ok (aging (sched m))"
    using reach_base_ok[OF assms(1)] by (simp_all add: base_ok_def)
  from grant_ready_spec[OF this] assms(2) have "pass_outcome (clock m) gs (sched m) s" by auto
  then have "granted_job (clock m) (sched m) g" using assms(3) by (simp add: pass_outcome_def list_all_iff)
  then show ?thesis by (auto simp: granted_job_def penalised_def)
qed

theorem pass_respects_penalties_witness:
  "\<not> penalty_active PenaltyGlobal 0 demo_three"
proof -
  obtain gs s where g: "grant_ready 0 demo_three = Some (gs, s)"
    using grant_ready_spec[of demo_three 0] reach_base_ok[OF demo_three_reach]
    by (auto simp: base_ok_def demo_machine_def)
  have "map g_job gs = [0, 2]" using demo_three_pass by (simp add: demo_granted_def g)
  then obtain x where "x \<in> set gs" by (cases gs) auto
  then show ?thesis using pass_respects_penalties[OF demo_three_reach, of gs s x] g
    by (auto simp: demo_machine_def)
qed

subsection \<open>Lanes\<close>

text \<open>
  C4. Lanes are first in, first out: whatever priorities, penalties and windows do, what a pass
  grants out of a lane is a prefix of the lane's waiting line, in line order, and the rest of the
  line waits unchanged.
\<close>

theorem pass_serves_prefix_of_lane:
  assumes "sys.reach modes m" and "grant_ready (clock m) (sched m) = Some (gs, s)"
  shows "line (sched m) l = map g_job (filter (\<lambda>g. lane_of (sched m) (g_job g) = Some l) gs) @ line s l"
  using pass_serves_in_order[OF assms(2)] reach_base_ok[OF assms(1)] by (simp add: base_ok_def)

theorem pass_serves_prefix_of_lane_witness:
  "line demo_three 7 = 0 # line (demo_grant 0 demo_three) 7"
proof -
  obtain gs s where g: "grant_ready 0 demo_three = Some (gs, s)"
    using grant_ready_spec[of demo_three 0] reach_base_ok[OF demo_three_reach]
    by (auto simp: base_ok_def demo_machine_def)
  have "map g_job gs = [0, 2]" using demo_three_pass by (simp add: demo_granted_def g)
  then have "map g_job (filter (\<lambda>g. lane_of demo_three (g_job g) = Some 7) gs)
      = filter (\<lambda>j. lane_of demo_three j = Some 7) [0, 2]"
    by (metis (mono_tags, lifting) filter_map comp_def filter_cong)
  also have "\<dots> = [0]" by code_simp
  finally show ?thesis
    using pass_serves_prefix_of_lane[OF demo_three_reach, of gs s 7] g
    by (simp add: demo_machine_def demo_grant_def)
qed

text \<open>
  C3. Serial lanes never overlap: in every reachable machine a \<open>Serial\<close> lane has at most one
  permit in flight, and an \<open>OrderedStart\<close> lane has at most one permit whose start was not reported.
\<close>

theorem exclusive_lanes_hold_one_permit:
  assumes "sys.reach modes m" and "modes l = Serial \<or> modes l = OrderedStart"
    and "lane_of_permit (sched m) i = Some l" and "lane_of_permit (sched m) j = Some l"
    and "modes l = OrderedStart \<longrightarrow> i \<notin> set (started m) \<and> j \<notin> set (started m)"
  shows "i = j"
  using exclusive_unique[OF reach_exclusive[OF assms(1)], of l i j] assms(2-)
  by (auto simp: exclusive_def holders_def)

theorem exclusive_lanes_hold_one_permit_witness:
  "{j. lane_of_permit (demo_grant 0 demo_three) j = Some 7} = {0}"
proof -
  have p: "lane_of_permit (demo_grant 0 demo_three) 0 = Some 7" by code_simp
  have "j = 0" if "lane_of_permit (demo_grant 0 demo_three) j = Some 7" for j
    using exclusive_lanes_hold_one_permit[OF demo_three_after, where l = 7 and i = 0] p that
    by (auto simp: demo_machine_def)
  with p show ?thesis by blast
qed

text \<open>
  C7. An enqueue refines a queue: the new request joins the end of its lane's line, or takes the
  exact place of the request it supersedes; every other line is as it was, whatever renumbering,
  compaction or pruning happened inside.
\<close>

theorem enqueue_refines_queue:
  assumes "sys.reach modes m" and "\<forall>l. lane_small (sched m) l"
    and "enqueue meta opts (sched m) = (Inr out, s)"
  shows "line s l = (case eo_superseded out of
      None \<Rightarrow> line (sched m) l @ (if m_lane meta = Some l then [eo_job out] else [])
    | Some old \<Rightarrow> map (\<lambda>i. if i = old then eo_job out else i) (line (sched m) l))"
proof -
  have ok: "sched_ok (sched m)" and co: "coalesce_ok (sched m)" and o: "\<And>l. orders_ok (sched m) l"
    using reach_queues_ok[OF assms(1)] by (simp_all add: base_ok_def queues_ok_def)
  have small: "\<And>l. lane_small (sched m) l" using assms(2) by blast
  show ?thesis using enqueue_lines(1)[OF ok co assms(3) o small, of l]
    by (simp add: replaced_def split: option.split)
qed

theorem enqueue_refines_queue_witness:
  "line (snd (enqueue (demo_meta (Some 7) 1) (demo_opts Serial Fifo 0) demo_three)) 7 = line demo_three 7 @ [3]"
proof -
  have e: "fst (enqueue (demo_meta (Some 7) 1) (demo_opts Serial Fifo 0) demo_three)
      = Inr \<lparr>eo_job = 3, eo_superseded = None\<rparr>" by code_simp
  have "list_all (\<lambda>p. length (ln_pending (snd p)) < 2 ^ 64) (lanes demo_three)" by code_simp
  then have small: "\<forall>l. lane_small (sched (demo_machine demo_three)) l"
    using lane_small_list by (simp add: demo_machine_def)
  show ?thesis
    using enqueue_refines_queue[OF demo_three_reach small, of "demo_meta (Some 7) 1" "demo_opts Serial Fifo 0" _ _ 7] e
    by (cases "enqueue (demo_meta (Some 7) 1) (demo_opts Serial Fifo 0) demo_three")
       (simp add: demo_machine_def demo_meta_def)
qed

text \<open>
  C8. Latest wins, once: in every reachable machine a coalescing slot is carried by at most one
  waiting request, and that request has the scope, lane and class of the slot.
\<close>

theorem one_request_per_slot:
  assumes "sys.reach modes m" and "job_req (sched m) i = Some (mi, ci, Some k)"
    and "job_req (sched m) j = Some (mj, cj, Some k)"
  shows "i = j \<and> ck_scope k = m_scope mi \<and> ck_lane k = m_lane mi \<and> ck_class k = m_class mi"
proof -
  have "coalesce_ok (sched m)" using reach_queues_ok[OF assms(1)] by (simp add: queues_ok_def)
  then have "hm_get (coalesce (sched m)) k = Some i \<and> ck_scope k = m_scope mi \<and> ck_lane k = m_lane mi
      \<and> ck_class k = m_class mi" and "hm_get (coalesce (sched m)) k = Some j"
    using assms(2,3) unfolding coalesce_ok_def by blast+
  then show ?thesis by simp
qed

definition demo_slot :: scheduler_state where
  "demo_slot = demo_enqueue (Some 7) 1 (ReplacePending 5) demo_three"

lemma demo_slot_reach: "sys.reach serial (demo_machine demo_slot)"
proof -
  have "list_all (\<lambda>p. length (ln_pending (snd p)) < 2 ^ 64) (lanes demo_three)" by code_simp
  from demo_reach_enqueue[OF demo_three_reach this, of "Some 7" 1 "ReplacePending 5"]
  show ?thesis unfolding demo_slot_def .
qed

theorem one_request_per_slot_witness:
  "{j. \<exists>m c. job_req demo_slot j
      = Some (m, c, Some \<lparr>ck_scope = ScopeGlobal, ck_lane = Some 7, ck_class = 0, ck_user_key = 5\<rparr>)} = {3}"
proof -
  let ?k = "\<lparr>ck_scope = ScopeGlobal, ck_lane = Some 7, ck_class = 0, ck_user_key = 5\<rparr>"
  have j: "job_req demo_slot 3 = Some (demo_meta (Some 7) 1, None, Some ?k)" by code_simp
  have "j = 3" if "job_req demo_slot j = Some (mj, cj, Some ?k)" for j mj cj
    using one_request_per_slot[OF demo_slot_reach, unfolded demo_machine_def machine.simps, OF j that] by simp
  with j show ?thesis by blast
qed

end
