(* ===== verification/Scheduler_Outcomes.thy ===== *)
theory Scheduler_Outcomes
  imports Scheduler_Claims
begin

text \<open>
  What the single operations return and refuse: enqueue, cancel, completion, penalties, the limit
  updates and the constructor.
\<close>

subsection \<open>Enqueue\<close>

lemma pending_card:
  assumes "hm_ok (jobs s)"
  shows "length (jobs s) = card {j. job_req s j \<noteq> None}"
proof -
  have "{j. job_req s j \<noteq> None} = set (hm_keys (jobs s))"
    unfolding job_req_has[symmetric] hm_has_iff by simp
  then show ?thesis using assms distinct_card[of "hm_keys (jobs s)"] by simp
qed

lemma card_insert_bound:
  assumes "finite B" and "A \<subseteq> insert x B"
  shows "card A \<le> Suc (card B)"
proof -
  have "card A \<le> card (insert x B)" using assms by (intro card_mono) auto
  also have "\<dots> \<le> Suc (card B)" using assms(1) by (simp add: card_insert_if)
  finally show ?thesis .
qed



text \<open>
  C11. The backlog is bounded: if the pending requests were at most the queue capacity they still
  are after an enqueue, whatever it returns; a request that supersedes never makes the backlog longer.
\<close>

theorem backlog_bounded:
  assumes "sys.reach modes m" and "enqueue meta opts (sched m) = (r, s)"
    and "length (jobs (sched m)) \<le> opt_queue_capacity opts"
  shows "length (jobs s) \<le> opt_queue_capacity opts"
proof -
  have ok: "sched_ok (sched m)" using reach_base_ok[OF assms(1)] by (simp add: base_ok_def)
  have ok': "sched_ok s" using enqueue_spec(1)[OF ok assms(2)] by blast
  have hm: "hm_ok (jobs (sched m))" "hm_ok (jobs s)" using ok ok' by (simp_all add: sched_ok_def)
  show ?thesis
  proof (cases r)
    case (Inl e)
    then have "quiet (sched m) s" using enqueue_spec(2)[OF ok assms(2)] by blast
    then have "map fst (jobs s) = map fst (jobs (sched m))" by (simp add: quiet_def)
    then show ?thesis using assms(3) by (metis length_map)
  next
    case (Inr out)
    note spec = enqueue_spec(3)[OF ok assms(2) Inr]
    have fin: "finite {j. job_req (sched m) j \<noteq> None}"
      unfolding job_req_has[symmetric] hm_has_iff by simp
    show ?thesis
    proof (cases "eo_superseded out")
      case None
      obtain ih s1 where sup: "supersede meta (coalesce_key_of meta (opt_mode opts)) (opt_now opts) (sched m) = Inr (ih, s1)"
        and room: "\<not> (ih_superseded ih = None \<and> opt_queue_capacity opts \<le> length (jobs s1))"
        using assms(2) Inr by (auto simp: enqueue_def Let_def split: option.splits sum.splits prod.splits if_splits)
      have rep: "replaceable (coalesce_key_of meta (opt_mode opts)) (sched m) = None" using spec None by simp
      then have "quiet (sched m) s1" "ih_superseded ih = None" using supersede_spec[OF ok sup] by auto
      then have "map fst (jobs s1) = map fst (jobs (sched m))" by (simp add: quiet_def)
      then have "length (jobs (sched m)) < opt_queue_capacity opts"
        using room \<open>ih_superseded ih = None\<close> by (metis length_map not_le)
      moreover have "{j. job_req s j \<noteq> None} \<subseteq> insert (eo_job out) {j. job_req (sched m) j \<noteq> None}"
        using spec None by auto
      then have "length (jobs s) \<le> Suc (length (jobs (sched m)))"
        using card_insert_bound[OF fin] pending_card[OF hm(1)] pending_card[OF hm(2)] by simp
      ultimately show ?thesis by simp
    next
      case (Some old)
      have "replaceable (coalesce_key_of meta (opt_mode opts)) (sched m) = Some old" using spec Some by simp
      then have "hm_has (jobs (sched m)) old"
        by (auto simp: replaceable_def split: option.splits if_splits)
      then have old: "old \<in> {j. job_req (sched m) j \<noteq> None}" unfolding job_req_has by simp
      have "{j. job_req s j \<noteq> None} \<subseteq> insert (eo_job out) ({j. job_req (sched m) j \<noteq> None} - {old})"
        using spec Some by auto
      then have "card {j. job_req s j \<noteq> None} \<le> Suc (card ({j. job_req (sched m) j \<noteq> None} - {old}))"
        using fin by (intro card_insert_bound) auto
      also have "\<dots> = card {j. job_req (sched m) j \<noteq> None}" using card.remove[OF fin old] by simp
      finally show ?thesis using assms(3) pending_card[OF hm(1)] pending_card[OF hm(2)] by simp
    qed
  qed
qed

theorem backlog_bounded_witness:
  "length (jobs (snd (enqueue (demo_meta None 1) (demo_opts Serial Fifo 0) demo_three))) \<le> 4"
proof -
  obtain out s where e: "enqueue (demo_meta None 1) (demo_opts Serial Fifo 0) (sched (demo_machine demo_three)) = (out, s)"
    by fastforce
  have "length (jobs (sched (demo_machine demo_three))) \<le> opt_queue_capacity (demo_opts Serial Fifo 0)" by code_simp
  from backlog_bounded[OF demo_three_reach e this] show ?thesis using e by (simp add: demo_machine_def demo_opts_def)
qed





subsection \<open>Cancel, complete, penalize\<close>

text \<open>
  C13. Cancelling removes the one request it names: it leaves the pending map, its slot and its
  lane's line; every other request, every permit and every limit stays, and a request that is not
  pending (granted, finished or unknown) is not touched.
\<close>

theorem cancel_removes_one:
  assumes "sys.reach modes m"
  shows "job_req (cancel j (clock m) (sched m)) = (job_req (sched m))(j := None)
    \<and> in_flight (cancel j (clock m) (sched m)) = in_flight (sched m)
    \<and> line (cancel j (clock m) (sched m)) l = filter (\<lambda>i. i \<noteq> j) (line (sched m) l)
    \<and> hm_get (coalesce (cancel j (clock m) (sched m))) k
        = (if hm_get (coalesce (sched m)) k = Some j then None else hm_get (coalesce (sched m)) k)"
proof -
  let ?t = "cancel j (clock m) (sched m)"
  have ok: "sched_ok (sched m)" and q: "queues_ok (sched m)"
    using reach_queues_ok[OF assms] by (simp_all add: base_ok_def)
  have fl: "in_flight ?t = in_flight (sched m)"
  proof (cases "hm_get (jobs (sched m)) j")
    case None
    then show ?thesis
      by (simp add: cancel_def remove_waiting_def compact_blocked_if_needed_def compact_delayed_if_needed_def)
  qed (use cancel_spec[OF ok, of j _ "clock m"] in \<open>auto simp: removes_def\<close>)
  have co: "coalesce_ok (sched m)" "coalesce_ok ?t"
    using q cancel_queues_ok[OF ok q, of j "clock m"] by (simp_all add: queues_ok_def)
  have "hm_get (coalesce ?t) k = (if hm_get (coalesce (sched m)) k = Some j then None else hm_get (coalesce (sched m)) k)"
  proof (cases "hm_get (coalesce (sched m)) k = Some j")
    case True
    have "hm_get (coalesce ?t) k \<noteq> Some i" for i
    proof
      assume i: "hm_get (coalesce ?t) k = Some i"
      then have r: "\<exists>mm c. job_req ?t i = Some (mm, c, Some k)" using co(2) unfolding coalesce_ok_def by blast
      then have "i \<noteq> j" "\<exists>mm c. job_req (sched m) i = Some (mm, c, Some k)" by (auto simp: cancel_req[OF ok] split: if_splits)
      then have "hm_get (coalesce (sched m)) k = Some i" using co(1) unfolding coalesce_ok_def by blast
      with True \<open>i \<noteq> j\<close> show False by simp
    qed
    with True show ?thesis by (cases "hm_get (coalesce ?t) k") auto
  next
    case False
    then show ?thesis unfolding cancel_lines(4)[OF ok] slot_freed_def by (auto split: option.split)
  qed
  then show ?thesis using fl cancel_req[OF ok] cancel_lines(1)[OF ok] by simp
qed

theorem cancel_removes_one_witness: "line (cancel 0 0 demo_three) 7 = [1]"
proof -
  have "line demo_three 7 = [0, 1]" by code_simp
  then show ?thesis using cancel_removes_one[OF demo_three_reach, of 0 7] by (simp add: demo_machine_def)
qed

text \<open>
  C14. Completion counts once: reporting the outcome of a permit a second time, whatever the second
  report says and whenever it comes, changes nothing.
\<close>

theorem complete_once:
  "complete j c' now' seen' (complete j c now seen s) = complete j c now seen s"
proof (cases "hm_get (in_flight s) j")
  case None
  then show ?thesis by (simp add: complete_absent)
next
  case (Some fl)
  have "hm_get (in_flight (complete j c now seen s)) j = None"
    by (simp add: complete_facts(2)[OF Some refl])
  then show ?thesis by (rule complete_absent)
qed

definition scope_penalty :: "outbound_scope \<Rightarrow> penalty_key" where
  "scope_penalty sc = (case sc of ScopeGlobal \<Rightarrow> PenaltyGlobal | ScopeChat chat \<Rightarrow> PenaltyChat chat)"

text \<open>
  C15. A penalty is never shortened: after a \<open>RetryAfter\<close> report for a chat or for everyone, the
  penalty of that scope ends at the later of its old end and the reported one, and no other penalty
  moves.
\<close>

theorem retry_after_extends_penalty:
  assumes "hm_get (in_flight s) j = Some fl" and "0 < d"
  shows "hm_get (penalties (complete j (RetryAfter sc d) now seen s)) k
    = (if k = scope_penalty sc then Some (case hm_get (penalties s) k of None \<Rightarrow> seen + d | Some t \<Rightarrow> max t (seen + d))
       else hm_get (penalties s) k)"
proof -
  define s1 where "s1 = s\<lparr>in_flight := hm_remove j (in_flight s)\<rparr>"
  define s2 where "s2 = (case if_lane fl of None \<Rightarrow> s1 | Some l \<Rightarrow> complete_lane j l now s1)"
  have "penalties s2 = penalties s"
    using complete_lane_facts(2)[where s = s1 and j = j and now = now]
    by (auto simp: s2_def s1_def same_env_def split: option.split)
  moreover have "complete j (RetryAfter sc d) now seen s = penalize sc (seen + d) s2"
    using assms(1,2) by (simp add: complete_def s1_def[symmetric] s2_def[symmetric] Let_def)
  ultimately show ?thesis
    by (simp add: penalize_def Let_def scope_penalty_def[symmetric] max_def split: option.split)
qed

theorem retry_after_extends_penalty_witness:
  "hm_get (penalties (complete 0 (RetryAfter ScopeGlobal 5) 3 4 (demo_grant 0 demo_three))) PenaltyGlobal = Some 9"
proof -
  have "hm_get (penalties (demo_grant 0 demo_three)) PenaltyGlobal = None" by code_simp
  moreover have "hm_has (in_flight (demo_grant 0 demo_three)) 0" by code_simp
  then obtain fl where "hm_get (in_flight (demo_grant 0 demo_three)) 0 = Some fl" by auto
  ultimately show ?thesis
    using retry_after_extends_penalty[of "demo_grant 0 demo_three" 0 fl 5 ScopeGlobal 3 4 PenaltyGlobal]
    by (simp add: scope_penalty_def)
qed

end
