(* ===== verification/Outbox_Store.thy ===== *)
theory Outbox_Store
  imports Outbound_Types
begin

text \<open>
  The in-memory outbox store (\<open>outbound/outbox.rs\<close>): records, leases with fencing tokens, the
  idempotency index and the seven operations of the \<open>OutboxStore\<close> trait.

  The mutex makes every operation one atomic step; \<open>None\<close> stands for a panic at an \<open>expect\<close> inside
  the critical section (which would poison the mutex), and \<open>outbox_ok\<close> below rules it out.
  \<open>SystemTime\<close> is a number of nanoseconds and an operation that reads the clock takes the value
  read as its first argument.  The \<open>u64\<close> counters \<open>next_id\<close> and \<open>next_lease_token\<close> are read as
  numbers: they are exact for the first \<open>2 ^ 64\<close> records and claims.
\<close>

subsection \<open>Data\<close>

type_synonym outbox_id = nat
type_synonym outbox_worker_id = nat
type_synonym system_time = nat

text \<open>\<open>SystemTime\<close> of a 64-bit Unix counts signed 64-bit seconds.\<close>

definition checked_add_time :: "system_time \<Rightarrow> duration \<Rightarrow> system_time option" where
  "checked_add_time t d = (if t + d < 2 ^ 63 * 10 ^ 9 then Some (t + d) else None)"

definition time_after :: "system_time \<Rightarrow> duration \<Rightarrow> system_time" where
  "time_after t d = (case checked_add_time t d of None \<Rightarrow> t | Some u \<Rightarrow> u)"

record outbox_lease =
  le_worker :: outbox_worker_id
  le_token :: nat
  le_until :: system_time

datatype outbox_failure_kind = FailRetryAfter | FailTransient | FailPermanent | FailSchedulerUnavailable | FailExhausted

datatype outbox_status = StatusPending | StatusClaimed | StatusCompleted | StatusFailed outbox_failure_kind

record new_outbox_request =
  rq_key :: string
  rq_payload :: "nat list"
  rq_version :: nat
  rq_metadata :: outbound_metadata
  rq_available_at :: system_time
  rq_max_attempts :: nat

definition new_outbox_request_new :: "system_time \<Rightarrow> string \<Rightarrow> nat list \<Rightarrow> outbound_metadata \<Rightarrow> new_outbox_request" where
  "new_outbox_request_new now key payload metadata = \<lparr>rq_key = key, rq_payload = payload, rq_version = 1,
     rq_metadata = metadata, rq_available_at = now, rq_max_attempts = 5\<rparr>"

datatype outbox_enqueue_result = Inserted outbox_id | Existing outbox_id

record claimed_outbox_request =
  cl_id :: outbox_id
  cl_key :: string
  cl_payload :: "nat list"
  cl_version :: nat
  cl_metadata :: outbound_metadata
  cl_available_at :: system_time
  cl_attempt :: nat
  cl_claim_count :: nat
  cl_max_attempts :: nat
  cl_lease :: outbox_lease

record outbox_snapshot =
  os_id :: outbox_id
  os_key :: string
  os_status :: outbox_status
  os_attempt :: nat
  os_claim_count :: nat
  os_max_attempts :: nat
  os_available_at :: system_time
  os_version :: nat
  os_metadata :: outbound_metadata
  os_lease :: "outbox_lease option"
  os_last_failure :: "outbox_failure_kind option"

record outbox_retry =
  rt_available_at :: system_time
  rt_failure :: outbox_failure_kind

datatype outbox_attempt_start = Started nat | StartExhausted

datatype in_memory_status = InPending | InClaimed outbox_lease | InCompleted | InFailed outbox_failure_kind

record in_memory_record =
  ir_request :: new_outbox_request
  ir_attempt :: nat
  ir_claim_count :: nat
  ir_status :: in_memory_status
  ir_last_failure :: "outbox_failure_kind option"

record in_memory_state =
  im_next_id :: nat
  im_next_token :: nat
  im_records :: "(outbox_id, in_memory_record) hmap"
  im_by_key :: "(string, outbox_id) hmap"
  im_fail_next_complete :: bool

definition in_memory_default :: in_memory_state where
  "in_memory_default = \<lparr>im_next_id = 0, im_next_token = 0, im_records = [], im_by_key = [],
     im_fail_next_complete = False\<rparr>"

datatype in_memory_error = OutboxConflict outbox_id | OutboxNotFound outbox_id | OutboxLeaseMismatch outbox_id
  | OutboxPoisoned | OutboxInjectedFailure

subsection \<open>Queries\<close>

definition status_of :: "in_memory_status \<Rightarrow> outbox_status" where
  "status_of st = (case st of InPending \<Rightarrow> StatusPending | InClaimed _ \<Rightarrow> StatusClaimed
     | InCompleted \<Rightarrow> StatusCompleted | InFailed kind \<Rightarrow> StatusFailed kind)"

definition snapshot_record :: "outbox_id \<Rightarrow> in_memory_record \<Rightarrow> outbox_snapshot" where
  "snapshot_record i r = \<lparr>os_id = i, os_key = rq_key (ir_request r), os_status = status_of (ir_status r),
     os_attempt = ir_attempt r, os_claim_count = ir_claim_count r, os_max_attempts = rq_max_attempts (ir_request r),
     os_available_at = rq_available_at (ir_request r), os_version = rq_version (ir_request r),
     os_metadata = rq_metadata (ir_request r),
     os_lease = (case ir_status r of InClaimed lease \<Rightarrow> Some lease | _ \<Rightarrow> None),
     os_last_failure = ir_last_failure r\<rparr>"

definition ob_get :: "outbox_id \<Rightarrow> in_memory_state \<Rightarrow> outbox_snapshot option" where
  "ob_get i s = map_option (snapshot_record i) (hm_get (im_records s) i)"

definition ob_pending_count :: "in_memory_state \<Rightarrow> nat" where
  "ob_pending_count s = length (filter (\<lambda>r. ir_status r = InPending) (hm_values (im_records s)))"

definition ob_fail_next_complete :: "in_memory_state \<Rightarrow> in_memory_state" where
  "ob_fail_next_complete s = s\<lparr>im_fail_next_complete := True\<rparr>"

definition same_request :: "new_outbox_request \<Rightarrow> new_outbox_request \<Rightarrow> bool" where
  "same_request l r \<longleftrightarrow> rq_payload l = rq_payload r \<and> rq_version l = rq_version r
     \<and> rq_metadata l = rq_metadata r \<and> rq_max_attempts l = rq_max_attempts r"

definition lease_is_current :: "system_time \<Rightarrow> in_memory_status \<Rightarrow> outbox_lease \<Rightarrow> bool" where
  "lease_is_current clock st lease = (case st of
     InClaimed current \<Rightarrow> le_worker current = le_worker lease \<and> le_token current = le_token lease
       \<and> clock < le_until current
   | _ \<Rightarrow> False)"

subsection \<open>Enqueue and claim\<close>

definition ob_enqueue :: "new_outbox_request \<Rightarrow> in_memory_state
    \<Rightarrow> ((in_memory_error + outbox_enqueue_result) \<times> in_memory_state) option" where
  "ob_enqueue rq s = (case hm_get (im_by_key s) (rq_key rq) of
     Some i \<Rightarrow> (case hm_get (im_records s) i of
         None \<Rightarrow> None
       | Some r \<Rightarrow> if same_request (ir_request r) rq then Some (Inr (Existing i), s)
           else Some (Inl (OutboxConflict i), s))
   | None \<Rightarrow>
       let i = im_next_id s;
           r = \<lparr>ir_request = rq, ir_attempt = 0, ir_claim_count = 0, ir_status = InPending, ir_last_failure = None\<rparr>
       in Some (Inr (Inserted i), s\<lparr>im_next_id := i + 1, im_by_key := hm_insert (rq_key rq) i (im_by_key s),
            im_records := hm_insert i r (im_records s)\<rparr>))"

definition expire_record :: "system_time \<Rightarrow> in_memory_record \<Rightarrow> in_memory_record" where
  "expire_record now r = (case ir_status r of
     InClaimed lease \<Rightarrow> if le_until lease \<le> now then r\<lparr>ir_status := InPending\<rparr> else r
   | _ \<Rightarrow> r)"

definition is_due :: "system_time \<Rightarrow> in_memory_record \<Rightarrow> bool" where
  "is_due now r \<longleftrightarrow> ir_status r = InPending \<and> rq_available_at (ir_request r) \<le> now"

text \<open>The ids come from the map itself, so the missing case of the sort key never occurs.\<close>

definition claim_key :: "(outbox_id, in_memory_record) hmap \<Rightarrow> outbox_id \<Rightarrow> system_time \<times> outbox_id" where
  "claim_key rs i = (case hm_get rs i of Some r \<Rightarrow> (rq_available_at (ir_request r), i) | None \<Rightarrow> (0, i))"

definition due_ids :: "system_time \<Rightarrow> (outbox_id, in_memory_record) hmap \<Rightarrow> outbox_id list" where
  "due_ids now rs = sort_key (claim_key rs) (map fst (filter (\<lambda>p. is_due now (snd p)) rs))"

definition claim_of :: "outbox_id \<Rightarrow> in_memory_record \<Rightarrow> outbox_lease \<Rightarrow> claimed_outbox_request" where
  "claim_of i r lease = \<lparr>cl_id = i, cl_key = rq_key (ir_request r), cl_payload = rq_payload (ir_request r),
     cl_version = rq_version (ir_request r), cl_metadata = rq_metadata (ir_request r),
     cl_available_at = rq_available_at (ir_request r), cl_attempt = ir_attempt r,
     cl_claim_count = ir_claim_count r, cl_max_attempts = rq_max_attempts (ir_request r), cl_lease = lease\<rparr>"

definition exhausted :: "in_memory_record \<Rightarrow> bool" where
  "exhausted r \<longleftrightarrow> rq_max_attempts (ir_request r) \<le> ir_attempt r"

fun claim_loop :: "outbox_worker_id \<Rightarrow> system_time \<Rightarrow> duration \<Rightarrow> nat \<Rightarrow> outbox_id list
    \<Rightarrow> claimed_outbox_request list \<Rightarrow> in_memory_state \<Rightarrow> (claimed_outbox_request list \<times> in_memory_state) option" where
  "claim_loop worker now lease_for limit [] claimed s = Some (claimed, s)"
| "claim_loop worker now lease_for limit (i # ids) claimed s =
    (if length claimed = limit then Some (claimed, s)
     else
       let token = im_next_token s + 1; s1 = s\<lparr>im_next_token := token\<rparr> in
       case hm_get (im_records s1) i of
         None \<Rightarrow> None
       | Some r \<Rightarrow>
           if exhausted r then
             claim_loop worker now lease_for limit ids claimed
               (s1\<lparr>im_records := hm_insert i (r\<lparr>ir_status := InFailed FailExhausted\<rparr>) (im_records s1)\<rparr>)
           else
             let lease = \<lparr>le_worker = worker, le_token = token, le_until = time_after now lease_for\<rparr>;
                 r1 = r\<lparr>ir_claim_count := (ir_claim_count r + 1) mod 2 ^ 32, ir_status := InClaimed lease\<rparr>
             in claim_loop worker now lease_for limit ids (claimed @ [claim_of i r1 lease])
                  (s1\<lparr>im_records := hm_insert i r1 (im_records s1)\<rparr>))"

definition ob_claim_due :: "outbox_worker_id \<Rightarrow> system_time \<Rightarrow> duration \<Rightarrow> nat \<Rightarrow> in_memory_state
    \<Rightarrow> (claimed_outbox_request list \<times> in_memory_state) option" where
  "ob_claim_due worker now lease_for limit s =
    (let s1 = s\<lparr>im_records := hm_map_values (\<lambda>_. expire_record now) (im_records s)\<rparr>
     in claim_loop worker now lease_for limit (due_ids now (im_records s1)) [] s1)"

subsection \<open>Operations under a lease\<close>

text \<open>
  The common head of the lease-aware mutations: the record must exist and be claimed under the
  presented worker and token, with a lease that has not run out.
\<close>

definition with_lease :: "system_time \<Rightarrow> outbox_id \<Rightarrow> outbox_lease
    \<Rightarrow> (in_memory_record \<Rightarrow> (in_memory_error + 'a) \<times> in_memory_record) \<Rightarrow> in_memory_state
    \<Rightarrow> (in_memory_error + 'a) \<times> in_memory_state" where
  "with_lease clock i lease f s = (case hm_get (im_records s) i of
     None \<Rightarrow> (Inl (OutboxNotFound i), s)
   | Some r \<Rightarrow> if \<not> lease_is_current clock (ir_status r) lease then (Inl (OutboxLeaseMismatch i), s)
       else let (res, r1) = f r in (res, s\<lparr>im_records := hm_insert i r1 (im_records s)\<rparr>))"

definition ob_renew_lease :: "system_time \<Rightarrow> outbox_id \<Rightarrow> outbox_lease \<Rightarrow> system_time \<Rightarrow> in_memory_state
    \<Rightarrow> (in_memory_error + outbox_lease) \<times> in_memory_state" where
  "ob_renew_lease clock i lease until = with_lease clock i lease (\<lambda>r.
     let renewed = lease\<lparr>le_until := until\<rparr> in (Inr renewed, r\<lparr>ir_status := InClaimed renewed\<rparr>))"

definition ob_begin_attempt :: "system_time \<Rightarrow> outbox_id \<Rightarrow> outbox_lease \<Rightarrow> in_memory_state
    \<Rightarrow> (in_memory_error + outbox_attempt_start) \<times> in_memory_state" where
  "ob_begin_attempt clock i lease = with_lease clock i lease (\<lambda>r.
     if exhausted r then (Inr StartExhausted, r)
     else (Inr (Started (ir_attempt r + 1)), r\<lparr>ir_attempt := ir_attempt r + 1\<rparr>))"

definition ob_complete :: "system_time \<Rightarrow> outbox_id \<Rightarrow> outbox_lease \<Rightarrow> in_memory_state
    \<Rightarrow> (in_memory_error + unit) \<times> in_memory_state" where
  "ob_complete clock i lease s =
    (if im_fail_next_complete s then (Inl OutboxInjectedFailure, s\<lparr>im_fail_next_complete := False\<rparr>)
     else with_lease clock i lease (\<lambda>r. (Inr (), r\<lparr>ir_status := InCompleted\<rparr>)) s)"

definition ob_reschedule :: "system_time \<Rightarrow> outbox_id \<Rightarrow> outbox_lease \<Rightarrow> outbox_retry \<Rightarrow> in_memory_state
    \<Rightarrow> (in_memory_error + unit) \<times> in_memory_state" where
  "ob_reschedule clock i lease retry = with_lease clock i lease (\<lambda>r.
     (Inr (), r\<lparr>ir_request := (ir_request r)\<lparr>rq_available_at := rt_available_at retry\<rparr>,
       ir_last_failure := Some (rt_failure retry), ir_status := InPending\<rparr>))"

definition ob_fail :: "system_time \<Rightarrow> outbox_id \<Rightarrow> outbox_lease \<Rightarrow> outbox_failure_kind \<Rightarrow> in_memory_state
    \<Rightarrow> (in_memory_error + unit) \<times> in_memory_state" where
  "ob_fail clock i lease kind = with_lease clock i lease (\<lambda>r.
     (Inr (), r\<lparr>ir_last_failure := Some kind, ir_status := InFailed kind\<rparr>))"

end
