(* ===== verification/Outbox_Worker.thy ===== *)
theory Outbox_Worker
  imports Outbox_Store
begin

text \<open>
  The outbox worker (\<open>OutboundOutbox\<close> and \<open>LeaseHeartbeat\<close> in \<open>outbound/outbox.rs\<close>), for any
  implementation of the \<open>OutboxStore\<close> trait: a store is the record of its operations, each of which
  takes the time at which it runs and is one atomic step.

  What the worker does not decide is its environment: the answer of the scheduler queue, the answer
  of the application's executor, the clock readings, and at which moments the heartbeat timer fires
  before the operation it guards is done.  Errors stop an execution, so it is an action with state
  \<open>execution\<close> and result \<open>'e worker_error + 'a\<close>; \<open>ex_log\<close> records what the outside world sees.
\<close>

subsection \<open>The store interface and the settings\<close>

record ('s, 'e) outbox_store =
  st_claim :: "outbox_worker_id \<Rightarrow> system_time \<Rightarrow> duration \<Rightarrow> nat \<Rightarrow> 's \<Rightarrow> ('e + claimed_outbox_request list) \<times> 's"
  st_renew :: "system_time \<Rightarrow> outbox_id \<Rightarrow> outbox_lease \<Rightarrow> system_time \<Rightarrow> 's \<Rightarrow> ('e + outbox_lease) \<times> 's"
  st_begin :: "system_time \<Rightarrow> outbox_id \<Rightarrow> outbox_lease \<Rightarrow> 's \<Rightarrow> ('e + outbox_attempt_start) \<times> 's"
  st_complete :: "system_time \<Rightarrow> outbox_id \<Rightarrow> outbox_lease \<Rightarrow> 's \<Rightarrow> ('e + unit) \<times> 's"
  st_reschedule :: "system_time \<Rightarrow> outbox_id \<Rightarrow> outbox_lease \<Rightarrow> outbox_retry \<Rightarrow> 's \<Rightarrow> ('e + unit) \<times> 's"
  st_fail :: "system_time \<Rightarrow> outbox_id \<Rightarrow> outbox_lease \<Rightarrow> outbox_failure_kind \<Rightarrow> 's \<Rightarrow> ('e + unit) \<times> 's"

datatype outbox_execution_error = ExecRetryAfter outbound_scope duration | ExecTransient | ExecPermanent

datatype 'e worker_error = StoreError 'e | InvalidLeaseDuration

record worker_settings =
  ws_worker :: outbox_worker_id
  ws_max_in_flight :: nat
  ws_lease_for :: duration
  ws_poll_interval :: duration
  ws_retry_delay :: duration
  ws_backoff_base :: duration
  ws_backoff_max :: duration
  ws_lane :: "lane_key option"

abbreviation second :: duration where "second \<equiv> 1000000000"

definition worker_settings_default :: worker_settings where
  "worker_settings_default = \<lparr>ws_worker = 1, ws_max_in_flight = 8, ws_lease_for = 60 * second,
     ws_poll_interval = 1 * second, ws_retry_delay = 1 * second, ws_backoff_base = 1 * second,
     ws_backoff_max = 60 * second, ws_lane = None\<rparr>"

text \<open>\<open>Duration\<close> is a 64-bit count of seconds and a nanosecond part.\<close>

definition DURATION_MAX :: duration where
  "DURATION_MAX = 2 ^ 64 * 1000000000 - 1"

definition checked_mul_duration :: "duration \<Rightarrow> nat \<Rightarrow> duration option" where
  "checked_mul_duration d n = (if d * n \<le> DURATION_MAX then Some (d * n) else None)"

subsection \<open>Back-off\<close>

text \<open>The loop \<open>for _ in 1..attempt\<close>, with its early return.\<close>

fun backoff_loop :: "nat \<Rightarrow> duration \<Rightarrow> duration \<Rightarrow> duration" where
  "backoff_loop 0 longest delay = min delay longest"
| "backoff_loop (Suc n) longest delay =
    (let delay1 = (case checked_mul_duration delay 2 of None \<Rightarrow> longest | Some d \<Rightarrow> d)
     in if longest \<le> delay1 then longest else backoff_loop n longest delay1)"

definition transient_backoff :: "worker_settings \<Rightarrow> nat \<Rightarrow> duration" where
  "transient_backoff ws attempt = backoff_loop (attempt - 1) (ws_backoff_max ws) (ws_backoff_base ws)"

subsection \<open>One execution\<close>

datatype worker_event =
    Executed claimed_outbox_request
  | PermitStarted
  | PermitCompleted outbound_completion

record 's execution =
  ex_store :: 's
  ex_lease :: outbox_lease
  ex_log :: "worker_event list"

type_synonym ('s, 'e, 'a) action = "'s execution \<Rightarrow> ('e worker_error + 'a) \<times> 's execution"

definition and_then :: "('s, 'e, 'a) action \<Rightarrow> ('a \<Rightarrow> ('s, 'e, 'b) action) \<Rightarrow> ('s, 'e, 'b) action" where
  "and_then m k x = (case m x of (Inl e, y) \<Rightarrow> (Inl e, y) | (Inr a, y) \<Rightarrow> k a y)"

definition pure_action :: "'a \<Rightarrow> ('s, 'e, 'a) action" where
  "pure_action a x = (Inr a, x)"

definition emit :: "worker_event \<Rightarrow> ('s, 'e, unit) action" where
  "emit ev x = (Inr (), x\<lparr>ex_log := ex_log x @ [ev]\<rparr>)"

text \<open>
  \<open>drive\<close>: each time the heartbeat timer fires before the operation is done the lease is renewed and
  the heartbeat keeps the renewed one; a failed renewal ends the execution.
\<close>

fun heartbeat :: "('s, 'e) outbox_store \<Rightarrow> outbox_id \<Rightarrow> duration \<Rightarrow> system_time list \<Rightarrow> ('s, 'e, unit) action" where
  "heartbeat st i lease_for [] = pure_action ()"
| "heartbeat st i lease_for (now # ticks) = (\<lambda>x.
    case st_renew st now i (ex_lease x) (time_after now lease_for) (ex_store x) of
      (Inl e, s) \<Rightarrow> (Inl (StoreError e), x\<lparr>ex_store := s\<rparr>)
    | (Inr lease, s) \<Rightarrow> heartbeat st i lease_for ticks (x\<lparr>ex_store := s, ex_lease := lease\<rparr>))"

text \<open>
  A store call is created with the lease the heartbeat holds at that moment and then driven, so it
  presents that lease even when the heartbeat renewed it in between.
\<close>

definition drive_store :: "('s, 'e) outbox_store \<Rightarrow> outbox_id \<Rightarrow> duration \<Rightarrow> system_time list
    \<Rightarrow> (outbox_lease \<Rightarrow> 's \<Rightarrow> ('e + 'a) \<times> 's) \<Rightarrow> ('s, 'e, 'a) action" where
  "drive_store st i lease_for ticks call x = and_then (heartbeat st i lease_for ticks)
     (\<lambda>_ y. case call (ex_lease x) (ex_store y) of
        (Inl e, s) \<Rightarrow> (Inl (StoreError e), y\<lparr>ex_store := s\<rparr>)
      | (Inr a, s) \<Rightarrow> (Inr a, y\<lparr>ex_store := s\<rparr>)) x"

datatype stage = AtAcquire | AtBegin | AtExecute | AtPermit | AtRetry | AtFinish

record environment =
  en_ticks :: "stage \<Rightarrow> system_time list"
  en_time :: "stage \<Rightarrow> system_time"
  en_acquire :: "outbound_acquire_error option"
  en_execute :: "claimed_outbox_request \<Rightarrow> outbox_execution_error option"

definition retry_or_fail :: "('s, 'e) outbox_store \<Rightarrow> worker_settings \<Rightarrow> environment \<Rightarrow> outbox_id
    \<Rightarrow> nat \<Rightarrow> nat \<Rightarrow> outbox_failure_kind \<Rightarrow> duration \<Rightarrow> ('s, 'e, unit) action" where
  "retry_or_fail st ws env i attempt max_attempts kind delay =
    (if max_attempts \<le> attempt then
       drive_store st i (ws_lease_for ws) (en_ticks env AtFinish)
         (\<lambda>lease. st_fail st (en_time env AtFinish) i lease FailExhausted)
     else
       let available_at = time_after (en_time env AtRetry) delay
       in drive_store st i (ws_lease_for ws) (en_ticks env AtFinish)
            (\<lambda>lease. st_reschedule st (en_time env AtFinish) i lease
               \<lparr>rt_available_at = available_at, rt_failure = kind\<rparr>))"

definition finish_failed :: "('s, 'e) outbox_store \<Rightarrow> worker_settings \<Rightarrow> environment \<Rightarrow> outbox_id
    \<Rightarrow> outbox_failure_kind \<Rightarrow> ('s, 'e, unit) action" where
  "finish_failed st ws env i kind = drive_store st i (ws_lease_for ws) (en_ticks env AtFinish)
     (\<lambda>lease. st_fail st (en_time env AtFinish) i lease kind)"

definition complete_permit :: "('s, 'e) outbox_store \<Rightarrow> worker_settings \<Rightarrow> environment \<Rightarrow> outbox_id
    \<Rightarrow> outbound_completion \<Rightarrow> ('s, 'e, unit) action" where
  "complete_permit st ws env i completion =
     and_then (heartbeat st i (ws_lease_for ws) (en_ticks env AtPermit)) (\<lambda>_. emit (PermitCompleted completion))"

definition settle_execution :: "('s, 'e) outbox_store \<Rightarrow> worker_settings \<Rightarrow> environment \<Rightarrow> outbox_id
    \<Rightarrow> nat \<Rightarrow> nat \<Rightarrow> outbox_execution_error option \<Rightarrow> ('s, 'e, unit) action" where
  "settle_execution st ws env i attempt max_attempts res = (case res of
     None \<Rightarrow> and_then (complete_permit st ws env i Success) (\<lambda>_.
       drive_store st i (ws_lease_for ws) (en_ticks env AtFinish) (\<lambda>lease. st_complete st (en_time env AtFinish) i lease))
   | Some (ExecRetryAfter scope d) \<Rightarrow> and_then (complete_permit st ws env i (RetryAfter scope d)) (\<lambda>_.
       retry_or_fail st ws env i attempt max_attempts FailRetryAfter d)
   | Some ExecTransient \<Rightarrow> and_then (complete_permit st ws env i Failed) (\<lambda>_.
       retry_or_fail st ws env i attempt max_attempts FailTransient (transient_backoff ws attempt))
   | Some ExecPermanent \<Rightarrow> and_then (complete_permit st ws env i Failed) (\<lambda>_.
       finish_failed st ws env i FailPermanent))"

definition run_granted :: "('s, 'e) outbox_store \<Rightarrow> worker_settings \<Rightarrow> environment \<Rightarrow> claimed_outbox_request
    \<Rightarrow> ('s, 'e, unit) action" where
  "run_granted st ws env rq =
    and_then (drive_store st (cl_id rq) (ws_lease_for ws) (en_ticks env AtBegin)
        (\<lambda>lease. st_begin st (en_time env AtBegin) (cl_id rq) lease))
      (\<lambda>start. case start of
         StartExhausted \<Rightarrow> and_then (complete_permit st ws env (cl_id rq) NoRequest)
           (\<lambda>_. finish_failed st ws env (cl_id rq) FailExhausted)
       | Started attempt \<Rightarrow> (\<lambda>x.
           let rq1 = rq\<lparr>cl_attempt := attempt, cl_lease := ex_lease x\<rparr>
           in and_then (emit PermitStarted) (\<lambda>_. and_then (emit (Executed rq1)) (\<lambda>_.
                and_then (heartbeat st (cl_id rq) (ws_lease_for ws) (en_ticks env AtExecute)) (\<lambda>_.
                  settle_execution st ws env (cl_id rq) attempt (cl_max_attempts rq) (en_execute env rq1)))) x))"

definition execute_claimed :: "('s, 'e) outbox_store \<Rightarrow> worker_settings \<Rightarrow> environment \<Rightarrow> claimed_outbox_request
    \<Rightarrow> 's \<Rightarrow> ('e worker_error + unit) \<times> 's execution" where
  "execute_claimed st ws env rq s =
    and_then (heartbeat st (cl_id rq) (ws_lease_for ws) (en_ticks env AtAcquire))
      (\<lambda>_. case en_acquire env of
         None \<Rightarrow> run_granted st ws env rq
       | Some err \<Rightarrow>
           if err \<in> {AcqQueueFull, AcqClosed, AcqSuperseded} then
             retry_or_fail st ws env (cl_id rq) (cl_attempt rq) (cl_max_attempts rq) FailSchedulerUnavailable (ws_retry_delay ws)
           else finish_failed st ws env (cl_id rq) FailPermanent)
      \<lparr>ex_store = s, ex_lease = cl_lease rq, ex_log = []\<rparr>"

subsection \<open>One batch\<close>

text \<open>
  \<open>run_once\<close> returns after every execution of the batch: the number processed, or the error of the
  execution that failed first; \<open>results\<close> are in the order in which the executions finish.
\<close>

definition batch_result :: "('e worker_error + unit) list \<Rightarrow> 'e worker_error + nat" where
  "batch_result results =
    (let (processed, first_error) = fold (\<lambda>r (n, err). (n + 1,
           case r of Inl e \<Rightarrow> (case err of None \<Rightarrow> Some e | Some _ \<Rightarrow> err) | Inr _ \<Rightarrow> err)) results (0, None)
     in case first_error of Some e \<Rightarrow> Inl e | None \<Rightarrow> Inr processed)"


text \<open>
  The executions of a batch run concurrently; since each touches only its own record and the store's
  steps are atomic, they are run here one after the other, in the order in which they finish.
\<close>

fun run_batch :: "('s, 'e) outbox_store \<Rightarrow> worker_settings \<Rightarrow> (claimed_outbox_request \<Rightarrow> environment)
    \<Rightarrow> claimed_outbox_request list \<Rightarrow> 's \<Rightarrow> ('e worker_error + unit) list \<times> 's" where
  "run_batch st ws envs [] s = ([], s)"
| "run_batch st ws envs (rq # rqs) s =
    (let (res, x) = execute_claimed st ws (envs rq) rq s;
         (results, t) = run_batch st ws envs rqs (ex_store x)
     in (res # results, t))"

definition run_once :: "('s, 'e) outbox_store \<Rightarrow> worker_settings \<Rightarrow> system_time
    \<Rightarrow> (claimed_outbox_request \<Rightarrow> environment) \<Rightarrow> 's \<Rightarrow> ('e worker_error + nat) \<times> 's" where
  "run_once st ws now envs s =
    (if ws_lease_for ws = 0 then (Inl InvalidLeaseDuration, s)
     else case st_claim st (ws_worker ws) now (ws_lease_for ws) (ws_max_in_flight ws) s of
       (Inl e, t) \<Rightarrow> (Inl (StoreError e), t)
     | (Inr claimed, t) \<Rightarrow>
         if claimed = [] then (Inr 0, t)
         else let (results, u) = run_batch st ws envs claimed t in (batch_result results, u))"

subsection \<open>Back-off is exponential up to the maximum\<close>

lemma backoff_loop_exact:
  assumes "longest \<le> DURATION_MAX" and "delay < longest"
  shows "backoff_loop n longest delay = min (delay * 2 ^ n) longest"
  using assms(2)
proof (induction n arbitrary: delay)
  case (Suc n)
  show ?case
  proof (cases "2 * delay < longest")
    case True
    then have "checked_mul_duration delay 2 = Some (delay * 2)"
      using assms(1) by (simp add: checked_mul_duration_def)
    then show ?thesis using True Suc.IH[of "delay * 2"] by (simp add: Let_def mult.assoc mult.left_commute)
  next
    case False
    then have "longest \<le> (case checked_mul_duration delay 2 of None \<Rightarrow> longest | Some d \<Rightarrow> d)"
      by (simp add: checked_mul_duration_def)
    moreover have "longest \<le> delay * 2 ^ Suc n"
    proof -
      have "delay * 2 * 1 \<le> delay * 2 * 2 ^ n" by (intro mult_le_mono2) simp
      moreover have "delay * 2 * 2 ^ n = delay * 2 ^ Suc n" by simp
      ultimately show ?thesis using False by linarith
    qed
    ultimately show ?thesis by (simp add: Let_def)
  qed
qed simp

text \<open>
  C30. The delay before retry number \<open>n\<close> is the base doubled \<open>n - 1\<close> times, but never more than the
  configured maximum, also when the doubling would overflow a \<open>Duration\<close>.
\<close>

theorem transient_backoff_exact:
  assumes "ws_backoff_max ws \<le> DURATION_MAX" and "0 < n"
  shows "transient_backoff ws n = min (ws_backoff_base ws * 2 ^ (n - 1)) (ws_backoff_max ws)"
proof (cases "ws_backoff_base ws < ws_backoff_max ws")
  case True
  then show ?thesis using backoff_loop_exact[OF assms(1)] by (simp add: transient_backoff_def)
next
  case False
  have big: "ws_backoff_max ws \<le> ws_backoff_base ws * 2 ^ k" for k
  proof -
    have "ws_backoff_base ws * 1 \<le> ws_backoff_base ws * 2 ^ k" by (intro mult_le_mono2) simp
    then show ?thesis using False by linarith
  qed
  have "backoff_loop k (ws_backoff_max ws) (ws_backoff_base ws) = ws_backoff_max ws" for k
  proof (cases k)
    case (Suc m)
    have "ws_backoff_max ws \<le> (case checked_mul_duration (ws_backoff_base ws) 2 of None \<Rightarrow> ws_backoff_max ws | Some d \<Rightarrow> d)"
      using False by (simp add: checked_mul_duration_def)
    then show ?thesis by (simp add: Suc Let_def)
  qed (use False in simp)
  then show ?thesis using big[of "n - 1"] by (simp add: transient_backoff_def min_def)
qed

theorem transient_backoff_exact_witness:
  "transient_backoff worker_settings_default 7 = 60 * second \<and> transient_backoff worker_settings_default 3 = 4 * second"
  using transient_backoff_exact[of worker_settings_default 7] transient_backoff_exact[of worker_settings_default 3]
  by (simp add: worker_settings_default_def DURATION_MAX_def)

end
