(* ===== verification/Outbox_Invariant.thy ===== *)
theory Outbox_Invariant
  imports Outbox_Store
begin

text \<open>
  The outbox as a transition system: any interleaving of store calls by any number of workers, with
  a clock that only advances and a log of the delivery attempts that were started.  \<open>evolves\<close> is
  what every step may do to a store: records are never lost, terminal records never change, and a
  lease token that is not held is never held again.
\<close>

named_theorems outbox_ops "definitions of the lease-aware operations"

declare ob_renew_lease_def [outbox_ops] ob_begin_attempt_def [outbox_ops] ob_complete_def [outbox_ops]
  ob_reschedule_def [outbox_ops] ob_fail_def [outbox_ops]

subsection \<open>Holding a lease\<close>

definition holds_lease :: "in_memory_state \<Rightarrow> outbox_id \<Rightarrow> outbox_worker_id \<Rightarrow> nat \<Rightarrow> bool" where
  "holds_lease s i w tok = (case hm_get (im_records s) i of
     Some r \<Rightarrow> (case ir_status r of InClaimed lease \<Rightarrow> le_worker lease = w \<and> le_token lease = tok | _ \<Rightarrow> False)
   | None \<Rightarrow> False)"

definition terminal :: "in_memory_record \<Rightarrow> bool" where
  "terminal r = (case ir_status r of InCompleted \<Rightarrow> True | InFailed _ \<Rightarrow> True | _ \<Rightarrow> False)"

definition record_evolves :: "in_memory_record \<Rightarrow> in_memory_record \<Rightarrow> bool" where
  "record_evolves r r' \<longleftrightarrow> same_request (ir_request r) (ir_request r') \<and> rq_key (ir_request r') = rq_key (ir_request r)
     \<and> ir_attempt r \<le> ir_attempt r' \<and> (terminal r \<longrightarrow> r' = r)"

definition evolves :: "in_memory_state \<Rightarrow> in_memory_state \<Rightarrow> bool" where
  "evolves s t \<longleftrightarrow> im_next_id s \<le> im_next_id t \<and> im_next_token s \<le> im_next_token t
     \<and> (\<forall>k i. hm_get (im_by_key s) k = Some i \<longrightarrow> hm_get (im_by_key t) k = Some i)
     \<and> (\<forall>i r. hm_get (im_records s) i = Some r \<longrightarrow> (\<exists>r'. hm_get (im_records t) i = Some r' \<and> record_evolves r r'))
     \<and> (\<forall>i w tok. tok \<le> im_next_token s \<longrightarrow> holds_lease t i w tok \<longrightarrow> holds_lease s i w tok)"

lemma record_evolves_refl [simp]: "record_evolves r r"
  by (simp add: record_evolves_def same_request_def)

lemma record_evolves_trans: "record_evolves r s \<Longrightarrow> record_evolves s t \<Longrightarrow> record_evolves r t"
  by (auto simp: record_evolves_def same_request_def)

lemma evolves_refl [simp]: "evolves s s"
  by (auto simp: evolves_def)

lemma evolves_trans: "evolves s t \<Longrightarrow> evolves t u \<Longrightarrow> evolves s u"
  unfolding evolves_def by (meson le_trans record_evolves_trans)

definition outbox_ok :: "in_memory_state \<Rightarrow> bool" where
  "outbox_ok s \<longleftrightarrow> hm_ok (im_records s)
     \<and> (\<forall>i. hm_has (im_records s) i \<longrightarrow> i < im_next_id s)
     \<and> (\<forall>k i. hm_get (im_by_key s) k = Some i
          \<longleftrightarrow> (\<exists>r. hm_get (im_records s) i = Some r \<and> rq_key (ir_request r) = k))
     \<and> (\<forall>i w tok. holds_lease s i w tok \<longrightarrow> tok \<le> im_next_token s)
     \<and> (\<forall>i j v w tok. holds_lease s i v tok \<longrightarrow> holds_lease s j w tok \<longrightarrow> i = j \<and> v = w)
     \<and> (\<forall>i r. hm_get (im_records s) i = Some r
          \<longrightarrow> ir_attempt r \<le> rq_max_attempts (ir_request r) \<and> 0 < rq_max_attempts (ir_request r))"

lemma outbox_okD:
  assumes "outbox_ok s"
  shows "hm_ok (im_records s)"
    and "hm_has (im_records s) i \<Longrightarrow> i < im_next_id s"
    and "hm_get (im_by_key s) k = Some i \<longleftrightarrow> (\<exists>r. hm_get (im_records s) i = Some r \<and> rq_key (ir_request r) = k)"
    and "holds_lease s i w tok \<Longrightarrow> tok \<le> im_next_token s"
    and "holds_lease s i v tok \<Longrightarrow> holds_lease s j w tok \<Longrightarrow> i = j \<and> v = w"
    and "hm_get (im_records s) i = Some r \<Longrightarrow> ir_attempt r \<le> rq_max_attempts (ir_request r)"
    and "hm_get (im_records s) i = Some r \<Longrightarrow> 0 < rq_max_attempts (ir_request r)"
  using assms unfolding outbox_ok_def by blast+

subsection \<open>One record is replaced\<close>

text \<open>
  The shape of every change to an existing record: the record evolves, and it is afterwards held
  under the lease it was held under, under nothing, or under a token above every issued one.
\<close>

definition replaces :: "outbox_id \<Rightarrow> in_memory_record \<Rightarrow> in_memory_state \<Rightarrow> in_memory_state \<Rightarrow> bool" where
  "replaces i r' s t \<longleftrightarrow> im_records t = hm_insert i r' (im_records s) \<and> im_next_id t = im_next_id s
     \<and> im_by_key t = im_by_key s \<and> im_next_token s \<le> im_next_token t
     \<and> (\<exists>r. hm_get (im_records s) i = Some r \<and> record_evolves r r' \<and> ir_attempt r' \<le> rq_max_attempts (ir_request r'))
     \<and> (\<forall>lease. ir_status r' = InClaimed lease \<longrightarrow> holds_lease s i (le_worker lease) (le_token lease)
          \<or> im_next_token s < le_token lease \<and> le_token lease \<le> im_next_token t)"

lemma replaces_holds:
  assumes "replaces i r' s t"
  shows "holds_lease t j w tok \<longleftrightarrow> (if j = i then (\<exists>lease. ir_status r' = InClaimed lease \<and> le_worker lease = w
      \<and> le_token lease = tok) else holds_lease s j w tok)"
  using assms by (auto simp: replaces_def holds_lease_def split: in_memory_status.split)

lemma replaces_evolves:
  assumes "replaces i r' s t"
  shows "evolves s t"
proof -
  have "holds_lease s j w tok" if "tok \<le> im_next_token s" "holds_lease t j w tok" for j w tok
    using that assms unfolding replaces_holds[OF assms] by (auto simp: replaces_def split: if_splits)
  then show ?thesis using assms unfolding evolves_def replaces_def by auto
qed

lemma replaces_ok:
  assumes "replaces i r' s t" and "outbox_ok s"
  shows "outbox_ok t"
proof -
  have recs: "im_records t = hm_insert i r' (im_records s)" and ids: "im_next_id t = im_next_id s"
    and keys: "im_by_key t = im_by_key s" and tok: "im_next_token s \<le> im_next_token t"
    using assms(1) by (simp_all add: replaces_def)
  obtain r where r: "hm_get (im_records s) i = Some r" "record_evolves r r'" "ir_attempt r' \<le> rq_max_attempts (ir_request r')"
    using assms(1) by (auto simp: replaces_def)
  then have key: "rq_key (ir_request r') = rq_key (ir_request r)"
    and mx: "rq_max_attempts (ir_request r') = rq_max_attempts (ir_request r)"
    by (simp_all add: record_evolves_def same_request_def)
  have old: "holds_lease s j w n \<Longrightarrow> n \<le> im_next_token s"
    and uniq: "holds_lease s j w n \<Longrightarrow> holds_lease s k v n \<Longrightarrow> j = k \<and> w = v" for j k v w n
    using assms(2) by (auto simp: outbox_ok_def)
  have src: "holds_lease s j w n \<or> j = i \<and> im_next_token s < n \<and> n \<le> im_next_token t"
    if "holds_lease t j w n" for j w n
    using that assms(1) unfolding replaces_holds[OF assms(1)] by (auto simp: replaces_def split: if_splits)
  have one: "v = w" if "holds_lease t i v n" "holds_lease t i w n" for v w n
    using that unfolding replaces_holds[OF assms(1)] by auto
  have "j = k \<and> v = w" if "holds_lease t j v n" "holds_lease t k w n" for j k v w n
    using src[OF that(1)] src[OF that(2)] old uniq one that by (metis leD)
  moreover have "n \<le> im_next_token t" if "holds_lease t j w n" for j w n
    using src[OF that] old tok by fastforce
  moreover have "hm_get (im_by_key t) k = Some j \<longleftrightarrow> (\<exists>q. hm_get (im_records t) j = Some q \<and> rq_key (ir_request q) = k)" for k j
  proof -
    have "hm_get (im_by_key s) k = Some j \<longleftrightarrow> (\<exists>q. hm_get (im_records s) j = Some q \<and> rq_key (ir_request q) = k)"
      using assms(2) by (simp add: outbox_ok_def)
    then show ?thesis using r(1) key unfolding recs keys hm_get_insert by (cases "j = i") simp_all
  qed
  moreover have "hm_ok (im_records t)" using assms(2) unfolding outbox_ok_def recs by simp
  moreover have "j < im_next_id t" if "hm_has (im_records t) j" for j
    using that assms(2) r(1) unfolding outbox_ok_def recs ids hm_get_insert by (metis option.distinct(1))
  moreover have "ir_attempt q \<le> rq_max_attempts (ir_request q) \<and> 0 < rq_max_attempts (ir_request q)"
    if "hm_get (im_records t) j = Some q" for j q
  proof (cases "j = i")
    case True
    then have "q = r'" using that by (simp add: recs)
    then show ?thesis using r mx assms(2) by (auto simp: outbox_ok_def)
  qed (use that assms(2) in \<open>auto simp: outbox_ok_def recs\<close>)
  ultimately show ?thesis unfolding outbox_ok_def by blast
qed

subsection \<open>The operations under a lease\<close>

text \<open>What a mutation may do to the record it is given: nothing to its lease, key or finished state.\<close>

definition lawful :: "outbox_lease \<Rightarrow> (in_memory_record \<Rightarrow> 'b \<times> in_memory_record) \<Rightarrow> bool" where
  "lawful lease f \<longleftrightarrow> (\<forall>r. \<not> terminal r \<longrightarrow> ir_attempt r \<le> rq_max_attempts (ir_request r) \<longrightarrow>
     record_evolves r (snd (f r)) \<and> ir_attempt (snd (f r)) \<le> rq_max_attempts (ir_request r)
     \<and> (\<forall>l. ir_status (snd (f r)) = InClaimed l \<longrightarrow>
          ir_status r = InClaimed l \<or> le_worker l = le_worker lease \<and> le_token l = le_token lease))"

lemma with_lease_cases:
  assumes "with_lease clock i lease f s = (res, t)"
  obtains (missing) "hm_get (im_records s) i = None" "res = Inl (OutboxNotFound i)" "t = s"
  | (fenced) r where "hm_get (im_records s) i = Some r" "\<not> lease_is_current clock (ir_status r) lease"
      "res = Inl (OutboxLeaseMismatch i)" "t = s"
  | (applied) r r' where "hm_get (im_records s) i = Some r" "lease_is_current clock (ir_status r) lease"
      "f r = (res, r')" "t = s\<lparr>im_records := hm_insert i r' (im_records s)\<rparr>"
  using assms by (auto simp: with_lease_def split: option.splits if_splits prod.splits)

lemma current_holds:
  assumes "hm_get (im_records s) i = Some r" and "lease_is_current clock (ir_status r) lease"
  shows "holds_lease s i (le_worker lease) (le_token lease)" and "\<not> terminal r"
  using assms by (auto simp: lease_is_current_def holds_lease_def terminal_def split: in_memory_status.splits)

lemma with_lease_replaces:
  assumes "lawful lease f" and "outbox_ok s" and "with_lease clock i lease f s = (res, t)"
  shows "t = s \<or> (\<exists>r'. replaces i r' s t)"
  using assms(3)
proof (cases rule: with_lease_cases)
  case (applied r r')
  have nt: "\<not> terminal r" and h: "holds_lease s i (le_worker lease) (le_token lease)"
    using current_holds[OF applied(1,2)] by blast+
  have at: "ir_attempt r \<le> rq_max_attempts (ir_request r)" using assms(2) applied(1) by (auto simp: outbox_ok_def)
  have L: "record_evolves r r'" "ir_attempt r' \<le> rq_max_attempts (ir_request r)"
    "\<And>l. ir_status r' = InClaimed l \<Longrightarrow> ir_status r = InClaimed l \<or> le_worker l = le_worker lease \<and> le_token l = le_token lease"
    using assms(1) nt at applied(3) by (auto simp: lawful_def)
  have "holds_lease s i (le_worker l) (le_token l)" if "ir_status r' = InClaimed l" for l
    using L(3)[OF that]
  proof
    assume "ir_status r = InClaimed l"
    then show ?thesis by (simp add: holds_lease_def applied(1))
  qed (use h in simp)
  then have "replaces i r' s t" using L applied
    by (auto simp: replaces_def record_evolves_def same_request_def)
  then show ?thesis by blast
qed simp_all

lemma lawful_ops:
  "lawful lease (\<lambda>r. let renewed = lease\<lparr>le_until := until\<rparr> in (Inr renewed, r\<lparr>ir_status := InClaimed renewed\<rparr>))"
  "lawful lease (\<lambda>r. if exhausted r then (Inr StartExhausted, r)
     else (Inr (Started (ir_attempt r + 1)), r\<lparr>ir_attempt := ir_attempt r + 1\<rparr>))"
  "lawful lease (\<lambda>r. (Inr (), r\<lparr>ir_status := InCompleted\<rparr>))"
  "lawful lease (\<lambda>r. (Inr (), r\<lparr>ir_request := (ir_request r)\<lparr>rq_available_at := rt_available_at retry\<rparr>,
       ir_last_failure := Some (rt_failure retry), ir_status := InPending\<rparr>))"
  "lawful lease (\<lambda>r. (Inr (), r\<lparr>ir_last_failure := Some kind, ir_status := InFailed kind\<rparr>))"
  by (auto simp: lawful_def record_evolves_def same_request_def exhausted_def Let_def)

subsection \<open>Enqueue\<close>

lemma enqueue_new_record:
  assumes "outbox_ok s" and "hm_get (im_by_key s) (rq_key rq) = None"
  shows "hm_get (im_records s) (im_next_id s) = None"
  using outbox_okD(2)[OF assms(1), of "im_next_id s"] by blast

lemma ob_enqueue_total:
  assumes "outbox_ok s"
  shows "\<exists>r t. ob_enqueue rq s = Some (r, t)"
proof (cases "hm_get (im_by_key s) (rq_key rq)")
  case (Some i)
  then obtain r where "hm_get (im_records s) i = Some r" using outbox_okD(3)[OF assms] by blast
  with Some show ?thesis by (simp add: ob_enqueue_def)
qed (simp add: ob_enqueue_def Let_def)

lemma ob_enqueue_cases:
  assumes "ob_enqueue rq s = Some (res, t)"
  obtains (known) i r where "hm_get (im_by_key s) (rq_key rq) = Some i" "hm_get (im_records s) i = Some r"
      "res = (if same_request (ir_request r) rq then Inr (Existing i) else Inl (OutboxConflict i))" "t = s"
  | (fresh) "hm_get (im_by_key s) (rq_key rq) = None" "res = Inr (Inserted (im_next_id s))"
      "t = s\<lparr>im_next_id := im_next_id s + 1, im_by_key := hm_insert (rq_key rq) (im_next_id s) (im_by_key s),
         im_records := hm_insert (im_next_id s) \<lparr>ir_request = rq, ir_attempt = 0, ir_claim_count = 0,
           ir_status = InPending, ir_last_failure = None\<rparr> (im_records s)\<rparr>"
proof (cases "hm_get (im_by_key s) (rq_key rq)")
  case None
  then show ?thesis using fresh assms by (simp add: ob_enqueue_def Let_def)
next
  case (Some i)
  then obtain r where "hm_get (im_records s) i = Some r"
    using assms by (cases "hm_get (im_records s) i") (simp_all add: ob_enqueue_def)
  then show ?thesis using known[OF Some] Some assms
    by (cases "same_request (ir_request r) rq") (simp_all add: ob_enqueue_def)
qed

lemma ob_enqueue_ok:
  assumes "outbox_ok s" and "ob_enqueue rq s = Some (res, t)" and "0 < rq_max_attempts rq"
  shows "outbox_ok t \<and> evolves s t"
  using assms(2)
proof (cases rule: ob_enqueue_cases)
  case fresh
  let ?i = "im_next_id s"
  have none: "hm_get (im_records s) ?i = None" using enqueue_new_record[OF assms(1) fresh(1)] .
  have h: "holds_lease t j w n \<longleftrightarrow> holds_lease s j w n" for j w n
    using none by (auto simp: fresh(3) holds_lease_def)
  have key: "hm_get (im_by_key t) k = Some j \<longleftrightarrow> (\<exists>q. hm_get (im_records t) j = Some q \<and> rq_key (ir_request q) = k)" for k j
  proof -
    note old = outbox_okD(3)[OF assms(1)]
    show ?thesis
    proof (cases "j = ?i")
      case True
      then show ?thesis using old[of k ?i] none by (auto simp: fresh(3))
    next
      case False
      then show ?thesis using old[of k j] old[of "rq_key rq" j] fresh(1) by (auto simp: fresh(3))
    qed
  qed
  have has: "j < im_next_id t" if "hm_has (im_records t) j" for j
  proof (cases "j = ?i")
    case False
    then have "hm_has (im_records s) j" using that by (simp add: fresh(3))
    then have "j < ?i" by (rule outbox_okD(2)[OF assms(1)])
    then show ?thesis by (simp add: fresh(3))
  qed (simp add: fresh(3))
  have att: "ir_attempt q \<le> rq_max_attempts (ir_request q) \<and> 0 < rq_max_attempts (ir_request q)"
    if "hm_get (im_records t) j = Some q" for j q
    using that assms(3) outbox_okD(6,7)[OF assms(1), of j q] by (auto simp: fresh(3) split: if_splits)
  have tok: "im_next_token t = im_next_token s" by (simp add: fresh(3))
  have "hm_ok (im_records t)" using outbox_okD(1)[OF assms(1)] by (simp add: fresh(3))
  then have "outbox_ok t" using key has att outbox_okD(4,5)[OF assms(1)] unfolding outbox_ok_def h tok by blast
  moreover have "evolves s t" unfolding evolves_def h using none fresh(1) by (auto simp: fresh(3))
  ultimately show ?thesis by blast
qed (use assms(1) in simp)

subsection \<open>Claiming\<close>

lemma expire_record_evolves: "record_evolves r (expire_record now r)"
  by (auto simp: expire_record_def record_evolves_def same_request_def terminal_def split: in_memory_status.split)

lemma expire_record_fields [simp]:
  "ir_request (expire_record now r) = ir_request r" "ir_attempt (expire_record now r) = ir_attempt r"
  "exhausted (expire_record now r) = exhausted r" "ir_claim_count (expire_record now r) = ir_claim_count r"
  by (simp_all add: expire_record_def exhausted_def split: in_memory_status.split)

lemma expired_ok:
  assumes "outbox_ok s"
  shows "outbox_ok (s\<lparr>im_records := hm_map_values (\<lambda>_. expire_record now) (im_records s)\<rparr>)" (is "outbox_ok ?t")
    and "evolves s (s\<lparr>im_records := hm_map_values (\<lambda>_. expire_record now) (im_records s)\<rparr>)"
proof -
  have h: "holds_lease ?t i w n \<Longrightarrow> holds_lease s i w n" for i w n
    by (auto simp: holds_lease_def expire_record_def split: option.splits in_memory_status.splits if_splits)
  have "hm_get (im_by_key ?t) k = Some j \<longleftrightarrow> (\<exists>q. hm_get (im_records ?t) j = Some q \<and> rq_key (ir_request q) = k)" for k j
    using outbox_okD(3)[OF assms, of k j] by (simp add: option.map_sel) (metis expire_record_fields(1))
  moreover have "ir_attempt q \<le> rq_max_attempts (ir_request q) \<and> 0 < rq_max_attempts (ir_request q)"
    if "hm_get (im_records ?t) j = Some q" for j q
    using that outbox_okD(6,7)[OF assms, of j] by auto
  moreover have "j < im_next_id ?t" if "hm_has (im_records ?t) j" for j
    using that outbox_okD(2)[OF assms, of j] by simp
  moreover have "hm_ok (im_records ?t)" using outbox_okD(1)[OF assms] by simp
  moreover have "n \<le> im_next_token ?t" if "holds_lease ?t i w n" for i w n
    using outbox_okD(4)[OF assms h[OF that]] by simp
  moreover have "i = j \<and> v = w" if "holds_lease ?t i v n" "holds_lease ?t j w n" for i j v w n
    using outbox_okD(5)[OF assms h[OF that(1)] h[OF that(2)]] .
  ultimately show "outbox_ok ?t" unfolding outbox_ok_def by blast
  show "evolves s ?t" using h expire_record_evolves unfolding evolves_def by auto
qed

definition exhaust_record :: "in_memory_record \<Rightarrow> in_memory_record" where
  "exhaust_record r = r\<lparr>ir_status := InFailed FailExhausted\<rparr>"

definition lease_record :: "outbox_lease \<Rightarrow> in_memory_record \<Rightarrow> in_memory_record" where
  "lease_record lease r = r\<lparr>ir_claim_count := (ir_claim_count r + 1) mod 2 ^ 32, ir_status := InClaimed lease\<rparr>"

definition pending_at :: "in_memory_state \<Rightarrow> outbox_id \<Rightarrow> bool" where
  "pending_at s i = (case hm_get (im_records s) i of Some r \<Rightarrow> ir_status r = InPending | None \<Rightarrow> False)"

definition exhausted_at :: "in_memory_state \<Rightarrow> outbox_id \<Rightarrow> bool" where
  "exhausted_at s i = (case hm_get (im_records s) i of Some r \<Rightarrow> exhausted r | None \<Rightarrow> False)"

text \<open>One record visited by the claim loop.\<close>

definition visit :: "in_memory_record \<Rightarrow> outbox_id \<Rightarrow> in_memory_state \<Rightarrow> in_memory_state" where
  "visit r' i s = s\<lparr>im_next_token := im_next_token s + 1, im_records := hm_insert i r' (im_records s)\<rparr>"

definition next_lease :: "outbox_worker_id \<Rightarrow> system_time \<Rightarrow> duration \<Rightarrow> in_memory_state \<Rightarrow> outbox_lease" where
  "next_lease w now lease_for s = \<lparr>le_worker = w, le_token = im_next_token s + 1, le_until = time_after now lease_for\<rparr>"

lemma claim_loop_Cons:
  assumes "hm_get (im_records s) i = Some r"
  shows "claim_loop w now d limit (i # ids) acc s =
    (if length acc = limit then Some (acc, s)
     else if exhausted r then claim_loop w now d limit ids acc (visit (exhaust_record r) i s)
     else claim_loop w now d limit ids
       (acc @ [claim_of i (lease_record (next_lease w now d s) r) (next_lease w now d s)])
       (visit (lease_record (next_lease w now d s) r) i s))"
  using assms by (simp add: Let_def visit_def exhaust_record_def lease_record_def next_lease_def)

lemma visit_replaces:
  assumes "outbox_ok s" and "hm_get (im_records s) i = Some r" and "ir_status r = InPending"
  shows "replaces i (exhaust_record r) s (visit (exhaust_record r) i s)"
    and "replaces i (lease_record (next_lease w now d s) r) s (visit (lease_record (next_lease w now d s) r) i s)"
  using assms outbox_okD(6)[OF assms(1,2)]
  by (auto simp: replaces_def visit_def exhaust_record_def lease_record_def next_lease_def record_evolves_def
      same_request_def terminal_def)

lemma visit_get: "hm_get (im_records (visit r' i s)) j = (if j = i then Some r' else hm_get (im_records s) j)"
  by (simp add: visit_def)

lemma pending_at_visit: "j \<noteq> i \<Longrightarrow> pending_at (visit r' i s) j = pending_at s j"
  by (simp add: pending_at_def visit_get)

lemma claim_loop_ok:
  assumes "outbox_ok s" and "distinct ids" and "\<And>i. i \<in> set ids \<Longrightarrow> pending_at s i"
  shows "\<exists>cs t. claim_loop w now d limit ids acc s = Some (acc @ cs, t) \<and> outbox_ok t \<and> evolves s t"
  using assms
proof (induction ids arbitrary: acc s)
  case (Cons i ids)
  obtain r where r: "hm_get (im_records s) i = Some r" "ir_status r = InPending"
    using Cons.prems(3)[of i] by (auto simp: pending_at_def split: option.splits)
  have go: "\<exists>cs t. claim_loop w now d limit ids acc' (visit r' i s) = Some (acc' @ cs, t) \<and> outbox_ok t \<and> evolves s t"
    if rep: "replaces i r' s (visit r' i s)" for acc' r'
  proof -
    have "pending_at (visit r' i s) j" if "j \<in> set ids" for j
      using that Cons.prems(2) Cons.prems(3)[of j] pending_at_visit[of j i] by auto
    from Cons.IH[OF replaces_ok[OF rep Cons.prems(1)] _ this, of acc'] Cons.prems(2)
    show ?thesis using evolves_trans[OF replaces_evolves[OF rep]] by fastforce
  qed
  show ?case
  proof (cases "length acc = limit")
    case True
    then show ?thesis using Cons.prems(1) by simp
  next
    case False
    then show ?thesis
      using go[OF visit_replaces(1)[OF Cons.prems(1) r], of acc]
        go[OF visit_replaces(2)[OF Cons.prems(1) r, of w now d],
          of "acc @ [claim_of i (lease_record (next_lease w now d s) r) (next_lease w now d s)]"]
      by (simp only: claim_loop_Cons[OF r(1)] if_False split: if_split) auto
  qed
qed auto

text \<open>What the loop returns and leaves behind, told without its counter and accumulator.\<close>

definition claimed_as :: "in_memory_state \<Rightarrow> in_memory_state \<Rightarrow> outbox_worker_id \<Rightarrow> system_time \<Rightarrow> duration
    \<Rightarrow> claimed_outbox_request \<Rightarrow> bool" where
  "claimed_as s t w now d c = (case hm_get (im_records s) (cl_id c) of None \<Rightarrow> False | Some r \<Rightarrow>
     hm_get (im_records t) (cl_id c) = Some (lease_record (cl_lease c) r)
     \<and> c = claim_of (cl_id c) (lease_record (cl_lease c) r) (cl_lease c)
     \<and> le_worker (cl_lease c) = w \<and> le_until (cl_lease c) = time_after now d
     \<and> im_next_token s < le_token (cl_lease c) \<and> le_token (cl_lease c) \<le> im_next_token t)"

definition passed_over :: "in_memory_state \<Rightarrow> in_memory_state \<Rightarrow> outbox_id list \<Rightarrow> outbox_id \<Rightarrow> bool" where
  "passed_over s t ids i \<longleftrightarrow> hm_get (im_records t) i = hm_get (im_records s) i
     \<or> i \<in> set ids \<and> exhausted_at s i
       \<and> hm_get (im_records t) i = map_option exhaust_record (hm_get (im_records s) i)"

lemma claim_of_id [simp]: "cl_id (claim_of i r l) = i" "cl_lease (claim_of i r l) = l"
  by (simp_all add: claim_of_def)

lemma claim_loop_spec:
  assumes "claim_loop w now d limit ids acc s = Some (out, t)" and "distinct ids"
    and "\<And>i. i \<in> set ids \<Longrightarrow> pending_at s i" and "length acc \<le> limit"
  shows "\<exists>cs. out = acc @ cs
    \<and> map cl_id cs = take (limit - length acc) (filter (\<lambda>i. \<not> exhausted_at s i) ids)
    \<and> (\<forall>c\<in>set cs. claimed_as s t w now d c) \<and> sorted_wrt (\<lambda>a b. le_token (cl_lease a) < le_token (cl_lease b)) cs
    \<and> im_next_token s \<le> im_next_token t
    \<and> (\<forall>i. i \<notin> cl_id ` set cs \<longrightarrow> passed_over s t ids i)"
  using assms
proof (induction ids arbitrary: acc s)
  case Nil
  then show ?case by (auto simp: passed_over_def)
next
  case (Cons i ids)
  obtain r where r: "hm_get (im_records s) i = Some r" "ir_status r = InPending"
    using Cons.prems(3)[of i] by (auto simp: pending_at_def split: option.splits)
  note step = Cons.prems(1)[unfolded claim_loop_Cons[OF r(1)]]
  have i: "i \<notin> set ids" "distinct ids" using Cons.prems(2) by auto
  have pend: "pending_at (visit r' i s) j" if "j \<in> set ids" for j r'
    using that i(1) Cons.prems(3)[of j] pending_at_visit[of j i] by auto
  have ex: "filter (\<lambda>j. \<not> exhausted_at (visit r' i s) j) ids = filter (\<lambda>j. \<not> exhausted_at s j) ids" for r'
    using i(1) by (auto simp: exhausted_at_def visit_get intro!: filter_cong)
  have tok: "im_next_token (visit r' i s) = im_next_token s + 1" for r' by (simp add: visit_def)
  have keep: "claimed_as s t w now d c" if "claimed_as (visit r' i s) t w now d c" "cl_id c \<in> set ids" for r' c
  proof -
    have "cl_id c \<noteq> i" using that(2) i(1) by blast
    then show ?thesis using that(1) by (auto simp: claimed_as_def visit_get tok split: option.splits)
  qed
  have over: "passed_over s t (i # ids) j" if "passed_over (visit r' i s) t ids j" "j \<noteq> i" for r' j
    using that by (auto simp: passed_over_def exhausted_at_def visit_get)
  show ?case
  proof (cases "length acc = limit")
    case True
    with step show ?thesis by (auto simp: passed_over_def)
  next
    case False
    with Cons.prems(4) have room: "length acc < limit" by simp
    show ?thesis
    proof (cases "exhausted r")
      case True
      let ?s = "visit (exhaust_record r) i s"
      obtain cs where cs: "out = acc @ cs"
        "map cl_id cs = take (limit - length acc) (filter (\<lambda>j. \<not> exhausted_at ?s j) ids)"
        "\<forall>c\<in>set cs. claimed_as ?s t w now d c" "sorted_wrt (\<lambda>a b. le_token (cl_lease a) < le_token (cl_lease b)) cs"
        "im_next_token ?s \<le> im_next_token t" "\<forall>j. j \<notin> cl_id ` set cs \<longrightarrow> passed_over ?s t ids j"
        using Cons.IH[of acc ?s, OF _ i(2) pend Cons.prems(4)] step True False by auto
      have sub: "cl_id ` set cs \<subseteq> set ids"
        using cs(2) by (metis filter_is_subset set_map set_take_subset subset_trans)
      then have "passed_over ?s t ids i" using cs(6) i(1) by blast
      then have "hm_get (im_records t) i = Some (exhaust_record r)"
        using i(1) by (auto simp: passed_over_def visit_get)
      then have "passed_over s t (i # ids) i" using r(1) True by (auto simp: passed_over_def exhausted_at_def)
      then have "\<forall>j. j \<notin> cl_id ` set cs \<longrightarrow> passed_over s t (i # ids) j" using over cs(6) by blast
      moreover have "\<forall>c\<in>set cs. claimed_as s t w now d c" using cs(3) keep sub by blast
      moreover have "exhausted_at s i" using r(1) True by (simp add: exhausted_at_def)
      ultimately show ?thesis using cs(1,2,4,5) by (intro exI[of _ cs]) (simp add: ex tok)
    next
      case notex: False
      let ?l = "next_lease w now d s" let ?c = "claim_of i (lease_record ?l r) ?l"
      let ?s = "visit (lease_record ?l r) i s"
      obtain cs where cs: "out = (acc @ [?c]) @ cs"
        "map cl_id cs = take (limit - length (acc @ [?c])) (filter (\<lambda>j. \<not> exhausted_at ?s j) ids)"
        "\<forall>c\<in>set cs. claimed_as ?s t w now d c" "sorted_wrt (\<lambda>a b. le_token (cl_lease a) < le_token (cl_lease b)) cs"
        "im_next_token ?s \<le> im_next_token t" "\<forall>j. j \<notin> cl_id ` set cs \<longrightarrow> passed_over ?s t ids j"
        using Cons.IH[of "acc @ [?c]" ?s, OF _ i(2) pend] step notex False room by auto
      have sub: "cl_id ` set cs \<subseteq> set ids"
        using cs(2) by (metis filter_is_subset set_map set_take_subset subset_trans)
      then have "passed_over ?s t ids i" using cs(6) i(1) by blast
      then have at: "hm_get (im_records t) i = Some (lease_record ?l r)"
        using i(1) by (auto simp: passed_over_def visit_get)
      have c: "claimed_as s t w now d ?c" using r(1) at cs(5)
        by (simp add: claimed_as_def next_lease_def tok)
      have later: "le_token (cl_lease ?c) < le_token (cl_lease a)" if "a \<in> set cs" for a
        using cs(3) that by (auto simp: claimed_as_def tok next_lease_def split: option.splits)
      have "\<forall>j. j \<notin> cl_id ` set (?c # cs) \<longrightarrow> passed_over s t (i # ids) j" using over cs(6) by auto
      moreover have "\<forall>a\<in>set cs. claimed_as s t w now d a" using cs(3) keep sub by blast
      then have "\<forall>a\<in>set (?c # cs). claimed_as s t w now d a" using c by simp
      moreover have "map cl_id (?c # cs) = take (limit - length acc) (filter (\<lambda>j. \<not> exhausted_at s j) (i # ids))"
      proof -
        have "\<not> exhausted_at s i" using r(1) notex by (simp add: exhausted_at_def)
        moreover have "limit - length acc = Suc (limit - length (acc @ [?c]))" using room by simp
        ultimately show ?thesis using cs(2)[unfolded ex] by simp
      qed
      moreover have "sorted_wrt (\<lambda>a b. le_token (cl_lease a) < le_token (cl_lease b)) (?c # cs)"
        using cs(4) later by simp
      ultimately show ?thesis using cs(1,5) by (intro exI[of _ "?c # cs"]) (simp add: tok)
    qed
  qed
qed

end
