(* ===== verification/Outbox_Delivery.thy ===== *)
theory Outbox_Delivery
  imports Outbox_Worker Outbox_Invariant
begin

text \<open>
  The worker over a store: rules for actions, the contract of the \<open>OutboxStore\<close> trait as a locale
  with what every execution then guarantees, and its interpretation on the in-memory store.
\<close>

subsection \<open>Rules for actions\<close>

text \<open>
  \<open>ensures P m Q E\<close>: from a state satisfying \<open>P\<close>, the action either returns \<open>a\<close> in a state satisfying
  \<open>Q a\<close> or stops with an error in a state satisfying \<open>E\<close>.
\<close>

definition ensures :: "('s execution \<Rightarrow> bool) \<Rightarrow> ('s, 'e, 'a) action \<Rightarrow> ('a \<Rightarrow> 's execution \<Rightarrow> bool)
    \<Rightarrow> ('s execution \<Rightarrow> bool) \<Rightarrow> bool" where
  "ensures P m Q E \<longleftrightarrow> (\<forall>x. P x \<longrightarrow> (case m x of (Inl _, y) \<Rightarrow> E y | (Inr a, y) \<Rightarrow> Q a y))"

named_theorems action_rules "one rule per action former"

lemma ensures_and_then [action_rules]:
  assumes "ensures P m R E" and "\<And>a. ensures (R a) (k a) Q E"
  shows "ensures P (and_then m k) Q E"
  unfolding ensures_def
proof (intro allI impI)
  fix x assume "P x"
  with assms(1) have m: "case m x of (Inl _, y) \<Rightarrow> E y | (Inr a, y) \<Rightarrow> R a y" by (simp add: ensures_def)
  show "case and_then m k x of (Inl _, y) \<Rightarrow> E y | (Inr a, y) \<Rightarrow> Q a y"
  proof (cases "m x")
    case (Pair r y)
    show ?thesis
    proof (cases r)
      case (Inl e)
      with Pair m show ?thesis by (simp add: and_then_def)
    next
      case (Inr a)
      with Pair m have "R a y" by simp
      with assms(2)[of a] Pair Inr show ?thesis by (simp add: and_then_def ensures_def)
    qed
  qed
qed

lemma ensures_pure [action_rules]: "ensures (Q a) (pure_action a) Q E"
  by (simp add: ensures_def pure_action_def)

lemma ensures_emit: "ensures (\<lambda>x. Q () (x\<lparr>ex_log := ex_log x @ [ev]\<rparr>)) (emit ev) Q E"
  by (simp add: ensures_def emit_def)

lemma ensures_weaken:
  assumes "ensures P m Q E" and "\<And>x. P' x \<Longrightarrow> P x" and "\<And>a x. Q a x \<Longrightarrow> Q' a x" and "\<And>x. E x \<Longrightarrow> E' x"
  shows "ensures P' m Q' E'"
  unfolding ensures_def
proof (intro allI impI)
  fix x assume "P' x"
  then have "case m x of (Inl _, y) \<Rightarrow> E y | (Inr a, y) \<Rightarrow> Q a y" using assms(1,2) by (simp add: ensures_def)
  then show "case m x of (Inl _, y) \<Rightarrow> E' y | (Inr a, y) \<Rightarrow> Q' a y"
    using assms(3,4) by (auto split: prod.splits sum.splits)
qed

lemma ensures_run:
  assumes "ensures P m Q E" and "P x" and "m x = (res, y)"
  shows "case res of Inl _ \<Rightarrow> E y | Inr a \<Rightarrow> Q a y"
  using assms by (auto simp: ensures_def split: sum.splits)

text \<open>The heartbeat keeps whatever each renewal keeps.\<close>

lemma ensures_heartbeat:
  assumes "\<And>now x lease s. P x \<Longrightarrow> st_renew st now i (ex_lease x) (time_after now d) (ex_store x) = (Inr lease, s)
      \<Longrightarrow> P (x\<lparr>ex_store := s, ex_lease := lease\<rparr>)"
    and "\<And>now x e s. P x \<Longrightarrow> st_renew st now i (ex_lease x) (time_after now d) (ex_store x) = (Inl e, s)
      \<Longrightarrow> E (x\<lparr>ex_store := s\<rparr>)"
  shows "ensures P (heartbeat st i d ticks) (\<lambda>_. P) E"
proof (induction ticks)
  case (Cons now ticks)
  show ?case unfolding ensures_def
  proof (intro allI impI)
    fix x assume P: "P x"
    obtain r s where r: "st_renew st now i (ex_lease x) (time_after now d) (ex_store x) = (r, s)" by fastforce
    show "case heartbeat st i d (now # ticks) x of (Inl _, y) \<Rightarrow> E y | (Inr _, y) \<Rightarrow> P y"
    proof (cases r)
      case (Inl e)
      then show ?thesis using assms(2)[OF P] r by simp
    next
      case (Inr lease)
      then have "P (x\<lparr>ex_store := s, ex_lease := lease\<rparr>)" using assms(1)[OF P] r by simp
      with Cons.IH show ?thesis by (simp add: ensures_def r Inr)
    qed
  qed
qed (simp add: ensures_def pure_action_def)

text \<open>A driven store call presents the lease the heartbeat held when the call was made.\<close>

lemma ensures_drive_store:
  assumes "ensures P (heartbeat st i d ticks) (\<lambda>_. R) E"
    and "\<And>x y a s. P x \<Longrightarrow> R y \<Longrightarrow> call (ex_lease x) (ex_store y) = (Inr a, s) \<Longrightarrow> Q a (y\<lparr>ex_store := s\<rparr>)"
    and "\<And>x y e s. P x \<Longrightarrow> R y \<Longrightarrow> call (ex_lease x) (ex_store y) = (Inl e, s) \<Longrightarrow> E (y\<lparr>ex_store := s\<rparr>)"
  shows "ensures P (drive_store st i d ticks call) Q E"
  unfolding ensures_def
proof (intro allI impI)
  fix x assume P: "P x"
  have "ensures R (\<lambda>y. case call (ex_lease x) (ex_store y) of
        (Inl e, s) \<Rightarrow> (Inl (StoreError e), y\<lparr>ex_store := s\<rparr>)
      | (Inr a, s) \<Rightarrow> (Inr a, y\<lparr>ex_store := s\<rparr>)) Q E"
    unfolding ensures_def using assms(2,3)[OF P] by (auto split: prod.splits sum.splits)
  from ensures_and_then[OF assms(1) this] P
  show "case drive_store st i d ticks call x of (Inl _, y) \<Rightarrow> E y | (Inr a, y) \<Rightarrow> Q a y"
    by (simp add: ensures_def drive_store_def)
qed

lemma ensures_lease:
  assumes "\<And>l. ensures (\<lambda>x. P x \<and> ex_lease x = l) (m l) Q E"
  shows "ensures P (\<lambda>x. m (ex_lease x) x) Q E"
  unfolding ensures_def
proof (intro allI impI)
  fix x assume "P x"
  then show "case m (ex_lease x) x of (Inl _, y) \<Rightarrow> E y | (Inr a, y) \<Rightarrow> Q a y"
    using assms[of "ex_lease x"] by (simp add: ensures_def)
qed

subsection \<open>The contract of a store\<close>

definition is_executed :: "worker_event \<Rightarrow> bool" where
  "is_executed ev = (case ev of Executed _ \<Rightarrow> True | _ \<Rightarrow> False)"

definition executions :: "'s execution \<Rightarrow> nat" where
  "executions x = length (filter is_executed (ex_log x))"

definition same_fence :: "outbox_lease \<Rightarrow> outbox_lease \<Rightarrow> bool" where
  "same_fence l l' \<longleftrightarrow> le_worker l = le_worker l' \<and> le_token l = le_token l'"

lemma executions_simps [simp]:
  "executions (x\<lparr>ex_store := s\<rparr>) = executions x" "executions (x\<lparr>ex_lease := l\<rparr>) = executions x"
  "executions (x\<lparr>ex_log := ex_log x @ [ev]\<rparr>) = executions x + (if is_executed ev then 1 else 0)"
  by (simp_all add: executions_def)

lemma is_executed_simps [simp]:
  "is_executed (Executed rq)" "\<not> is_executed PermitStarted" "\<not> is_executed (PermitCompleted c)"
  by (simp_all add: is_executed_def)

text \<open>
  What a store promises of a mutation of record \<open>i\<close>: other records stay, the attempts counted change
  only where an attempt is begun, and a lease that does not hold the record gets an error and changes
  nothing, and does not hold it afterwards.  \<open>n\<close> is the number of attempts begun.
\<close>

locale fenced_store =
  fixes st :: "('s, 'e) outbox_store"
    and rec :: "'s \<Rightarrow> outbox_id \<Rightarrow> 'r option"
    and attempts :: "'r option \<Rightarrow> nat"
    and holds :: "'s \<Rightarrow> outbox_id \<Rightarrow> outbox_worker_id \<Rightarrow> nat \<Rightarrow> bool"
  assumes renew_other: "st_renew st now i l u s = (rl, t) \<Longrightarrow> j \<noteq> i \<Longrightarrow> rec t j = rec s j"
    and begin_other: "st_begin st now i l s = (rb, t) \<Longrightarrow> j \<noteq> i \<Longrightarrow> rec t j = rec s j"
    and complete_other: "st_complete st now i l s = (rc, t) \<Longrightarrow> j \<noteq> i \<Longrightarrow> rec t j = rec s j"
    and reschedule_other: "st_reschedule st now i l rt s = (rr, t) \<Longrightarrow> j \<noteq> i \<Longrightarrow> rec t j = rec s j"
    and fail_other: "st_fail st now i l k s = (rf, t) \<Longrightarrow> j \<noteq> i \<Longrightarrow> rec t j = rec s j"
    and renew_attempts: "st_renew st now i l u s = (rl, t) \<Longrightarrow> attempts (rec t i) = attempts (rec s i)"
    and begin_attempts: "st_begin st now i l s = (rb, t) \<Longrightarrow> attempts (rec t i)
          = attempts (rec s i) + (case rb of Inr (Started _) \<Rightarrow> 1 | _ \<Rightarrow> 0)"
    and complete_attempts: "st_complete st now i l s = (rc, t) \<Longrightarrow> attempts (rec t i) = attempts (rec s i)"
    and reschedule_attempts: "st_reschedule st now i l rt s = (rr, t) \<Longrightarrow> attempts (rec t i) = attempts (rec s i)"
    and fail_attempts: "st_fail st now i l k s = (rf, t) \<Longrightarrow> attempts (rec t i) = attempts (rec s i)"
    and renew_fence: "st_renew st now i l u s = (Inr l', t) \<Longrightarrow> same_fence l' l"
    and fenced: "\<not> holds s i (le_worker l) (le_token l) \<Longrightarrow>
          (\<exists>e. st_renew st now i l u s = (Inl e, s)) \<and> (\<exists>e. st_begin st now i l s = (Inl e, s))
          \<and> (\<exists>e. st_reschedule st now i l rt s = (Inl e, s)) \<and> (\<exists>e. st_fail st now i l k s = (Inl e, s))
          \<and> (\<exists>e. fst (st_complete st now i l s) = Inl e)"
begin

text \<open>An assertion the heartbeat, the permit and the final transition of record \<open>i\<close> cannot break.\<close>

definition stable :: "outbox_id \<Rightarrow> ('s execution \<Rightarrow> bool) \<Rightarrow> bool" where
  "stable i P \<longleftrightarrow> (\<forall>x s l. P x \<longrightarrow> (\<forall>j. j \<noteq> i \<longrightarrow> rec s j = rec (ex_store x) j)
      \<longrightarrow> attempts (rec s i) = attempts (rec (ex_store x) i) \<longrightarrow> P (x\<lparr>ex_store := s, ex_lease := l\<rparr>))
    \<and> (\<forall>x ev. P x \<longrightarrow> \<not> is_executed ev \<longrightarrow> P (x\<lparr>ex_log := ex_log x @ [ev]\<rparr>))"

lemma stable_store:
  assumes "stable i P" and "P x" and "\<forall>j. j \<noteq> i \<longrightarrow> rec s j = rec (ex_store x) j"
    and "attempts (rec s i) = attempts (rec (ex_store x) i)"
  shows "P (x\<lparr>ex_store := s\<rparr>)" and "P (x\<lparr>ex_store := s, ex_lease := l\<rparr>)"
proof -
  have up: "P (x\<lparr>ex_store := s, ex_lease := l\<rparr>)" for l
    using assms unfolding stable_def by blast
  show "P (x\<lparr>ex_store := s, ex_lease := l\<rparr>)" by (rule up)
  show "P (x\<lparr>ex_store := s\<rparr>)" using up[of "ex_lease x"] by simp
qed

lemma stable_heartbeat: "stable i P \<Longrightarrow> ensures P (heartbeat st i d ticks) (\<lambda>_. P) P"
  by (rule ensures_heartbeat) (blast intro: stable_store renew_other renew_attempts)+

lemma stable_drive:
  assumes "stable i P"
    and "\<And>l s res t. call l s = (res, t) \<Longrightarrow> (\<forall>j. j \<noteq> i \<longrightarrow> rec t j = rec s j) \<and> attempts (rec t i) = attempts (rec s i)"
  shows "ensures P (drive_store st i d ticks call) (\<lambda>_. P) P"
  by (rule ensures_drive_store[OF stable_heartbeat[OF assms(1)]]) (use assms in \<open>blast intro: stable_store\<close>)+

lemma stable_emit: "stable i P \<Longrightarrow> \<not> is_executed ev \<Longrightarrow> ensures P (emit ev) (\<lambda>_. P) P"
  by (auto simp: ensures_def emit_def stable_def)

lemma stable_retry: "stable i P \<Longrightarrow> ensures P (retry_or_fail st ws env i a m k d) (\<lambda>_. P) P"
  unfolding retry_or_fail_def Let_def
  by (cases "m \<le> a"; simp only: if_True if_False; rule stable_drive, assumption)
     (blast intro: fail_other fail_attempts reschedule_other reschedule_attempts)+

lemma stable_finish: "stable i P \<Longrightarrow> ensures P (finish_failed st ws env i k) (\<lambda>_. P) P"
  unfolding finish_failed_def by (rule stable_drive, assumption) (blast intro: fail_other fail_attempts)

lemma stable_permit: "stable i P \<Longrightarrow> ensures P (complete_permit st ws env i c) (\<lambda>_. P) P"
  unfolding complete_permit_def by (intro ensures_and_then[OF stable_heartbeat] stable_emit) simp_all

lemma stable_complete: "stable i P \<Longrightarrow> ensures P (drive_store st i d ticks (\<lambda>lease. st_complete st now i lease)) (\<lambda>_. P) P"
  by (rule stable_drive, assumption) (blast intro: complete_other complete_attempts)

lemma stable_settle: "stable i P \<Longrightarrow> ensures P (settle_execution st ws env i a m res) (\<lambda>_. P) P"
  unfolding settle_execution_def
  by (auto split: option.split outbox_execution_error.split
      intro!: ensures_and_then[OF stable_permit] stable_retry stable_finish stable_complete)

text \<open>Other records are as before, and every attempt begun was one run of the executor.\<close>

definition accounted :: "'s \<Rightarrow> outbox_id \<Rightarrow> nat \<Rightarrow> 's execution \<Rightarrow> bool" where
  "accounted s i n x \<longleftrightarrow> (\<forall>j. j \<noteq> i \<longrightarrow> rec (ex_store x) j = rec s j)
     \<and> attempts (rec (ex_store x) i) = attempts (rec s i) + executions x + n"

lemma stable_accounted: "stable i (accounted s i n)"
  unfolding stable_def accounted_def by simp

lemma accounted_granted: "ensures (accounted s (cl_id rq) 0) (run_granted st ws env rq) (\<lambda>_. accounted s (cl_id rq) 0) (\<lambda>x. accounted s (cl_id rq) 0 x)"
proof -
  let ?i = "cl_id rq" and ?P = "accounted s (cl_id rq) 0" and ?P1 = "accounted s (cl_id rq) 1"
  note stb = stable_accounted[of ?i s 0]
  have "ensures ?P (drive_store st ?i (ws_lease_for ws) (en_ticks env AtBegin) (st_begin st (en_time env AtBegin) ?i))
      (\<lambda>start x. case start of StartExhausted \<Rightarrow> ?P x | Started n \<Rightarrow> ?P1 x) ?P"
  proof (rule ensures_drive_store[OF stable_heartbeat[OF stb]])
    fix x y a t assume "?P y" and call: "st_begin st (en_time env AtBegin) ?i (ex_lease x) (ex_store y) = (Inr a, t)"
    then show "case a of StartExhausted \<Rightarrow> ?P (y\<lparr>ex_store := t\<rparr>) | Started n \<Rightarrow> ?P1 (y\<lparr>ex_store := t\<rparr>)"
      using begin_other[OF call] begin_attempts[OF call]
      by (cases a) (simp_all add: accounted_def)
  next
    fix x y e t assume "?P y" and call: "st_begin st (en_time env AtBegin) ?i (ex_lease x) (ex_store y) = (Inl e, t)"
    then show "?P (y\<lparr>ex_store := t\<rparr>)"
      using begin_other[OF call] begin_attempts[OF call] by (simp add: accounted_def)
  qed
  moreover have "ensures (\<lambda>x. case a of StartExhausted \<Rightarrow> ?P x | Started n \<Rightarrow> ?P1 x)
      (case a of
         StartExhausted \<Rightarrow> and_then (complete_permit st ws env ?i NoRequest) (\<lambda>_. finish_failed st ws env ?i FailExhausted)
       | Started attempt \<Rightarrow> (\<lambda>x.
           let rq1 = rq\<lparr>cl_attempt := attempt, cl_lease := ex_lease x\<rparr>
           in and_then (emit PermitStarted) (\<lambda>_. and_then (emit (Executed rq1)) (\<lambda>_.
                and_then (heartbeat st ?i (ws_lease_for ws) (en_ticks env AtExecute)) (\<lambda>_.
                  settle_execution st ws env ?i attempt (cl_max_attempts rq) (en_execute env rq1)))) x))
      (\<lambda>_. ?P) ?P" for a
  proof (cases a)
    case StartExhausted
    then show ?thesis by (simp add: ensures_and_then[OF stable_permit[OF stb] stable_finish[OF stb]])
  next
    case (Started n)
    have ex: "ensures ?P1 (emit (Executed rq1)) (\<lambda>_. ?P) ?P" for rq1
      by (auto simp: ensures_def emit_def accounted_def)
    have go: "ensures ?P1 (and_then (emit PermitStarted) (\<lambda>_. and_then (emit (Executed rq1)) (\<lambda>_.
        and_then (heartbeat st ?i (ws_lease_for ws) (en_ticks env AtExecute)) (\<lambda>_.
          settle_execution st ws env ?i n (cl_max_attempts rq) (en_execute env rq1))))) (\<lambda>_. ?P) ?P" for rq1
    proof (rule ensures_and_then)
      show "ensures ?P1 (emit PermitStarted) (\<lambda>_. ?P1) ?P"
        by (auto simp: ensures_def emit_def accounted_def)
    qed (intro ensures_and_then[OF ex] ensures_and_then[OF stable_heartbeat[OF stb]] stable_settle[OF stb])
    show ?thesis unfolding Started outbox_attempt_start.case Let_def
      by (rule ensures_lease) (rule ensures_weaken[OF go], simp_all)
  qed
  ultimately show ?thesis unfolding run_granted_def by (rule ensures_and_then)
qed

lemma accounted_execution:
  assumes "execute_claimed st ws env rq s = (res, x)"
  shows "accounted s (cl_id rq) 0 x"
proof -
  let ?P = "accounted s (cl_id rq) 0"
  note stb = stable_accounted[of "cl_id rq" s 0]
  have "ensures ?P (and_then (heartbeat st (cl_id rq) (ws_lease_for ws) (en_ticks env AtAcquire))
      (\<lambda>_. case en_acquire env of
         None \<Rightarrow> run_granted st ws env rq
       | Some err \<Rightarrow>
           if err \<in> {AcqQueueFull, AcqClosed, AcqSuperseded} then
             retry_or_fail st ws env (cl_id rq) (cl_attempt rq) (cl_max_attempts rq) FailSchedulerUnavailable (ws_retry_delay ws)
           else finish_failed st ws env (cl_id rq) FailPermanent)) (\<lambda>_. ?P) ?P"
    by (intro ensures_and_then[OF stable_heartbeat[OF stb]])
       (auto split: option.split intro: accounted_granted stable_retry[OF stb] stable_finish[OF stb])
  from ensures_run[OF this _ assms[unfolded execute_claimed_def]]
  show ?thesis by (simp add: accounted_def executions_def split: sum.splits)
qed

text \<open>Without its lease an execution does nothing but report the store's refusal.\<close>

lemma lost_execution:
  assumes "\<not> holds s (cl_id rq) (le_worker (cl_lease rq)) (le_token (cl_lease rq))"
    and "execute_claimed st ws env rq s = (res, x)"
  shows "(\<exists>e. res = Inl (StoreError e)) \<and> ex_store x = s \<and> ex_log x = []"
proof -
  let ?i = "cl_id rq" and ?x = "\<lparr>ex_store = s, ex_lease = cl_lease rq, ex_log = []\<rparr>"
  note no = fenced[OF assms(1)]
  have beat: "heartbeat st ?i d ticks ?x = (Inr (), ?x) \<or> (\<exists>e. heartbeat st ?i d ticks ?x = (Inl (StoreError e), ?x))" for d ticks
  proof (cases ticks)
    case (Cons now rest)
    obtain e where "st_renew st now ?i (cl_lease rq) (time_after now d) s = (Inl e, s)" using no by blast
    then show ?thesis by (simp add: Cons)
  qed (simp add: pure_action_def)
  have drive: "\<exists>e. drive_store st ?i d ticks call ?x = (Inl (StoreError e), ?x)"
    if "\<exists>e. call (cl_lease rq) s = (Inl e, s)" for d ticks and call :: "outbox_lease \<Rightarrow> 's \<Rightarrow> ('e + 'z) \<times> 's"
    using that beat[of d ticks] by (auto simp: drive_store_def and_then_def)
  have retry: "\<exists>e. retry_or_fail st ws env ?i a m k d ?x = (Inl (StoreError e), ?x)" for a m k d
    unfolding retry_or_fail_def Let_def using no by (auto intro!: drive)
  have fin: "\<exists>e. finish_failed st ws env ?i k ?x = (Inl (StoreError e), ?x)" for k
    unfolding finish_failed_def using no by (auto intro!: drive)
  have "\<exists>e. drive_store st ?i (ws_lease_for ws) (en_ticks env AtBegin) (st_begin st (en_time env AtBegin) ?i) ?x = (Inl (StoreError e), ?x)"
    using no by (auto intro!: drive)
  then have run: "\<exists>e. run_granted st ws env rq ?x = (Inl (StoreError e), ?x)"
    by (auto simp: run_granted_def and_then_def)
  have "\<exists>e. execute_claimed st ws env rq s = (Inl (StoreError e), ?x)"
    using beat[of "ws_lease_for ws" "en_ticks env AtAcquire"]
  proof
    assume b: "heartbeat st ?i (ws_lease_for ws) (en_ticks env AtAcquire) ?x = (Inr (), ?x)"
    show ?thesis unfolding execute_claimed_def and_then_def b using retry fin run
      by (cases "en_acquire env") auto
  qed (auto simp: execute_claimed_def and_then_def)
  then show ?thesis using assms(2) by auto
qed

end

end
