(* ===== verification/Outbox_System.thy ===== *)
theory Outbox_System
  imports Outbox_Invariant
begin

text \<open>
  The whole claim operation and the outbox as a transition system.
\<close>

lemma set_due_ids:
  assumes "hm_ok rs"
  shows "i \<in> set (due_ids now rs) \<longleftrightarrow> (\<exists>r. hm_get rs i = Some r \<and> is_due now r)"
proof
  assume "i \<in> set (due_ids now rs)"
  then obtain p where "p \<in> set rs" "is_due now (snd p)" "i = fst p" by (auto simp: due_ids_def)
  then show "\<exists>r. hm_get rs i = Some r \<and> is_due now r" using assms by (metis map_of_is_SomeI prod.collapse)
next
  assume "\<exists>r. hm_get rs i = Some r \<and> is_due now r"
  then obtain r where "(i, r) \<in> set rs" "is_due now r" using map_of_SomeD by fast
  then show "i \<in> set (due_ids now rs)" by (force simp: due_ids_def)
qed

lemma distinct_due_ids: "hm_ok rs \<Longrightarrow> distinct (due_ids now rs)"
  by (simp add: due_ids_def distinct_map_filter)

lemma due_pending: "hm_ok (im_records s) \<Longrightarrow> i \<in> set (due_ids now (im_records s)) \<Longrightarrow> pending_at s i"
  by (auto simp: set_due_ids pending_at_def is_due_def)

definition expire_all :: "system_time \<Rightarrow> in_memory_state \<Rightarrow> in_memory_state" where
  "expire_all now s = s\<lparr>im_records := hm_map_values (\<lambda>_. expire_record now) (im_records s)\<rparr>"

lemma expire_all_get: "hm_get (im_records (expire_all now s)) i = map_option (expire_record now) (hm_get (im_records s) i)"
  by (simp add: expire_all_def)

lemma expire_all_ok: "outbox_ok s \<Longrightarrow> outbox_ok (expire_all now s)"
  and expire_all_evolves: "outbox_ok s \<Longrightarrow> evolves s (expire_all now s)"
  unfolding expire_all_def by (rule expired_ok, assumption)+

lemma claim_due_loop:
  "ob_claim_due w now d limit s
     = claim_loop w now d limit (due_ids now (im_records (expire_all now s))) [] (expire_all now s)"
  by (simp add: ob_claim_due_def Let_def expire_all_def)

lemma ob_claim_due_total:
  assumes "outbox_ok s"
  shows "\<exists>cs t. ob_claim_due w now d limit s = Some (cs, t) \<and> outbox_ok t \<and> evolves s t"
proof -
  have ok: "outbox_ok (expire_all now s)" using expire_all_ok[OF assms] .
  note hm = outbox_okD(1)[OF ok]
  from claim_loop_ok[OF ok distinct_due_ids[OF hm] due_pending[OF hm], of now, where w = w and now = now and d = d and limit = limit and acc = "[]"]
  show ?thesis unfolding claim_due_loop using evolves_trans[OF expire_all_evolves[OF assms]] by fastforce
qed

lemma ob_claim_due_ok:
  assumes "outbox_ok s" and "ob_claim_due w now d limit s = Some (cs, t)"
  shows "outbox_ok t" and "evolves s t"
  using ob_claim_due_total[OF assms(1), of w now d limit] assms(2) by auto

lemmas claim_due_spec = claim_loop_spec[OF _ distinct_due_ids due_pending, where acc = "[]", simplified]

subsection \<open>The transition system\<close>

record outbox_world =
  ow_clock :: system_time
  ow_store :: in_memory_state
  ow_started :: "outbox_id list"

text \<open>
  Leases are plain values, so any caller may present any lease at any time; the clock the store
  reads never goes back.
\<close>

inductive outbox_step :: "outbox_world \<Rightarrow> outbox_world \<Rightarrow> bool" where
  tick: "ow_clock x \<le> now \<Longrightarrow> outbox_step x (x\<lparr>ow_clock := now\<rparr>)"
| enqueue: "ob_enqueue rq (ow_store x) = Some (res, t) \<Longrightarrow> 0 < rq_max_attempts rq \<Longrightarrow> outbox_step x (x\<lparr>ow_store := t\<rparr>)"
| claim: "ob_claim_due w now d limit (ow_store x) = Some (cs, t) \<Longrightarrow> outbox_step x (x\<lparr>ow_store := t\<rparr>)"
| renew: "ob_renew_lease (ow_clock x) i lease until (ow_store x) = (rl, t) \<Longrightarrow> outbox_step x (x\<lparr>ow_store := t\<rparr>)"
| begun: "ob_begin_attempt (ow_clock x) i lease (ow_store x) = (Inr (Started n), t)
    \<Longrightarrow> outbox_step x (x\<lparr>ow_store := t, ow_started := i # ow_started x\<rparr>)"
| not_begun: "ob_begin_attempt (ow_clock x) i lease (ow_store x) = (rb, t) \<Longrightarrow> (\<And>n. rb \<noteq> Inr (Started n))
    \<Longrightarrow> outbox_step x (x\<lparr>ow_store := t\<rparr>)"
| complete: "ob_complete (ow_clock x) i lease (ow_store x) = (ru, t) \<Longrightarrow> outbox_step x (x\<lparr>ow_store := t\<rparr>)"
| reschedule: "ob_reschedule (ow_clock x) i lease retry (ow_store x) = (ru, t) \<Longrightarrow> outbox_step x (x\<lparr>ow_store := t\<rparr>)"
| fail: "ob_fail (ow_clock x) i lease kind (ow_store x) = (ru, t) \<Longrightarrow> outbox_step x (x\<lparr>ow_store := t\<rparr>)"
| inject: "outbox_step x (x\<lparr>ow_store := ob_fail_next_complete (ow_store x)\<rparr>)"

definition outbox_init :: "outbox_world \<Rightarrow> bool" where
  "outbox_init x \<longleftrightarrow> ow_store x = in_memory_default \<and> ow_started x = []"

interpretation outbox: transition_system outbox_init outbox_step .

lemma with_lease_ok:
  assumes "lawful lease f" and "outbox_ok s" and "with_lease clock i lease f s = (res, t)"
  shows "outbox_ok t \<and> evolves s t"
  using with_lease_replaces[OF assms] replaces_ok replaces_evolves assms(2) by auto

lemma flag_ok:
  "outbox_ok (s\<lparr>im_fail_next_complete := b\<rparr>) = outbox_ok s" "evolves s (s\<lparr>im_fail_next_complete := b\<rparr>)"
proof -
  have h: "holds_lease (s\<lparr>im_fail_next_complete := b\<rparr>) = holds_lease s" by (intro ext) (simp add: holds_lease_def)
  show "outbox_ok (s\<lparr>im_fail_next_complete := b\<rparr>) = outbox_ok s" by (simp add: outbox_ok_def h)
  show "evolves s (s\<lparr>im_fail_next_complete := b\<rparr>)" by (simp add: evolves_def h)
qed

lemma ob_complete_ok:
  assumes "outbox_ok s" and "ob_complete clock i lease s = (res, t)"
  shows "outbox_ok t \<and> evolves s t"
  using assms(2) with_lease_ok[OF lawful_ops(3) assms(1)] flag_ok(1)[where s = s and b = False] flag_ok(2)[where s = s and b = False] assms(1)
  by (auto simp: ob_complete_def split: if_splits)

lemma outbox_step_ok:
  assumes "outbox_step x y" and "outbox_ok (ow_store x)"
  shows "outbox_ok (ow_store y) \<and> evolves (ow_store x) (ow_store y)"
  using assms
proof (cases rule: outbox_step.cases)
  case (enqueue rq res t)
  then show ?thesis using ob_enqueue_ok[OF assms(2)] by simp
next
  case (claim w now d limit cs t)
  then show ?thesis using ob_claim_due_ok[OF assms(2)] by simp
next
  case (renew i lease until rl t)
  then show ?thesis using with_lease_ok[OF lawful_ops(1) assms(2)] by (simp add: ob_renew_lease_def)
next
  case (begun i lease n t)
  then show ?thesis using with_lease_ok[OF lawful_ops(2) assms(2)] by (simp add: ob_begin_attempt_def)
next
  case (not_begun i lease rb t)
  then show ?thesis using with_lease_ok[OF lawful_ops(2) assms(2)] by (simp add: ob_begin_attempt_def)
next
  case (complete i lease ru t)
  then show ?thesis using ob_complete_ok[OF assms(2)] by simp
next
  case (reschedule i lease retry ru t)
  then show ?thesis using with_lease_ok[OF lawful_ops(4) assms(2)] by (simp add: ob_reschedule_def)
next
  case (fail i lease kind ru t)
  then show ?thesis using with_lease_ok[OF lawful_ops(5) assms(2)] by (simp add: ob_fail_def)
next
  case inject
  then show ?thesis using flag_ok[where s = "ow_store x" and b = True] assms(2) by (simp add: ob_fail_next_complete_def)
qed simp

lemma outbox_ok_default: "outbox_ok in_memory_default"
  by (simp add: outbox_ok_def in_memory_default_def holds_lease_def)

lemma reach_outbox_ok:
  assumes "outbox.reach x"
  shows "outbox_ok (ow_store x)"
  using assms
  by (rule outbox.reach_invariant) (auto simp: outbox_init_def outbox_ok_default dest: outbox_step_ok)

lemma outbox_steps_ok:
  assumes "rtranclp outbox_step x y" and "outbox_ok (ow_store x)"
  shows "outbox_ok (ow_store y) \<and> evolves (ow_store x) (ow_store y)"
  using assms by (induction rule: rtranclp_induct) (auto dest: outbox_step_ok intro: evolves_trans)

subsection \<open>Started attempts are counted\<close>

definition attempts_at :: "in_memory_state \<Rightarrow> outbox_id \<Rightarrow> nat" where
  "attempts_at s i = (case hm_get (im_records s) i of None \<Rightarrow> 0 | Some r \<Rightarrow> ir_attempt r)"

lemma attempts_with_lease:
  assumes "with_lease clock i lease f s = (res, t)" and "\<And>r. ir_attempt (snd (f r)) = ir_attempt r"
  shows "attempts_at t = attempts_at s"
  using assms(1)
proof (cases rule: with_lease_cases)
  case (applied r r')
  then show ?thesis using assms(2)[of r] by (intro ext) (simp add: attempts_at_def)
qed simp_all

lemma attempts_claim_loop:
  assumes "claim_loop w now d limit ids acc s = Some (cs, t)"
  shows "attempts_at t = attempts_at s"
  using assms
proof (induction ids arbitrary: acc s)
  case (Cons i ids)
  show ?case
  proof (cases "hm_get (im_records s) i")
    case None
    then show ?thesis using Cons.prems by (simp add: Let_def split: if_splits)
  next
    case (Some r)
    have "attempts_at (visit r' i s) = attempts_at s" if "ir_attempt r' = ir_attempt r" for r'
      using Some that by (intro ext) (simp add: attempts_at_def visit_get)
    then show ?thesis using Cons.prems Cons.IH unfolding claim_loop_Cons[OF Some]
      by (fastforce simp: exhaust_record_def lease_record_def split: if_splits)
  qed
qed simp

lemma attempts_step:
  assumes "outbox_step x y" and "outbox_ok (ow_store x)"
  shows "(attempts_at (ow_store y) = attempts_at (ow_store x) \<and> ow_started y = ow_started x)
    \<or> (\<exists>i. attempts_at (ow_store y) = (attempts_at (ow_store x))(i := attempts_at (ow_store x) i + 1)
          \<and> ow_started y = i # ow_started x)"
  using assms
proof (cases rule: outbox_step.cases)
  case (enqueue rq res t)
  from enqueue(2) have "attempts_at t = attempts_at (ow_store x)"
  proof (cases rule: ob_enqueue_cases)
    case fresh
    then show ?thesis using enqueue_new_record[OF assms(2) fresh(1)] by (intro ext) (simp add: attempts_at_def)
  qed simp
  then show ?thesis using enqueue(1) by simp
next
  case (claim w now d limit cs t)
  have "attempts_at (expire_all now (ow_store x)) = attempts_at (ow_store x)"
    by (intro ext) (simp add: attempts_at_def expire_all_get split: option.split)
  then show ?thesis using claim attempts_claim_loop unfolding claim_due_loop by fastforce
next
  case (renew i lease until rl t)
  then show ?thesis using attempts_with_lease[OF renew(2)[unfolded ob_renew_lease_def]] by (simp add: Let_def)
next
  case (begun i lease n t)
  from begun(2)[unfolded ob_begin_attempt_def] show ?thesis
  proof (cases rule: with_lease_cases)
    case (applied r r')
    then have "attempts_at t = (attempts_at (ow_store x))(i := attempts_at (ow_store x) i + 1)"
      by (intro ext) (auto simp: attempts_at_def split: if_splits)
    then show ?thesis using begun(1) by auto
  qed simp_all
next
  case (not_begun i lease rb t)
  from not_begun(2)[unfolded ob_begin_attempt_def] have "attempts_at t = attempts_at (ow_store x)"
  proof (cases rule: with_lease_cases)
    case (applied r r')
    then show ?thesis using not_begun(3) by (intro ext) (auto simp: attempts_at_def split: if_splits)
  qed simp_all
  then show ?thesis using not_begun(1) by simp
next
  case (complete i lease ru t)
  have "attempts_at t = attempts_at (ow_store x)"
  proof (cases "im_fail_next_complete (ow_store x)")
    case False
    then show ?thesis using complete(2) attempts_with_lease[of "ow_clock x" i lease _ "ow_store x" ru t]
      by (fastforce simp: ob_complete_def)
  qed (use complete(2) in \<open>auto simp: ob_complete_def attempts_at_def fun_eq_iff\<close>)
  then show ?thesis using complete(1) by simp
next
  case (reschedule i lease retry ru t)
  then show ?thesis using attempts_with_lease[OF reschedule(2)[unfolded ob_reschedule_def]] by simp
next
  case (fail i lease kind ru t)
  then show ?thesis using attempts_with_lease[OF fail(2)[unfolded ob_fail_def]] by simp
qed (auto simp: attempts_at_def fun_eq_iff ob_fail_next_complete_def)

lemma reach_attempts:
  assumes "outbox.reach x"
  shows "count_list (ow_started x) i = attempts_at (ow_store x) i"
proof -
  have "outbox_ok (ow_store x) \<and> (\<forall>i. count_list (ow_started x) i = attempts_at (ow_store x) i)"
    using assms
  proof (rule outbox.reach_invariant)
    show "outbox_ok (ow_store y) \<and> (\<forall>i. count_list (ow_started y) i = attempts_at (ow_store y) i)"
      if "outbox_ok (ow_store x) \<and> (\<forall>i. count_list (ow_started x) i = attempts_at (ow_store x) i)" "outbox_step x y" for x y
      using attempts_step[OF that(2)] outbox_step_ok[OF that(2)] that(1) by auto
  qed (use outbox_ok_default in \<open>auto simp: outbox_init_def attempts_at_def in_memory_default_def\<close>)
  then show ?thesis by blast
qed

end
