(* ===== verification/Outbox_Claims.thy ===== *)
theory Outbox_Claims
  imports Outbox_System "HOL-Library.Code_Target_Numeral"
begin

text \<open>
  What the outbox promises: exclusive claims in delivery order, fenced leases, bounded attempts,
  final terminal states, idempotent enqueues and redelivery after a crash.
\<close>

subsection \<open>A concrete outbox\<close>

definition demo_request :: new_outbox_request where
  "demo_request = \<lparr>rq_key = ''order-1'', rq_payload = [1, 2], rq_version = 1,
     rq_metadata = \<lparr>md_scope = ScopeGlobal, md_class = 0, md_priority = NORMAL, md_weight = 1\<rparr>,
     rq_available_at = 5, rq_max_attempts = 2\<rparr>"

definition demo_world :: "in_memory_state \<Rightarrow> outbox_world" where
  "demo_world s = \<lparr>ow_clock = 20, ow_store = s, ow_started = []\<rparr>"

definition demo_enqueued :: in_memory_state where
  "demo_enqueued = (case ob_enqueue demo_request in_memory_default of Some (_, t) \<Rightarrow> t | None \<Rightarrow> in_memory_default)"

definition demo_claimed :: "outbox_worker_id \<Rightarrow> system_time \<Rightarrow> in_memory_state \<Rightarrow> in_memory_state" where
  "demo_claimed w now s = (case ob_claim_due w now 30 8 s of Some (_, t) \<Rightarrow> t | None \<Rightarrow> s)"

lemma demo_enqueued_step:
  "ob_enqueue demo_request in_memory_default = Some (Inr (Inserted 0), demo_enqueued)"
  by (simp add: demo_enqueued_def ob_enqueue_def in_memory_default_def Let_def)

lemma demo_enqueued_reach: "outbox.reach (demo_world demo_enqueued)"
proof -
  have "outbox.reach (demo_world in_memory_default)"
    by (rule outbox.reach_init) (simp add: outbox_init_def demo_world_def)
  from outbox.reach_step[OF this outbox_step.enqueue, of demo_request "Inr (Inserted 0)" demo_enqueued]
  show ?thesis using demo_enqueued_step by (simp add: demo_world_def demo_request_def)
qed

lemma demo_claim_result:
  assumes "outbox.reach (demo_world s)"
  shows "\<exists>cs. ob_claim_due w now 30 8 s = Some (cs, demo_claimed w now s)"
  using ob_claim_due_total[OF reach_outbox_ok[OF assms], of w now 30 8]
  by (auto simp: demo_world_def demo_claimed_def)

lemma demo_claim_step:
  assumes "outbox.reach (demo_world s)"
  shows "outbox_step (demo_world s) (demo_world (demo_claimed w now s))"
proof -
  obtain cs where "ob_claim_due w now 30 8 (ow_store (demo_world s)) = Some (cs, demo_claimed w now s)"
    using demo_claim_result[OF assms] by (auto simp: demo_world_def)
  from outbox_step.claim[OF this] show ?thesis by (simp add: demo_world_def)
qed

lemma demo_claim_reach:
  assumes "outbox.reach (demo_world s)"
  shows "outbox.reach (demo_world (demo_claimed w now s))"
  by (rule outbox.reach_step[OF assms demo_claim_step[OF assms]])

subsection \<open>Claims\<close>

text \<open>The reference: what may be handed out at a moment, and in which order.\<close>

definition claimable :: "system_time \<Rightarrow> in_memory_state \<Rightarrow> outbox_id \<Rightarrow> bool" where
  "claimable now s i = (case hm_get (im_records s) i of None \<Rightarrow> False | Some r \<Rightarrow>
     \<not> exhausted r \<and> rq_available_at (ir_request r) \<le> now
     \<and> (case ir_status r of InPending \<Rightarrow> True | InClaimed lease \<Rightarrow> le_until lease \<le> now | _ \<Rightarrow> False))"

lemma claimable_due:
  assumes "outbox_ok s"
  shows "claimable now s i \<longleftrightarrow> i \<in> set (due_ids now (im_records (expire_all now s))) \<and> \<not> exhausted_at (expire_all now s) i"
  unfolding set_due_ids[OF outbox_okD(1)[OF expire_all_ok[OF assms]]] expire_all_get
  by (cases "hm_get (im_records s) i")
     (auto simp: claimable_def exhausted_at_def expire_all_get is_due_def expire_record_def exhausted_def
       split: in_memory_status.splits)

lemma due_sorted:
  assumes "outbox_ok s"
  shows "sorted (map (claim_key (im_records s)) (due_ids now (im_records (expire_all now s))))"
proof -
  have "claim_key (im_records (expire_all now s)) = claim_key (im_records s)"
    by (intro ext) (simp add: claim_key_def expire_all_get split: option.split)
  then show ?thesis by (simp add: due_ids_def)
qed

text \<open>
  C24. \<open>claim_due\<close> hands out the oldest work first: the claimed records are the first \<open>limit\<close> of
  the claimable ones (attempts left, available, and not under a lease that is still running) in the
  order of availability, ties broken by the record id.
\<close>

theorem claims_oldest_first:
  assumes "outbox.reach x" and "ob_claim_due w now d limit (ow_store x) = Some (cs, t)"
  shows "\<exists>ids. distinct ids \<and> set ids = {i. claimable now (ow_store x) i}
    \<and> sorted (map (claim_key (im_records (ow_store x))) ids) \<and> map cl_id cs = take limit ids"
proof -
  let ?s = "ow_store x" and ?e = "expire_all now (ow_store x)"
  let ?due = "due_ids now (im_records ?e)"
  let ?ids = "filter (\<lambda>i. \<not> exhausted_at ?e i) ?due"
  have ok: "outbox_ok ?s" using reach_outbox_ok[OF assms(1)] .
  note hm = outbox_okD(1)[OF expire_all_ok[OF ok, of now]]
  have "map cl_id cs = take limit ?ids"
    using claim_due_spec[OF assms(2)[unfolded claim_due_loop] hm hm] by auto
  moreover have "distinct ?ids" using distinct_due_ids[OF hm] by simp
  moreover have "set ?ids = {i. claimable now ?s i}" using claimable_due[OF ok] by auto
  moreover have "sorted (map (claim_key (im_records ?s)) ?ids)"
    using due_sorted[OF ok, of now] by (simp add: sorted_map sorted_wrt_filter)
  ultimately show ?thesis by blast
qed

theorem claims_oldest_first_witness:
  "\<exists>cs t. ob_claim_due 7 20 30 8 demo_enqueued = Some (cs, t) \<and> map cl_id cs = [0]"
proof -
  obtain cs where c: "ob_claim_due 7 20 30 8 (ow_store (demo_world demo_enqueued)) = Some (cs, demo_claimed 7 20 demo_enqueued)"
    using demo_claim_result[OF demo_enqueued_reach] by (auto simp: demo_world_def)
  obtain ids where ids: "distinct ids" "set ids = {i. claimable 20 demo_enqueued i}" "map cl_id cs = take 8 ids"
    using claims_oldest_first[OF demo_enqueued_reach c] by (auto simp: demo_world_def)
  have "claimable 20 demo_enqueued i = (i = 0)" for i
    by (simp add: claimable_def demo_enqueued_def ob_enqueue_def in_memory_default_def Let_def demo_request_def exhausted_def)
  then have "set ids = {0}" using ids(2) by simp
  then have "ids = [0]" using ids(1) by (cases ids; cases "tl ids") auto
  with ids(3) c show ?thesis by (auto simp: demo_world_def)
qed

lemma claimed_asD:
  assumes "claimed_as s t w now d c"
  obtains r where "hm_get (im_records s) (cl_id c) = Some r"
    "hm_get (im_records t) (cl_id c) = Some (lease_record (cl_lease c) r)" "le_worker (cl_lease c) = w"
    "im_next_token s < le_token (cl_lease c)"
  using assms that unfolding claimed_as_def by (cases "hm_get (im_records s) (cl_id c)") simp_all

lemma claimed_facts:
  assumes "outbox_ok s" and "ob_claim_due w now d limit s = Some (cs, t)" and "c \<in> set cs"
  shows "claimed_as (expire_all now s) t w now d c"
  using claim_due_spec[OF assms(2)[unfolded claim_due_loop] outbox_okD(1)[OF expire_all_ok[OF assms(1)]]
      outbox_okD(1)[OF expire_all_ok[OF assms(1)]]] assms(3) by auto

text \<open>
  C21. One owner per record: a record is handed out only when no lease on it is still running, under
  a token larger than every token issued before, and afterwards it is held by that worker and token
  and by nobody else; a batch never contains a record twice.
\<close>

theorem claims_are_exclusive:
  assumes "outbox.reach x" and "ob_claim_due w now d limit (ow_store x) = Some (cs, t)" and "c \<in> set cs"
  shows "claimable now (ow_store x) (cl_id c) \<and> im_next_token (ow_store x) < le_token (cl_lease c)
    \<and> {(v, tok). holds_lease t (cl_id c) v tok} = {(w, le_token (cl_lease c))} \<and> distinct (map cl_id cs)"
proof -
  let ?s = "ow_store x"
  have ok: "outbox_ok ?s" using reach_outbox_ok[OF assms(1)] .
  have c: "claimed_as (expire_all now ?s) t w now d c" using claimed_facts[OF ok assms(2,3)] .
  note hm = outbox_okD(1)[OF expire_all_ok[OF ok, of now]]
  have ids: "map cl_id cs = take limit (filter (\<lambda>i. \<not> exhausted_at (expire_all now ?s) i) (due_ids now (im_records (expire_all now ?s))))"
    using claim_due_spec[OF assms(2)[unfolded claim_due_loop] hm hm] by auto
  then have "distinct (map cl_id cs)" using distinct_due_ids[OF hm, of now] by simp
  moreover have "cl_id c \<in> set (map cl_id cs)" using assms(3) by simp
  then have "cl_id c \<in> set (filter (\<lambda>i. \<not> exhausted_at (expire_all now ?s) i) (due_ids now (im_records (expire_all now ?s))))"
    unfolding ids by (rule in_set_takeD)
  then have "claimable now ?s (cl_id c)" unfolding claimable_due[OF ok] by simp
  moreover obtain r where r: "hm_get (im_records t) (cl_id c) = Some (lease_record (cl_lease c) r)"
    "le_worker (cl_lease c) = w" "im_next_token (expire_all now ?s) < le_token (cl_lease c)"
    using c by (rule claimed_asD)
  moreover have "{(v, tok). holds_lease t (cl_id c) v tok} = {(w, le_token (cl_lease c))}"
    using r(2) by (auto simp: holds_lease_def r(1) lease_record_def)
  ultimately show ?thesis using r(3) by (simp add: expire_all_def)
qed

theorem claims_are_exclusive_witness:
  "{(v, tok). holds_lease (demo_claimed 7 20 demo_enqueued) 0 v tok} = {(7, 1)}"
proof -
  have e: "map_option (\<lambda>p. (map cl_id (fst p), map (\<lambda>c. le_token (cl_lease c)) (fst p))) (ob_claim_due 7 20 30 8 demo_enqueued) = Some ([0], [1])"
    by code_simp
  obtain cs where c: "ob_claim_due 7 20 30 8 (ow_store (demo_world demo_enqueued)) = Some (cs, demo_claimed 7 20 demo_enqueued)"
    using demo_claim_result[OF demo_enqueued_reach] by (auto simp: demo_world_def)
  then obtain a where "a \<in> set cs" "cl_id a = 0" "le_token (cl_lease a) = 1"
    using e by (auto simp: demo_world_def map_eq_Cons_conv)
  then show ?thesis using claims_are_exclusive[OF demo_enqueued_reach c, of a] by simp
qed

subsection \<open>Fencing\<close>

lemma with_lease_fenced:
  assumes "\<not> holds_lease s i (le_worker lease) (le_token lease)"
  shows "\<exists>e. with_lease clock i lease f s = (Inl e, s)"
proof (cases "hm_get (im_records s) i")
  case None
  then show ?thesis by (simp add: with_lease_def)
next
  case (Some r)
  then have "\<not> lease_is_current clock (ir_status r) lease" using current_holds(1)[OF Some] assms by blast
  with Some show ?thesis by (simp add: with_lease_def)
qed

lemma ob_complete_fenced:
  assumes "\<not> holds_lease s i (le_worker lease) (le_token lease)"
  shows "\<exists>e. fst (ob_complete clock i lease s) = Inl e \<and> im_records (snd (ob_complete clock i lease s)) = im_records s"
proof -
  obtain e where "with_lease clock i lease (\<lambda>r. (Inr (), r\<lparr>ir_status := InCompleted\<rparr>)) s = (Inl e, s)"
    using with_lease_fenced[OF assms] by blast
  then show ?thesis by (simp add: ob_complete_def)
qed

text \<open>
  C20. A worker that lost its lease is fenced off for good: once an issued token no longer holds a
  record, then after any further steps of any workers every mutation presented with it is refused
  and leaves all records unchanged.
\<close>

theorem stale_leases_are_fenced:
  assumes "outbox.reach x" and "rtranclp outbox_step x y"
    and "le_token lease \<le> im_next_token (ow_store x)"
    and "\<not> holds_lease (ow_store x) i (le_worker lease) (le_token lease)"
  shows "(\<exists>e. ob_begin_attempt now i lease (ow_store y) = (Inl e, ow_store y))
    \<and> (\<exists>e. ob_renew_lease now i lease until (ow_store y) = (Inl e, ow_store y))
    \<and> (\<exists>e. ob_reschedule now i lease retry (ow_store y) = (Inl e, ow_store y))
    \<and> (\<exists>e. ob_fail now i lease kind (ow_store y) = (Inl e, ow_store y))
    \<and> (\<exists>e. fst (ob_complete now i lease (ow_store y)) = Inl e
        \<and> im_records (snd (ob_complete now i lease (ow_store y))) = im_records (ow_store y))"
proof -
  have "evolves (ow_store x) (ow_store y)" using outbox_steps_ok[OF assms(2) reach_outbox_ok[OF assms(1)]] by blast
  then have lost: "\<not> holds_lease (ow_store y) i (le_worker lease) (le_token lease)"
    using assms(3,4) unfolding evolves_def by blast
  show ?thesis
    unfolding ob_begin_attempt_def ob_renew_lease_def ob_reschedule_def ob_fail_def
    by (intro conjI with_lease_fenced[OF lost] ob_complete_fenced[OF lost])
qed

definition demo_lease :: outbox_lease where
  "demo_lease = \<lparr>le_worker = 7, le_token = 1, le_until = 50\<rparr>"

text \<open>Worker 7 claims, its lease runs out at 50, worker 8 claims at 60.\<close>

definition demo_retaken :: in_memory_state where
  "demo_retaken = demo_claimed 8 60 (demo_claimed 7 20 demo_enqueued)"

lemma demo_retaken_reach: "outbox.reach (demo_world demo_retaken)"
  unfolding demo_retaken_def by (intro demo_claim_reach demo_enqueued_reach)

lemma demo_retaken_state:
  "im_next_token demo_retaken = 2 \<and> map (\<lambda>p. (fst p, ir_status (snd p), ir_claim_count (snd p))) (im_records demo_retaken)
     = [(0, InClaimed \<lparr>le_worker = 8, le_token = 2, le_until = 90\<rparr>, 2)]"
  by code_simp

theorem stale_leases_are_fenced_witness:
  "\<exists>e. ob_begin_attempt 61 0 demo_lease (demo_claimed 9 200 demo_retaken) = (Inl e, demo_claimed 9 200 demo_retaken)"
proof -
  obtain r where r: "im_records demo_retaken = [(0, r)]" "ir_status r = InClaimed \<lparr>le_worker = 8, le_token = 2, le_until = 90\<rparr>"
    using demo_retaken_state by (auto simp: map_eq_Cons_conv)
  have held: "\<not> holds_lease (ow_store (demo_world demo_retaken)) 0 (le_worker demo_lease) (le_token demo_lease)"
    using r by (simp add: holds_lease_def demo_world_def demo_lease_def)
  have old: "le_token demo_lease \<le> im_next_token (ow_store (demo_world demo_retaken))"
    using demo_retaken_state by (simp add: demo_world_def demo_lease_def)
  have steps: "rtranclp outbox_step (demo_world demo_retaken) (demo_world (demo_claimed 9 200 demo_retaken))"
    using demo_claim_step[OF demo_retaken_reach] by blast
  show ?thesis
    using conjunct1[OF stale_leases_are_fenced[OF demo_retaken_reach steps old held, where now = 61]]
    by (simp add: demo_world_def)
qed

text \<open>
  A heartbeat does not disturb work already under way: after a renewal the old lease value, whose
  expiry is out of date, still passes the fence for as long as the renewed lease runs.
\<close>

theorem renewal_keeps_old_handle:
  assumes "ob_renew_lease clock i lease until s = (Inr renewed, t)" and "now < until"
  shows "le_worker renewed = le_worker lease \<and> le_token renewed = le_token lease \<and> le_until renewed = until
    \<and> ob_begin_attempt now i lease t = ob_begin_attempt now i renewed t
    \<and> (\<exists>a u. ob_begin_attempt now i lease t = (Inr a, u))"
  using assms(1)[unfolded ob_renew_lease_def]
proof (cases rule: with_lease_cases)
  case (applied r r')
  then have ren: "renewed = lease\<lparr>le_until := until\<rparr>" and r': "r' = r\<lparr>ir_status := InClaimed renewed\<rparr>"
    by (auto simp: Let_def)
  have "lease_is_current now (ir_status r') lease" "lease_is_current now (ir_status r') renewed"
    using assms(2) by (simp_all add: r' ren lease_is_current_def)
  then show ?thesis using applied(4) by (simp add: ob_begin_attempt_def with_lease_def ren split: prod.split)
qed simp_all

lemma demo_renewed:
  "fst (ob_renew_lease 40 0 demo_lease 70 (demo_claimed 7 20 demo_enqueued)) = Inr (demo_lease\<lparr>le_until := 70\<rparr>)"
  by code_simp

theorem renewal_keeps_old_handle_witness:
  "\<exists>a u. ob_begin_attempt 60 0 demo_lease (snd (ob_renew_lease 40 0 demo_lease 70 (demo_claimed 7 20 demo_enqueued))) = (Inr a, u)"
proof -
  obtain t where t: "ob_renew_lease 40 0 demo_lease 70 (demo_claimed 7 20 demo_enqueued) = (Inr (demo_lease\<lparr>le_until := 70\<rparr>), t)"
    using demo_renewed by (metis prod.collapse)
  have "60 < (70::nat)" by simp
  from renewal_keeps_old_handle[OF t this] show ?thesis unfolding t snd_conv by blast
qed

subsection \<open>Attempts, terminal states, idempotency\<close>

text \<open>
  C22. The executor is started at most \<open>max_attempts\<close> times for a record, however often it is
  claimed, rescheduled or taken over: in every reachable outbox the attempts started for a record
  are exactly the ones it counts, and never more than its limit.
\<close>

theorem attempts_are_bounded:
  assumes "outbox.reach x"
  shows "case hm_get (im_records (ow_store x)) i of
      None \<Rightarrow> count_list (ow_started x) i = 0
    | Some r \<Rightarrow> count_list (ow_started x) i = ir_attempt r \<and> ir_attempt r \<le> rq_max_attempts (ir_request r)"
  using reach_attempts[OF assms, of i] outbox_okD(6)[OF reach_outbox_ok[OF assms], of i]
  by (simp add: attempts_at_def split: option.splits)

theorem attempts_are_bounded_witness:
  "case hm_get (im_records demo_retaken) 0 of None \<Rightarrow> True | Some r \<Rightarrow> ir_attempt r = 0"
  using attempts_are_bounded[OF demo_retaken_reach, of 0] by (simp add: demo_world_def split: option.splits)

text \<open>
  C26. Terminal means terminal: once a record is completed or failed, no sequence of steps changes
  anything in it.
\<close>

theorem terminal_records_stay:
  assumes "outbox.reach x" and "rtranclp outbox_step x y"
    and "hm_get (im_records (ow_store x)) i = Some r" and "terminal r"
  shows "hm_get (im_records (ow_store y)) i = Some r"
proof -
  have "evolves (ow_store x) (ow_store y)" using outbox_steps_ok[OF assms(2) reach_outbox_ok[OF assms(1)]] by blast
  then obtain r' where "hm_get (im_records (ow_store y)) i = Some r'" "record_evolves r r'"
    using assms(3) unfolding evolves_def by blast
  then show ?thesis using assms(4) by (simp add: record_evolves_def)
qed

definition demo_completed :: in_memory_state where
  "demo_completed = snd (ob_complete 20 0 demo_lease (demo_claimed 7 20 demo_enqueued))"

lemma demo_completed_reach: "outbox.reach (demo_world demo_completed)"
proof -
  have "outbox_step (demo_world (demo_claimed 7 20 demo_enqueued)) (demo_world demo_completed)"
    using outbox_step.complete[of "demo_world (demo_claimed 7 20 demo_enqueued)" 0 demo_lease _ demo_completed]
    by (simp add: demo_world_def demo_completed_def prod_eq_iff)
  then show ?thesis by (rule outbox.reach_step[OF demo_claim_reach[OF demo_enqueued_reach]])
qed

theorem terminal_records_stay_witness:
  "\<exists>r. hm_get (im_records (demo_claimed 8 99 demo_completed)) 0 = Some r \<and> ir_status r = InCompleted"
proof -
  have "map_option ir_status (hm_get (im_records demo_completed) 0) = Some InCompleted" by code_simp
  then obtain r where r: "hm_get (im_records demo_completed) 0 = Some r" "ir_status r = InCompleted" by auto
  have "rtranclp outbox_step (demo_world demo_completed) (demo_world (demo_claimed 8 99 demo_completed))"
    using demo_claim_step[OF demo_completed_reach] by blast
  from terminal_records_stay[OF demo_completed_reach this, of 0 r] r show ?thesis
    by (simp add: demo_world_def terminal_def)
qed

text \<open>
  C25. Enqueue is idempotent for ever: after a record was inserted, at any later time a request with
  the same key is answered with that record if payload, version, metadata and attempt limit agree,
  and with a conflict if not; the outbox does not change either way.
\<close>

theorem enqueue_is_idempotent:
  assumes "outbox.reach x" and "0 < rq_max_attempts rq"
    and "ob_enqueue rq (ow_store x) = Some (Inr (Inserted i), t)"
    and "rtranclp outbox_step (x\<lparr>ow_store := t\<rparr>) y" and "rq_key rq' = rq_key rq"
  shows "ob_enqueue rq' (ow_store y)
    = Some (if same_request rq rq' then Inr (Existing i) else Inl (OutboxConflict i), ow_store y)"
proof -
  have t: "outbox_ok t" using ob_enqueue_ok[OF reach_outbox_ok[OF assms(1)] assms(3,2)] by blast
  from assms(3) obtain r where key: "hm_get (im_by_key t) (rq_key rq) = Some i"
    and rec: "hm_get (im_records t) i = Some r" and rq: "ir_request r = rq"
    by (cases rule: ob_enqueue_cases) (auto split: if_splits)
  have "evolves t (ow_store y)" using outbox_steps_ok[OF assms(4)] t by simp
  then obtain r' where k: "hm_get (im_by_key (ow_store y)) (rq_key rq) = Some i"
    and r': "hm_get (im_records (ow_store y)) i = Some r'" and ev: "record_evolves r r'"
    using key rec unfolding evolves_def by blast
  have "same_request (ir_request r') rq' = same_request rq rq'"
    using ev rq by (auto simp: record_evolves_def same_request_def)
  then show ?thesis by (simp add: ob_enqueue_def assms(5) k r')
qed

theorem enqueue_is_idempotent_witness:
  "ob_enqueue (demo_request\<lparr>rq_available_at := 77\<rparr>) demo_retaken = Some (Inr (Existing 0), demo_retaken)"
proof -
  have "outbox.reach (demo_world in_memory_default)"
    by (rule outbox.reach_init) (simp add: outbox_init_def demo_world_def)
  moreover have "rtranclp outbox_step (demo_world demo_enqueued) (demo_world demo_retaken)"
    unfolding demo_retaken_def
    using demo_claim_step[OF demo_enqueued_reach, of 7 20]
      demo_claim_step[OF demo_claim_reach[OF demo_enqueued_reach, of 7 20], of 8 60]
    by (meson converse_rtranclp_into_rtranclp r_into_rtranclp)
  ultimately show ?thesis
    using enqueue_is_idempotent[of "demo_world in_memory_default" demo_request 0 demo_enqueued "demo_world demo_retaken"
        "demo_request\<lparr>rq_available_at := 77\<rparr>"] demo_enqueued_step
    by (simp add: demo_world_def demo_request_def same_request_def)
qed



end
