(* ===== verification/Outbox_Outcome.thy ===== *)
theory Outbox_Outcome
  imports Outbox_Delivery Outbox_Claims
begin

text \<open>
  The worker over the in-memory store: the store meets the contract of \<open>Outbox_Delivery\<close>, and an
  execution that ends without a store error leaves its record exactly as the table \<open>delivered\<close> says.
\<close>

definition in_memory_store :: "(in_memory_state, in_memory_error) outbox_store" where
  "in_memory_store = \<lparr>
     st_claim = (\<lambda>w now d limit s. case ob_claim_due w now d limit s of
        None \<Rightarrow> (Inl OutboxPoisoned, s) | Some (cs, t) \<Rightarrow> (Inr cs, t)),
     st_renew = ob_renew_lease, st_begin = ob_begin_attempt, st_complete = ob_complete,
     st_reschedule = ob_reschedule, st_fail = ob_fail\<rparr>"

lemma in_memory_store_ops [simp]:
  "st_renew in_memory_store = ob_renew_lease" "st_begin in_memory_store = ob_begin_attempt"
  "st_complete in_memory_store = ob_complete" "st_reschedule in_memory_store = ob_reschedule"
  "st_fail in_memory_store = ob_fail"
  by (simp_all add: in_memory_store_def)

definition attempts_of :: "in_memory_record option \<Rightarrow> nat" where
  "attempts_of r = (case r of None \<Rightarrow> 0 | Some r \<Rightarrow> ir_attempt r)"

lemma with_lease_other:
  assumes "with_lease clock i lease f s = (res, t)" and "j \<noteq> i"
  shows "hm_get (im_records t) j = hm_get (im_records s) j"
  using assms(1) by (cases rule: with_lease_cases) (use assms(2) in simp_all)

lemma with_lease_attempts:
  assumes "with_lease clock i lease f s = (res, t)" and "\<And>r. ir_attempt (snd (f r)) = ir_attempt r"
  shows "attempts_of (hm_get (im_records t) i) = attempts_of (hm_get (im_records s) i)"
  using assms(1)
proof (cases rule: with_lease_cases)
  case (applied r r')
  then show ?thesis using assms(2)[of r] by (simp add: attempts_of_def)
qed simp_all

lemma begin_counts:
  assumes "ob_begin_attempt now i l s = (rb, t)"
  shows "attempts_of (hm_get (im_records t) i)
    = attempts_of (hm_get (im_records s) i) + (case rb of Inr (Started _) \<Rightarrow> 1 | _ \<Rightarrow> 0)"
  using assms[unfolded ob_begin_attempt_def]
  by (cases rule: with_lease_cases) (auto simp: attempts_of_def split: if_splits)

lemma ob_complete_cases:
  assumes "ob_complete now i l s = (rc, t)"
  shows "im_fail_next_complete s \<and> rc = Inl OutboxInjectedFailure \<and> t = s\<lparr>im_fail_next_complete := False\<rparr>
    \<or> \<not> im_fail_next_complete s \<and> with_lease now i l (\<lambda>r. (Inr (), r\<lparr>ir_status := InCompleted\<rparr>)) s = (rc, t)"
  using assms by (auto simp: ob_complete_def split: if_splits)

interpretation memory: fenced_store in_memory_store "\<lambda>s i. hm_get (im_records s) i" attempts_of holds_lease
proof (unfold_locales, goal_cases)
  case (1 now i l u s rl t j) then show ?case by (auto simp: ob_renew_lease_def intro: with_lease_other)
next
  case (2 now i l s rb t j) then show ?case by (auto simp: ob_begin_attempt_def intro: with_lease_other)
next
  case (3 now i l s rc t j)
  then have "ob_complete now i l s = (rc, t)" by simp
  from ob_complete_cases[OF this] show ?case using 3(2) with_lease_other by fastforce
next
  case (4 now i l rt s rr t j) then show ?case by (auto simp: ob_reschedule_def intro: with_lease_other)
next
  case (5 now i l k s rf t j) then show ?case by (auto simp: ob_fail_def intro: with_lease_other)
next
  case (6 now i l u s rl t)
  then show ?case by (auto simp: ob_renew_lease_def Let_def intro: with_lease_attempts)
next
  case (7 now i l s rb t) then show ?case using begin_counts[of now i l s rb t] by simp
next
  case (8 now i l s rc t)
  then have "ob_complete now i l s = (rc, t)" by simp
  from ob_complete_cases[OF this] show ?case
  proof
    assume "\<not> im_fail_next_complete s \<and> with_lease now i l (\<lambda>r. (Inr (), r\<lparr>ir_status := InCompleted\<rparr>)) s = (rc, t)"
    then show ?thesis by (auto intro: with_lease_attempts)
  qed simp
next
  case (9 now i l rt s rr t) then show ?case by (auto simp: ob_reschedule_def intro: with_lease_attempts)
next
  case (10 now i l k s rf t) then show ?case by (auto simp: ob_fail_def intro: with_lease_attempts)
next
  case (11 now i l u s l' t)
  then have "with_lease now i l (\<lambda>r. let renewed = l\<lparr>le_until := u\<rparr> in (Inr renewed, r\<lparr>ir_status := InClaimed renewed\<rparr>)) s = (Inr l', t)"
    by (simp add: ob_renew_lease_def)
  then show ?case by (cases rule: with_lease_cases) (auto simp: same_fence_def Let_def)
next
  case (12 s i l u rt k now)
  have "\<exists>e. fst (ob_complete now i l s) = Inl e" for now using ob_complete_fenced[OF 12] by blast
  then show ?case unfolding in_memory_store_ops ob_renew_lease_def ob_begin_attempt_def ob_reschedule_def ob_fail_def
    by (intro conjI with_lease_fenced[OF 12]) blast
qed

subsection \<open>The record after an execution\<close>

definition failed_record :: "outbox_failure_kind \<Rightarrow> in_memory_record \<Rightarrow> in_memory_record" where
  "failed_record kind r = r\<lparr>ir_last_failure := Some kind, ir_status := InFailed kind\<rparr>"

definition retried_record :: "environment \<Rightarrow> nat \<Rightarrow> nat \<Rightarrow> outbox_failure_kind \<Rightarrow> duration \<Rightarrow> in_memory_record \<Rightarrow> in_memory_record" where
  "retried_record env attempt max_attempts kind delay r =
    (if max_attempts \<le> attempt then failed_record FailExhausted r
     else r\<lparr>ir_request := (ir_request r)\<lparr>rq_available_at := time_after (en_time env AtRetry) delay\<rparr>,
            ir_last_failure := Some kind, ir_status := InPending\<rparr>)"

text \<open>
  The table: refused by the queue; out of attempts; or executed, then completed, retried later or
  failed for good.
\<close>

definition delivered :: "worker_settings \<Rightarrow> environment \<Rightarrow> claimed_outbox_request \<Rightarrow> outbox_lease
    \<Rightarrow> in_memory_record \<Rightarrow> in_memory_record" where
  "delivered ws env rq lease r = (case en_acquire env of
     Some err \<Rightarrow> if err \<in> {AcqQueueFull, AcqClosed, AcqSuperseded}
       then retried_record env (cl_attempt rq) (cl_max_attempts rq) FailSchedulerUnavailable (ws_retry_delay ws) r
       else failed_record FailPermanent r
   | None \<Rightarrow> if exhausted r then failed_record FailExhausted r
       else let n = ir_attempt r + 1; r1 = r\<lparr>ir_attempt := n\<rparr> in
         (case en_execute env (rq\<lparr>cl_attempt := n, cl_lease := lease\<rparr>) of
            None \<Rightarrow> r1\<lparr>ir_status := InCompleted\<rparr>
          | Some (ExecRetryAfter scope d) \<Rightarrow> retried_record env n (cl_max_attempts rq) FailRetryAfter d r1
          | Some ExecTransient \<Rightarrow> retried_record env n (cl_max_attempts rq) FailTransient (transient_backoff ws n) r1
          | Some ExecPermanent \<Rightarrow> failed_record FailPermanent r1))"

text \<open>Nothing disturbs the execution: no heartbeat is due, the lease outlives it, no injected fault.\<close>

definition undisturbed :: "environment \<Rightarrow> outbox_lease \<Rightarrow> in_memory_state \<Rightarrow> bool" where
  "undisturbed env lease s \<longleftrightarrow> (\<forall>g. en_ticks env g = [] \<and> en_time env g < le_until lease) \<and> \<not> im_fail_next_complete s"

definition owned :: "outbox_id \<Rightarrow> outbox_lease \<Rightarrow> bool \<Rightarrow> in_memory_record \<Rightarrow> in_memory_state execution \<Rightarrow> bool" where
  "owned i l0 calm r x \<longleftrightarrow> (\<exists>l'. hm_get (im_records (ex_store x)) i = Some (r\<lparr>ir_status := InClaimed l'\<rparr>)
     \<and> same_fence l' l0 \<and> same_fence (ex_lease x) l0 \<and> (calm \<longrightarrow> l' = l0 \<and> \<not> im_fail_next_complete (ex_store x)))"

abbreviation now_is :: "outbox_id \<Rightarrow> in_memory_record \<Rightarrow> in_memory_state execution \<Rightarrow> bool" where
  "now_is i r x \<equiv> hm_get (im_records (ex_store x)) i = Some r"

lemma owned_log: "owned i l0 calm r (x\<lparr>ex_log := l\<rparr>) = owned i l0 calm r x"
  by (simp add: owned_def)

lemma owned_heartbeat:
  assumes "calm \<longrightarrow> ticks = []"
  shows "ensures (owned i l0 calm r) (heartbeat in_memory_store i d ticks) (\<lambda>_. owned i l0 calm r) (\<lambda>_. \<not> calm)"
proof (cases calm)
  case True
  then show ?thesis using assms by (simp add: ensures_def pure_action_def)
next
  case False
  show ?thesis
  proof (rule ensures_heartbeat)
    fix now lease s and x :: "in_memory_state execution"
    assume o: "owned i l0 calm r x"
      and n: "st_renew in_memory_store now i (ex_lease x) (time_after now d) (ex_store x) = (Inr lease, s)"
    from n[unfolded in_memory_store_ops ob_renew_lease_def]
    show "owned i l0 calm r (x\<lparr>ex_store := s, ex_lease := lease\<rparr>)"
      by (cases rule: with_lease_cases) (use o False in \<open>auto simp: owned_def same_fence_def Let_def\<close>)
  qed (simp add: False)
qed

text \<open>A call under the lease, for what its record function makes of the record.\<close>

lemma owned_call:
  assumes "calm \<longrightarrow> ticks = [] \<and> now < le_until l0"
    and "\<And>x l a r' s'. owned i l0 calm r x \<Longrightarrow> same_fence l l0 \<Longrightarrow> (calm \<longrightarrow> l = l0) \<Longrightarrow> f (r\<lparr>ir_status := InClaimed l\<rparr>) = (Inr a, r')
      \<Longrightarrow> s' = (ex_store x)\<lparr>im_records := hm_insert i r' (im_records (ex_store x))\<rparr>
      \<Longrightarrow> Q a (x\<lparr>ex_store := s'\<rparr>)"
    and "\<And>r e. fst (f r) \<noteq> Inl e"
  shows "ensures (owned i l0 calm r) (drive_store in_memory_store i d ticks (\<lambda>lease. with_lease now i lease f)) Q (\<lambda>_. \<not> calm)"
proof (rule ensures_drive_store[OF owned_heartbeat])
  show "calm \<longrightarrow> ticks = []" using assms(1) by simp
next
  fix x y :: "in_memory_state execution" and a t
  assume o: "owned i l0 calm r x" "owned i l0 calm r y" and c: "with_lease now i (ex_lease x) f (ex_store y) = (Inr a, t)"
  from c show "Q a (y\<lparr>ex_store := t\<rparr>)"
  proof (cases rule: with_lease_cases)
    case (applied q q')
    then show ?thesis using o(2) assms(2)[OF o(2)] unfolding owned_def by auto
  qed simp_all
next
  fix x y :: "in_memory_state execution" and e t
  assume o: "owned i l0 calm r x" "owned i l0 calm r y" and c: "with_lease now i (ex_lease x) f (ex_store y) = (Inl e, t)"
  obtain l' where l': "hm_get (im_records (ex_store y)) i = Some (r\<lparr>ir_status := InClaimed l'\<rparr>)" "same_fence l' l0" "calm \<longrightarrow> l' = l0"
    using o(2) by (auto simp: owned_def)
  from c show "\<not> calm"
  proof (cases rule: with_lease_cases)
    case (fenced q)
    then have "\<not> lease_is_current now (InClaimed l') (ex_lease x)" using l'(1) by auto
    moreover have "same_fence l' (ex_lease x)" using l'(2) o(1) by (auto simp: owned_def same_fence_def)
    ultimately show ?thesis using l'(3) assms(1) by (auto simp: lease_is_current_def same_fence_def)
  next
    case (applied q q')
    then show ?thesis using assms(3)[of q e] by simp
  qed (use l' in simp)
qed

lemma owned_fail:
  assumes "undisturbed env l0 s0 = calm"
  shows "ensures (owned i l0 calm r) (finish_failed in_memory_store ws env i kind)
    (\<lambda>_. now_is i (failed_record kind r)) (\<lambda>_. \<not> calm)"
  unfolding finish_failed_def in_memory_store_ops ob_fail_def
  by (rule owned_call) (use assms in \<open>auto simp: undisturbed_def failed_record_def\<close>)

lemma owned_retry:
  assumes "undisturbed env l0 s0 = calm"
  shows "ensures (owned i l0 calm r) (retry_or_fail in_memory_store ws env i a m kind d)
    (\<lambda>_. now_is i (retried_record env a m kind d r)) (\<lambda>_. \<not> calm)"
proof (cases "m \<le> a")
  case True
  then show ?thesis using owned_fail[OF assms, of i r ws FailExhausted]
    by (simp add: retry_or_fail_def finish_failed_def retried_record_def)
next
  case False
  show ?thesis unfolding retry_or_fail_def in_memory_store_ops ob_reschedule_def Let_def
    using False by (simp only: if_False) (rule owned_call; use assms in \<open>auto simp: undisturbed_def retried_record_def\<close>)
qed

lemma owned_permit:
  assumes "undisturbed env l0 s0 = calm"
  shows "ensures (owned i l0 calm r) (complete_permit in_memory_store ws env i c) (\<lambda>_. owned i l0 calm r) (\<lambda>_. \<not> calm)"
  unfolding complete_permit_def
proof (rule ensures_and_then[OF owned_heartbeat])
  show "calm \<longrightarrow> en_ticks env AtPermit = []" using assms by (auto simp: undisturbed_def)
qed (auto simp: ensures_def emit_def owned_log)

lemma owned_complete:
  assumes "undisturbed env l0 s0 = calm"
  shows "ensures (owned i l0 calm r) (drive_store in_memory_store i d (en_ticks env AtFinish) (\<lambda>lease. ob_complete (en_time env AtFinish) i lease))
    (\<lambda>_. now_is i (r\<lparr>ir_status := InCompleted\<rparr>)) (\<lambda>_. \<not> calm)"
proof (rule ensures_drive_store[OF owned_heartbeat])
  show "calm \<longrightarrow> en_ticks env AtFinish = []" using assms by (auto simp: undisturbed_def)
next
  fix x y :: "in_memory_state execution" and a t
  assume o: "owned i l0 calm r x" "owned i l0 calm r y" and c: "ob_complete (en_time env AtFinish) i (ex_lease x) (ex_store y) = (Inr a, t)"
  then have "with_lease (en_time env AtFinish) i (ex_lease x) (\<lambda>r. (Inr (), r\<lparr>ir_status := InCompleted\<rparr>)) (ex_store y) = (Inr a, t)"
    using ob_complete_cases[OF c] by auto
  then show "now_is i (r\<lparr>ir_status := InCompleted\<rparr>) (y\<lparr>ex_store := t\<rparr>)"
    by (cases rule: with_lease_cases) (use o(2) in \<open>auto simp: owned_def\<close>)
next
  fix x y :: "in_memory_state execution" and e t
  assume o: "owned i l0 calm r x" "owned i l0 calm r y" and c: "ob_complete (en_time env AtFinish) i (ex_lease x) (ex_store y) = (Inl e, t)"
  obtain l' where l': "hm_get (im_records (ex_store y)) i = Some (r\<lparr>ir_status := InClaimed l'\<rparr>)" "same_fence l' l0"
    "calm \<longrightarrow> l' = l0 \<and> \<not> im_fail_next_complete (ex_store y)"
    using o(2) by (auto simp: owned_def)
  have "same_fence l' (ex_lease x)" using l'(2) o(1) by (auto simp: owned_def same_fence_def)
  then have cur: "calm \<Longrightarrow> lease_is_current (en_time env AtFinish) (InClaimed l') (ex_lease x)"
    using l'(3) assms by (auto simp: lease_is_current_def same_fence_def undisturbed_def)
  show "\<not> calm"
  proof
    assume calm: calm
    then have "ob_complete (en_time env AtFinish) i (ex_lease x) (ex_store y)
      = (Inr (), (ex_store y)\<lparr>im_records := hm_insert i ((r\<lparr>ir_status := InClaimed l'\<rparr>)\<lparr>ir_status := InCompleted\<rparr>) (im_records (ex_store y))\<rparr>)"
      using l'(1,3) cur[OF calm] by (simp add: ob_complete_def with_lease_def)
    with c show False by simp
  qed
qed

lemma status_attempt_commute: "r\<lparr>ir_status := st, ir_attempt := n\<rparr> = r\<lparr>ir_attempt := n, ir_status := st\<rparr>"
  by (cases r) simp

lemma owned_begin:
  assumes "undisturbed env l0 s0 = calm"
  shows "ensures (owned i l0 calm r) (drive_store in_memory_store i d (en_ticks env AtBegin) (\<lambda>lease. ob_begin_attempt (en_time env AtBegin) i lease))
    (\<lambda>a x. if exhausted r then a = StartExhausted \<and> owned i l0 calm r x
      else a = Started (ir_attempt r + 1) \<and> owned i l0 calm (r\<lparr>ir_attempt := ir_attempt r + 1\<rparr>) x) (\<lambda>_. \<not> calm)"
proof (rule ensures_drive_store[OF owned_heartbeat])
  show "calm \<longrightarrow> en_ticks env AtBegin = []" using assms by (auto simp: undisturbed_def)
next
  fix x y :: "in_memory_state execution" and a t
  assume o: "owned i l0 calm r x" "owned i l0 calm r y" and c: "ob_begin_attempt (en_time env AtBegin) i (ex_lease x) (ex_store y) = (Inr a, t)"
  from c[unfolded ob_begin_attempt_def]
  show "if exhausted r then a = StartExhausted \<and> owned i l0 calm r (y\<lparr>ex_store := t\<rparr>)
      else a = Started (ir_attempt r + 1) \<and> owned i l0 calm (r\<lparr>ir_attempt := ir_attempt r + 1\<rparr>) (y\<lparr>ex_store := t\<rparr>)"
    by (cases rule: with_lease_cases)
       (use o(2) in \<open>auto simp: owned_def exhausted_def status_attempt_commute split: if_splits\<close>)
next
  fix x y :: "in_memory_state execution" and e t
  assume o: "owned i l0 calm r x" "owned i l0 calm r y" and c: "ob_begin_attempt (en_time env AtBegin) i (ex_lease x) (ex_store y) = (Inl e, t)"
  obtain l' where l': "hm_get (im_records (ex_store y)) i = Some (r\<lparr>ir_status := InClaimed l'\<rparr>)" "same_fence l' l0" "calm \<longrightarrow> l' = l0"
    using o(2) by (auto simp: owned_def)
  have fence: "same_fence l' (ex_lease x)" using l'(2) o(1) by (auto simp: owned_def same_fence_def)
  from c[unfolded ob_begin_attempt_def] show "\<not> calm"
  proof (cases rule: with_lease_cases)
    case (fenced q)
    then show ?thesis using l' fence assms by (auto simp: lease_is_current_def same_fence_def undisturbed_def)
  next
    case (applied q q')
    then show ?thesis by (auto split: if_splits)
  qed (use l' in simp)
qed

definition outcome :: "worker_settings \<Rightarrow> environment \<Rightarrow> claimed_outbox_request \<Rightarrow> outbox_lease
    \<Rightarrow> in_memory_record \<Rightarrow> in_memory_state execution \<Rightarrow> bool" where
  "outcome ws env rq l0 r x \<longleftrightarrow> (\<exists>lease. same_fence lease l0 \<and> now_is (cl_id rq) (delivered ws env rq lease r) x)"

lemma owned_granted:
  assumes u: "undisturbed env l0 s0 = calm" and acq: "en_acquire env = None"
  shows "ensures (owned (cl_id rq) l0 calm r) (run_granted in_memory_store ws env rq) (\<lambda>_. outcome ws env rq l0 r) (\<lambda>_. \<not> calm)"
proof -
  let ?i = "cl_id rq" and ?n = "ir_attempt r + 1" and ?r1 = "r\<lparr>ir_attempt := ir_attempt r + 1\<rparr>"
  let ?R = "\<lambda>a x. if exhausted r then a = StartExhausted \<and> owned ?i l0 calm r x else a = Started ?n \<and> owned ?i l0 calm ?r1 x"
  have out: "outcome ws env rq l0 r x" if "exhausted r" "now_is ?i (failed_record FailExhausted r) x" for x
    using that acq by (auto simp: outcome_def delivered_def same_fence_def)
  have settle: "ensures (owned ?i l0 calm ?r1) (settle_execution in_memory_store ws env ?i ?n (cl_max_attempts rq)
      (en_execute env (rq\<lparr>cl_attempt := ?n, cl_lease := lease\<rparr>))) (\<lambda>_. outcome ws env rq l0 r) (\<lambda>_. \<not> calm)"
    if "\<not> exhausted r" "same_fence lease l0" for lease
  proof -
    have o: "now_is ?i (delivered ws env rq lease r) x \<Longrightarrow> outcome ws env rq l0 r x" for x
      using that(2) by (auto simp: outcome_def)
    let ?d = "delivered ws env rq lease r"
    note perm = ensures_and_then[OF owned_permit[OF u]]
    have "ensures (owned ?i l0 calm ?r1) (settle_execution in_memory_store ws env ?i ?n (cl_max_attempts rq)
        (en_execute env (rq\<lparr>cl_attempt := ?n, cl_lease := lease\<rparr>))) (\<lambda>_. now_is ?i ?d) (\<lambda>_. \<not> calm)"
      using that(1) perm[OF owned_complete[OF u]] perm[OF owned_retry[OF u]] perm[OF owned_fail[OF u]]
      by (auto simp: settle_execution_def delivered_def acq Let_def split: option.split outbox_execution_error.split)
    then show ?thesis by (rule ensures_weaken) (auto intro: o)
  qed
  have "ensures (?R a) (case a of
         StartExhausted \<Rightarrow> and_then (complete_permit in_memory_store ws env ?i NoRequest) (\<lambda>_. finish_failed in_memory_store ws env ?i FailExhausted)
       | Started attempt \<Rightarrow> (\<lambda>x.
           let rq1 = rq\<lparr>cl_attempt := attempt, cl_lease := ex_lease x\<rparr>
           in and_then (emit PermitStarted) (\<lambda>_. and_then (emit (Executed rq1)) (\<lambda>_.
                and_then (heartbeat in_memory_store ?i (ws_lease_for ws) (en_ticks env AtExecute)) (\<lambda>_.
                  settle_execution in_memory_store ws env ?i attempt (cl_max_attempts rq) (en_execute env rq1)))) x))
      (\<lambda>_. outcome ws env rq l0 r) (\<lambda>_. \<not> calm)" for a
  proof (cases a)
    case StartExhausted
    have fin: "ensures (owned ?i l0 calm r) (and_then (complete_permit in_memory_store ws env ?i NoRequest)
        (\<lambda>_. finish_failed in_memory_store ws env ?i FailExhausted)) (\<lambda>_. now_is ?i (failed_record FailExhausted r)) (\<lambda>_. \<not> calm)"
      by (rule ensures_and_then[OF owned_permit[OF u] owned_fail[OF u]])
    show ?thesis unfolding StartExhausted outbox_attempt_start.case
    proof (cases "exhausted r")
      case True
      show "ensures (?R StartExhausted) (and_then (complete_permit in_memory_store ws env ?i NoRequest)
        (\<lambda>_. finish_failed in_memory_store ws env ?i FailExhausted)) (\<lambda>_. outcome ws env rq l0 r) (\<lambda>_. \<not> calm)"
        by (rule ensures_weaken[OF fin]) (use True out in simp_all)
    qed (simp add: ensures_def)
  next
    case (Started n)
    show ?thesis
    proof (cases "\<not> exhausted r \<and> n = ?n")
      case False
      then show ?thesis by (auto simp: ensures_def Started)
    next
      case True
      have beat: "calm \<longrightarrow> en_ticks env AtExecute = []" using u by (auto simp: undisturbed_def)
      have log: "ensures (owned ?i l0 calm ?r1) (emit ev) (\<lambda>_. owned ?i l0 calm ?r1) (\<lambda>_. \<not> calm)" for ev
        by (auto simp: ensures_def emit_def owned_log)
      have go: "ensures (owned ?i l0 calm ?r1) (and_then (emit PermitStarted) (\<lambda>_. and_then (emit (Executed rq1)) (\<lambda>_.
          and_then (heartbeat in_memory_store ?i (ws_lease_for ws) (en_ticks env AtExecute)) (\<lambda>_.
            settle_execution in_memory_store ws env ?i ?n (cl_max_attempts rq) (en_execute env rq1)))))
          (\<lambda>_. outcome ws env rq l0 r) (\<lambda>_. \<not> calm)"
        if "rq1 = rq\<lparr>cl_attempt := ?n, cl_lease := lease\<rparr>" "same_fence lease l0" for rq1 lease
        unfolding that(1) using True that(2)
        by (intro ensures_and_then[OF log] ensures_and_then[OF owned_heartbeat[OF beat]] settle) simp_all
      show ?thesis unfolding Started outbox_attempt_start.case Let_def
      proof (rule ensures_lease)
        fix lease
        show "ensures (\<lambda>x. ?R (Started n) x \<and> ex_lease x = lease) (and_then (emit PermitStarted)
          (\<lambda>_. and_then (emit (Executed (rq\<lparr>cl_attempt := n, cl_lease := lease\<rparr>)))
           (\<lambda>_. and_then (heartbeat in_memory_store ?i (ws_lease_for ws) (en_ticks env AtExecute))
            (\<lambda>_. settle_execution in_memory_store ws env ?i n (cl_max_attempts rq)
                  (en_execute env (rq\<lparr>cl_attempt := n, cl_lease := lease\<rparr>)))))) (\<lambda>_. outcome ws env rq l0 r) (\<lambda>_. \<not> calm)"
        proof (cases "same_fence lease l0")
          case fence: True
          from go[OF refl fence] show ?thesis using True by (auto intro: ensures_weaken)
        next
          case False
          then show ?thesis using True by (auto simp: ensures_def owned_def)
        qed
      qed
    qed
  qed
  then show ?thesis unfolding run_granted_def in_memory_store_ops
    by (rule ensures_and_then[OF owned_begin[OF u]])
qed

lemma owned_execution:
  assumes u: "undisturbed env l0 s0 = calm"
  shows "ensures (owned (cl_id rq) l0 calm r) (and_then (heartbeat in_memory_store (cl_id rq) (ws_lease_for ws) (en_ticks env AtAcquire))
      (\<lambda>_. case en_acquire env of
         None \<Rightarrow> run_granted in_memory_store ws env rq
       | Some err \<Rightarrow>
           if err \<in> {AcqQueueFull, AcqClosed, AcqSuperseded} then
             retry_or_fail in_memory_store ws env (cl_id rq) (cl_attempt rq) (cl_max_attempts rq) FailSchedulerUnavailable (ws_retry_delay ws)
           else finish_failed in_memory_store ws env (cl_id rq) FailPermanent)) (\<lambda>_. outcome ws env rq l0 r) (\<lambda>_. \<not> calm)"
proof (rule ensures_and_then[OF owned_heartbeat])
  show "calm \<longrightarrow> en_ticks env AtAcquire = []" using u by (auto simp: undisturbed_def)
  show "ensures (owned (cl_id rq) l0 calm r) (case en_acquire env of
         None \<Rightarrow> run_granted in_memory_store ws env rq
       | Some err \<Rightarrow>
           if err \<in> {AcqQueueFull, AcqClosed, AcqSuperseded} then
             retry_or_fail in_memory_store ws env (cl_id rq) (cl_attempt rq) (cl_max_attempts rq) FailSchedulerUnavailable (ws_retry_delay ws)
           else finish_failed in_memory_store ws env (cl_id rq) FailPermanent) (\<lambda>_. outcome ws env rq l0 r) (\<lambda>_. \<not> calm)"
  proof (cases "en_acquire env")
    case None
    then show ?thesis using owned_granted[OF u None] by simp
  next
    case (Some err)
    have o: "now_is (cl_id rq) (delivered ws env rq l0 r) x \<Longrightarrow> outcome ws env rq l0 r x" for x
      by (auto simp: outcome_def same_fence_def)
    show ?thesis unfolding Some option.case
      by (rule ensures_weaken[of "owned (cl_id rq) l0 calm r" _ "\<lambda>_. now_is (cl_id rq) (delivered ws env rq l0 r)"])
         (use o owned_retry[OF u] owned_fail[OF u] in \<open>auto simp: delivered_def Some\<close>)
  qed
qed

text \<open>
  C27. What an execution does to its record: an execution that ends without a store error leaves the
  record of its claim in exactly the state of the table (completed, failed for good, or pending again
  with the delay of its failure), and it does end so if no heartbeat is due, the lease outlives it
  and no fault is injected.
\<close>

theorem execution_outcome:
  assumes "hm_get (im_records s) (cl_id rq) = Some r" and "ir_status r = InClaimed (cl_lease rq)"
    and "execute_claimed in_memory_store ws env rq s = (res, x)"
  shows "(res = Inr () \<longrightarrow> (\<exists>lease. same_fence lease (cl_lease rq)
      \<and> hm_get (im_records (ex_store x)) (cl_id rq) = Some (delivered ws env rq lease r)))
    \<and> (undisturbed env (cl_lease rq) s \<longrightarrow> res = Inr ())"
proof -
  let ?x = "\<lparr>ex_store = s, ex_lease = cl_lease rq, ex_log = []\<rparr>" and ?calm = "undisturbed env (cl_lease rq) s"
  have "r = r\<lparr>ir_status := InClaimed (cl_lease rq)\<rparr>" using assms(2) by (cases r) simp
  then have "owned (cl_id rq) (cl_lease rq) ?calm r ?x"
    using assms(1) by (auto simp: owned_def same_fence_def undisturbed_def)
  from ensures_run[OF owned_execution[OF refl] this assms(3)[unfolded execute_claimed_def]]
  show ?thesis by (auto simp: outcome_def split: sum.splits)
qed

definition demo_env :: environment where
  "demo_env = \<lparr>en_ticks = (\<lambda>_. []), en_time = (\<lambda>_. 25), en_acquire = None, en_execute = (\<lambda>_. Some (ExecRetryAfter ScopeGlobal 7))\<rparr>"

definition demo_claim :: claimed_outbox_request where
  "demo_claim = claim_of 0 \<lparr>ir_request = demo_request, ir_attempt = 0, ir_claim_count = 1,
     ir_status = InClaimed demo_lease, ir_last_failure = None\<rparr> demo_lease"

lemma demo_claimed_records:
  "im_records (demo_claimed 7 20 demo_enqueued)
    = [(0, \<lparr>ir_request = demo_request, ir_attempt = 0, ir_claim_count = 1, ir_status = InClaimed demo_lease, ir_last_failure = None\<rparr>)]
   \<and> \<not> im_fail_next_complete (demo_claimed 7 20 demo_enqueued)"
  by (simp add: demo_claimed_def ob_claim_due_def demo_enqueued_def ob_enqueue_def in_memory_default_def Let_def due_ids_def
      is_due_def demo_request_def hm_map_values_def expire_record_def exhausted_def time_after_def checked_add_time_def demo_lease_def)

theorem execution_outcome_witness:
  "\<exists>x. execute_claimed in_memory_store worker_settings_default demo_env demo_claim (demo_claimed 7 20 demo_enqueued) = (Inr (), x)
    \<and> map_option (\<lambda>r. (ir_status r, ir_attempt r, rq_available_at (ir_request r))) (hm_get (im_records (ex_store x)) 0)
        = Some (InPending, 1, 32)"
proof -
  let ?s = "demo_claimed 7 20 demo_enqueued"
  obtain res x where e: "execute_claimed in_memory_store worker_settings_default demo_env demo_claim ?s = (res, x)" by fastforce
  have r: "hm_get (im_records ?s) (cl_id demo_claim) = Some \<lparr>ir_request = demo_request, ir_attempt = 0, ir_claim_count = 1,
      ir_status = InClaimed demo_lease, ir_last_failure = None\<rparr>"
    using demo_claimed_records by (simp add: demo_claim_def)
  have "undisturbed demo_env (cl_lease demo_claim) ?s"
    using demo_claimed_records by (simp add: undisturbed_def demo_env_def demo_claim_def demo_lease_def)
  with execution_outcome[OF r _ e] have "res = Inr ()"
    and "\<exists>lease. hm_get (im_records (ex_store x)) 0 = Some (delivered worker_settings_default demo_env demo_claim lease
      \<lparr>ir_request = demo_request, ir_attempt = 0, ir_claim_count = 1, ir_status = InClaimed demo_lease, ir_last_failure = None\<rparr>)"
    by (auto simp: demo_claim_def)
  then show ?thesis using e
    by (auto simp: delivered_def demo_env_def exhausted_def demo_request_def retried_record_def demo_claim_def claim_of_def
        time_after_def checked_add_time_def)
qed

text \<open>
  C28. The executor runs exactly once per counted attempt and executions are independent: whatever
  an execution returns, and whatever errors or renewals happen on the way, the attempt counter of its
  record grows by the number of runs of the executor, and no other record changes.
\<close>

theorem executor_runs_are_counted:
  assumes "execute_claimed in_memory_store ws env rq s = (res, x)"
  shows "attempts_of (hm_get (im_records (ex_store x)) (cl_id rq))
      = attempts_of (hm_get (im_records s) (cl_id rq)) + length (filter is_executed (ex_log x))
    \<and> (\<forall>j. j \<noteq> cl_id rq \<longrightarrow> hm_get (im_records (ex_store x)) j = hm_get (im_records s) j)"
  using memory.accounted_execution[OF assms] by (simp add: memory.accounted_def executions_def)

theorem executor_runs_are_counted_witness:
  "attempts_of (hm_get (im_records (ex_store (snd (execute_claimed in_memory_store worker_settings_default demo_env demo_claim
      (demo_claimed 7 20 demo_enqueued))))) 0)
    = length (filter is_executed (ex_log (snd (execute_claimed in_memory_store worker_settings_default demo_env demo_claim
      (demo_claimed 7 20 demo_enqueued)))))"
proof -
  obtain res x where e: "execute_claimed in_memory_store worker_settings_default demo_env demo_claim (demo_claimed 7 20 demo_enqueued) = (res, x)"
    by fastforce
  have "attempts_of (hm_get (im_records (demo_claimed 7 20 demo_enqueued)) 0) = 0"
    using demo_claimed_records by (simp add: attempts_of_def)
  moreover have "cl_id demo_claim = 0" by (simp add: demo_claim_def)
  ultimately show ?thesis using executor_runs_are_counted[OF e] unfolding e snd_conv by simp
qed



end
