(* ===== verification/Limiter.thy ===== *)
theory Limiter
  imports Prelude
begin

text \<open>
  The in-process rate limiter shared by drafters (\<open>crates/teloxide/src/drafter/limiter.rs\<close>): a
  waiter registers, polls until it is granted, and a grant pushes the chat's and the bot's next slot
  into the future.  Every operation runs under the mutex at one reading of the clock; the waits
  between two polls are steps of the transition system below.
\<close>

subsection \<open>Data\<close>

type_synonym chat_id = int

datatype drafter_rate_limit_scope = LimitChat chat_id | LimitGlobal

datatype drafter_priority = RefreshPreview | ChangedPreview | SegmentCommit | Final

text \<open>The derived order of the Rust enum: later constructors are greater.\<close>

fun drafter_rank :: "drafter_priority \<Rightarrow> nat" where
  "drafter_rank RefreshPreview = 0"
| "drafter_rank ChangedPreview = 1"
| "drafter_rank SegmentCommit = 2"
| "drafter_rank Final = 3"

instantiation drafter_priority :: linorder
begin

definition less_eq_drafter_priority :: "drafter_priority \<Rightarrow> drafter_priority \<Rightarrow> bool" where
  "less_eq_drafter_priority a b \<longleftrightarrow> drafter_rank a \<le> drafter_rank b"

definition less_drafter_priority :: "drafter_priority \<Rightarrow> drafter_priority \<Rightarrow> bool" where
  "less_drafter_priority a b \<longleftrightarrow> drafter_rank a < drafter_rank b"

instance
proof
  have inj: "drafter_rank a = drafter_rank b \<Longrightarrow> a = b" for a b by (cases a; cases b) simp_all
  show "a \<le> b \<Longrightarrow> b \<le> a \<Longrightarrow> a = b" for a b :: drafter_priority
    by (auto simp: less_eq_drafter_priority_def intro: inj)
qed (auto simp: less_eq_drafter_priority_def less_drafter_priority_def)

end

record limiter_waiter =
  wt_id :: nat
  wt_chat :: chat_id
  wt_priority :: drafter_priority

record limiter_state =
  lm_global_next :: "instant option"
  lm_global_penalty :: "instant option"
  lm_chat_next :: "(chat_id, instant) hmap"
  lm_chat_penalty :: "(chat_id, instant) hmap"
  lm_next_id :: nat
  lm_operations :: nat
  lm_waiters :: "limiter_waiter list"

definition limiter_default :: limiter_state where
  "limiter_default = \<lparr>lm_global_next = None, lm_global_penalty = None, lm_chat_next = [], lm_chat_penalty = [],
     lm_next_id = 0, lm_operations = 0, lm_waiters = []\<rparr>"

datatype acquire_wait = WaitUntil instant | YieldToPriority | Acquired | NotWaiting

subsection \<open>Operations\<close>

definition unwrap_or :: "'a option \<Rightarrow> 'a \<Rightarrow> 'a" where
  "unwrap_or x d = (case x of Some a \<Rightarrow> a | None \<Rightarrow> d)"

definition record_operation :: "instant \<Rightarrow> limiter_state \<Rightarrow> limiter_state" where
  "record_operation now s =
    (let n = (lm_operations s + 1) mod 2 ^ 64; s1 = s\<lparr>lm_operations := n\<rparr> in
     if n mod 512 = 0 \<or> 4096 < length (lm_chat_next s) \<or> 4096 < length (lm_chat_penalty s)
     then s1\<lparr>lm_chat_next := hm_retain (\<lambda>_ t. now < t) (lm_chat_next s),
             lm_chat_penalty := hm_retain (\<lambda>_ t. now < t) (lm_chat_penalty s)\<rparr>
     else s1)"

definition availability_deadline :: "chat_id \<Rightarrow> instant \<Rightarrow> limiter_state \<Rightarrow> instant" where
  "availability_deadline chat now s =
    max (max (unwrap_or (hm_get (lm_chat_next s) chat) now) (unwrap_or (hm_get (lm_chat_penalty s) chat) now))
        (max (unwrap_or (lm_global_next s) now) (unwrap_or (lm_global_penalty s) now))"

text \<open>The first critical section of \<open>acquire\<close>: the waiter's id and the registered waiter.\<close>

definition register_waiter :: "chat_id \<Rightarrow> drafter_priority \<Rightarrow> instant \<Rightarrow> limiter_state \<Rightarrow> nat \<times> limiter_state" where
  "register_waiter chat prio now s =
    (let s1 = record_operation now s; i = lm_next_id s1 in
     (i, s1\<lparr>lm_next_id := (i + 1) mod 2 ^ 64,
            lm_waiters := lm_waiters s1 @ [\<lparr>wt_id = i, wt_chat = chat, wt_priority = prio\<rparr>]\<rparr>))"

definition precedes :: "limiter_waiter \<Rightarrow> limiter_waiter \<Rightarrow> bool" where
  "precedes other w \<longleftrightarrow> wt_id other \<noteq> wt_id w \<and>
     (wt_priority w < wt_priority other \<or> wt_priority other = wt_priority w \<and> wt_id other < wt_id w)"

text \<open>One turn of the loop of \<open>acquire\<close>.\<close>

definition poll_waiter :: "duration \<Rightarrow> duration \<Rightarrow> nat \<Rightarrow> chat_id \<Rightarrow> instant \<Rightarrow> limiter_state
    \<Rightarrow> acquire_wait \<times> limiter_state" where
  "poll_waiter per_chat global i chat now s =
    (case find (\<lambda>w. wt_id w = i) (lm_waiters s) of
       None \<Rightarrow> (NotWaiting, s)
     | Some current \<Rightarrow>
         let own_deadline = availability_deadline (wt_chat current) now s;
             has_priority_waiter = list_ex (\<lambda>other. precedes other current
               \<and> availability_deadline (wt_chat other) now s \<le> now) (lm_waiters s)
         in if \<not> has_priority_waiter \<and> own_deadline \<le> now then
              (Acquired, s\<lparr>lm_waiters := filter (\<lambda>w. wt_id w \<noteq> i) (lm_waiters s),
                 lm_chat_next := hm_insert chat (now + per_chat) (lm_chat_next s),
                 lm_global_next := Some (now + global)\<rparr>)
            else if has_priority_waiter \<and> own_deadline \<le> now then (YieldToPriority, s)
            else (WaitUntil own_deadline, s))"

text \<open>Dropping an \<open>acquire\<close> that was not granted.\<close>

definition drop_waiter :: "nat \<Rightarrow> limiter_state \<Rightarrow> limiter_state" where
  "drop_waiter i s = s\<lparr>lm_waiters := filter (\<lambda>w. wt_id w \<noteq> i) (lm_waiters s)\<rparr>"

definition limiter_penalize :: "drafter_rate_limit_scope \<Rightarrow> duration \<Rightarrow> instant \<Rightarrow> limiter_state \<Rightarrow> limiter_state" where
  "limiter_penalize scope retry_after now s =
    (let deadline = now + retry_after; s1 = record_operation now s in
     case scope of
       LimitGlobal \<Rightarrow> s1\<lparr>lm_global_penalty := Some (max (unwrap_or (lm_global_penalty s1) deadline) deadline)\<rparr>
     | LimitChat chat \<Rightarrow> s1\<lparr>lm_chat_penalty := hm_insert chat
           (max (unwrap_or (hm_get (lm_chat_penalty s1) chat) deadline) deadline) (lm_chat_penalty s1)\<rparr>)"

subsection \<open>Pruning is invisible\<close>

lemma retain_later:
  fixes m :: "('k, instant) hmap"
  assumes "hm_ok m" and "now \<le> t"
  shows "unwrap_or (hm_get (hm_retain (\<lambda>_ d. now < d) m) k) t \<le> t \<longleftrightarrow> unwrap_or (hm_get m k) t \<le> t"
  using assms(2) by (auto simp: hm_get_retain[OF assms(1)] unwrap_or_def split: option.split)

lemma available_iff:
  "availability_deadline chat t s \<le> t \<longleftrightarrow>
     unwrap_or (hm_get (lm_chat_next s) chat) t \<le> t \<and> unwrap_or (hm_get (lm_chat_penalty s) chat) t \<le> t
     \<and> unwrap_or (lm_global_next s) t \<le> t \<and> unwrap_or (lm_global_penalty s) t \<le> t"
  by (simp add: availability_deadline_def)

lemma record_operation_cases:
  obtains (kept) "lm_chat_next (record_operation now s) = lm_chat_next s"
      "lm_chat_penalty (record_operation now s) = lm_chat_penalty s"
  | (pruned) "lm_chat_next (record_operation now s) = hm_retain (\<lambda>_ t. now < t) (lm_chat_next s)"
      "lm_chat_penalty (record_operation now s) = hm_retain (\<lambda>_ t. now < t) (lm_chat_penalty s)"
proof (cases "(lm_operations s + 1) mod 2 ^ 64 mod 512 = 0 \<or> 4096 < length (lm_chat_next s) \<or> 4096 < length (lm_chat_penalty s)")
  case True
  then show ?thesis using pruned by (simp only: record_operation_def Let_def if_True) simp
next
  case False
  then show ?thesis using kept by (simp only: record_operation_def Let_def if_False) simp
qed

lemma record_operation_fields [simp]:
  "lm_global_next (record_operation now s) = lm_global_next s"
  "lm_global_penalty (record_operation now s) = lm_global_penalty s"
  "lm_next_id (record_operation now s) = lm_next_id s"
  "lm_waiters (record_operation now s) = lm_waiters s"
  by (simp_all add: record_operation_def Let_def)

definition limiter_ok :: "limiter_state \<Rightarrow> bool" where
  "limiter_ok s \<longleftrightarrow> hm_ok (lm_chat_next s) \<and> hm_ok (lm_chat_penalty s)"

text \<open>
  Forgetting expired entries never changes an answer: after any operation's housekeeping, at that
  time or later, every chat is available exactly when it was before.
\<close>

theorem housekeeping_is_invisible:
  assumes "limiter_ok s" and "now \<le> t"
  shows "availability_deadline chat t (record_operation now s) \<le> t \<longleftrightarrow> availability_deadline chat t s \<le> t"
proof -
  have "hm_ok (lm_chat_next s)" "hm_ok (lm_chat_penalty s)" using assms(1) by (simp_all add: limiter_ok_def)
  note later = retain_later[OF this(1) assms(2)] retain_later[OF this(2) assms(2)]
  show ?thesis unfolding available_iff record_operation_fields
    by (cases rule: record_operation_cases[of now s]) (simp_all add: later)
qed

theorem housekeeping_is_invisible_witness:
  "availability_deadline 7 9 (record_operation 9 (limiter_default\<lparr>lm_operations := 511, lm_chat_next := [(7, 8)]\<rparr>)) \<le> 9"
  using housekeeping_is_invisible[of "limiter_default\<lparr>lm_operations := 511, lm_chat_next := [(7, 8)]\<rparr>" 9 9 7]
  by (simp add: limiter_ok_def limiter_default_def availability_deadline_def unwrap_or_def)

end
