(* ===== verification/Limiter_Claims.thy ===== *)
theory Limiter_Claims
  imports Limiter
begin

text \<open>
  The limiter as a transition system with a clock that only advances, a log of the grants and a log
  of the reported penalties, and what it promises over every run.
\<close>

record limiter_world =
  lw_clock :: instant
  lw_state :: limiter_state
  lw_grants :: "(instant \<times> chat_id) list"
  lw_penalties :: "(drafter_rate_limit_scope \<times> instant) list"

inductive limiter_step :: "duration \<Rightarrow> duration \<Rightarrow> limiter_world \<Rightarrow> limiter_world \<Rightarrow> bool" for per_chat global where
  tick: "lw_clock x \<le> t \<Longrightarrow> limiter_step per_chat global x (x\<lparr>lw_clock := t\<rparr>)"
| register: "register_waiter chat prio (lw_clock x) (lw_state x) = (i, s) \<Longrightarrow> limiter_step per_chat global x (x\<lparr>lw_state := s\<rparr>)"
| grant: "poll_waiter per_chat global i chat (lw_clock x) (lw_state x) = (Acquired, s)
    \<Longrightarrow> find (\<lambda>w. wt_id w = i) (lm_waiters (lw_state x)) = Some w \<Longrightarrow> wt_chat w = chat
    \<Longrightarrow> limiter_step per_chat global x (x\<lparr>lw_state := s, lw_grants := (lw_clock x, chat) # lw_grants x\<rparr>)"
| wait: "poll_waiter per_chat global i chat (lw_clock x) (lw_state x) = (res, s) \<Longrightarrow> res \<noteq> Acquired
    \<Longrightarrow> limiter_step per_chat global x (x\<lparr>lw_state := s\<rparr>)"
| drop: "limiter_step per_chat global x (x\<lparr>lw_state := drop_waiter i (lw_state x)\<rparr>)"
| penalize: "limiter_step per_chat global x (x\<lparr>lw_state := limiter_penalize scope d (lw_clock x) (lw_state x),
    lw_penalties := (scope, lw_clock x + d) # lw_penalties x\<rparr>)"

definition limiter_init :: "limiter_world \<Rightarrow> bool" where
  "limiter_init x \<longleftrightarrow> lw_state x = limiter_default \<and> lw_grants x = [] \<and> lw_penalties x = []"

interpretation limiter: transition_system limiter_init "limiter_step per_chat global" for per_chat global .

subsection \<open>Slots and penalties are remembered while they matter\<close>

text \<open>A deadline is remembered, or it has passed.\<close>

definition covers :: "instant option \<Rightarrow> instant \<Rightarrow> instant \<Rightarrow> bool" where
  "covers m clock until \<longleftrightarrow> until \<le> clock \<or> (\<exists>d. m = Some d \<and> until \<le> d)"

lemma covers_later: "covers m c u \<Longrightarrow> c \<le> c' \<Longrightarrow> covers m c' u"
  by (auto simp: covers_def)

lemma covers_available: "covers m c u \<Longrightarrow> unwrap_or m c \<le> c \<Longrightarrow> u \<le> c"
  by (auto simp: covers_def unwrap_or_def)

lemma covers_retain:
  assumes "hm_ok m"
  shows "covers (hm_get (hm_retain (\<lambda>_ t. c < t) m) k) c u = covers (hm_get m k) c u"
  by (auto simp: covers_def hm_get_retain[OF assms] split: option.splits)

definition penalty_memory :: "drafter_rate_limit_scope \<Rightarrow> limiter_state \<Rightarrow> instant option" where
  "penalty_memory scope s = (case scope of LimitGlobal \<Rightarrow> lm_global_penalty s | LimitChat c \<Rightarrow> hm_get (lm_chat_penalty s) c)"

lemma penalty_memory_simps [simp]:
  "penalty_memory LimitGlobal s = lm_global_penalty s" "penalty_memory (LimitChat c) s = hm_get (lm_chat_penalty s) c"
  by (simp_all add: penalty_memory_def)

lemma penalty_memory_cong:
  "lm_global_penalty t = lm_global_penalty s \<Longrightarrow> lm_chat_penalty t = lm_chat_penalty s \<Longrightarrow> penalty_memory sc t = penalty_memory sc s"
  by (cases sc) simp_all

definition limiter_inv :: "duration \<Rightarrow> duration \<Rightarrow> limiter_world \<Rightarrow> bool" where
  "limiter_inv p g x \<longleftrightarrow> limiter_ok (lw_state x)
     \<and> (\<forall>(t, c)\<in>set (lw_grants x). covers (hm_get (lm_chat_next (lw_state x)) c) (lw_clock x) (t + p)
          \<and> covers (lm_global_next (lw_state x)) (lw_clock x) (t + g))
     \<and> (\<forall>(sc, u)\<in>set (lw_penalties x). covers (penalty_memory sc (lw_state x)) (lw_clock x) u)
     \<and> sorted_wrt (\<lambda>(t, c) (t', c'). t' + g \<le> t \<and> (c' = c \<longrightarrow> t' + p \<le> t)) (lw_grants x)"

lemma record_operation_ok: "limiter_ok s \<Longrightarrow> limiter_ok (record_operation now s)"
  by (cases rule: record_operation_cases[of now s]) (simp_all add: limiter_ok_def)

lemma record_operation_covers:
  assumes "limiter_ok s"
  shows "covers (hm_get (lm_chat_next (record_operation c s)) k) c u = covers (hm_get (lm_chat_next s) k) c u"
    and "covers (penalty_memory sc (record_operation c s)) c u = covers (penalty_memory sc s) c u"
proof -
  have ok: "hm_ok (lm_chat_next s)" "hm_ok (lm_chat_penalty s)" using assms by (simp_all add: limiter_ok_def)
  note ret = covers_retain[OF ok(1)] covers_retain[OF ok(2)]
  show "covers (hm_get (lm_chat_next (record_operation c s)) k) c u = covers (hm_get (lm_chat_next s) k) c u"
    by (cases rule: record_operation_cases[of c s]) (simp_all add: ret)
  show "covers (penalty_memory sc (record_operation c s)) c u = covers (penalty_memory sc s) c u"
    by (cases rule: record_operation_cases[of c s]) (simp_all add: ret penalty_memory_def split: drafter_rate_limit_scope.split)
qed

text \<open>A state change that forgets nothing keeps the invariant.\<close>

definition forgets_nothing :: "instant \<Rightarrow> limiter_state \<Rightarrow> limiter_state \<Rightarrow> bool" where
  "forgets_nothing c s t \<longleftrightarrow> limiter_ok t
     \<and> (\<forall>k u. covers (hm_get (lm_chat_next s) k) c u \<longrightarrow> covers (hm_get (lm_chat_next t) k) c u)
     \<and> (\<forall>u. covers (lm_global_next s) c u \<longrightarrow> covers (lm_global_next t) c u)
     \<and> (\<forall>sc u. covers (penalty_memory sc s) c u \<longrightarrow> covers (penalty_memory sc t) c u)"

lemma limiter_inv_keep:
  assumes "limiter_inv p g x" and "forgets_nothing (lw_clock x) (lw_state x) t"
  shows "limiter_inv p g (x\<lparr>lw_state := t\<rparr>)"
  using assms unfolding limiter_inv_def forgets_nothing_def by auto

lemma register_forgets:
  assumes "limiter_ok s" and "register_waiter chat prio c s = (i, t)"
  shows "forgets_nothing c s t"
proof -
  let ?s = "record_operation c s"
  have "lm_chat_next t = lm_chat_next ?s" "lm_global_next t = lm_global_next s"
    and pen: "lm_global_penalty t = lm_global_penalty ?s" "lm_chat_penalty t = lm_chat_penalty ?s"
    using assms(2) by (auto simp: register_waiter_def Let_def)
  moreover have "limiter_ok t" using record_operation_ok[OF assms(1), of c] calculation by (simp add: limiter_ok_def)
  ultimately show ?thesis using record_operation_covers[OF assms(1)] penalty_memory_cong[OF pen]
    by (simp add: forgets_nothing_def)
qed

lemma poll_cases:
  assumes "poll_waiter p g i chat now s = (res, t)"
  obtains (acquired) w where "find (\<lambda>w. wt_id w = i) (lm_waiters s) = Some w" "res = Acquired"
      "availability_deadline (wt_chat w) now s \<le> now"
      "\<not> list_ex (\<lambda>other. precedes other w \<and> availability_deadline (wt_chat other) now s \<le> now) (lm_waiters s)"
      "t = s\<lparr>lm_waiters := filter (\<lambda>w. wt_id w \<noteq> i) (lm_waiters s),
             lm_chat_next := hm_insert chat (now + p) (lm_chat_next s), lm_global_next := Some (now + g)\<rparr>"
  | (waiting) "res \<noteq> Acquired" "t = s"
proof (cases "find (\<lambda>w. wt_id w = i) (lm_waiters s)")
  case None
  then show ?thesis using waiting assms by (simp add: poll_waiter_def)
next
  case (Some w)
  let ?has = "list_ex (\<lambda>other. precedes other w \<and> availability_deadline (wt_chat other) now s \<le> now) (lm_waiters s)"
  let ?own = "availability_deadline (wt_chat w) now s"
  show ?thesis
  proof (cases "\<not> ?has \<and> ?own \<le> now")
    case True
    have "(res, t) = (Acquired, s\<lparr>lm_waiters := filter (\<lambda>w. wt_id w \<noteq> i) (lm_waiters s),
        lm_chat_next := hm_insert chat (now + p) (lm_chat_next s), lm_global_next := Some (now + g)\<rparr>)"
      using assms True unfolding poll_waiter_def Some option.case Let_def by simp
    then show ?thesis using acquired[OF Some] True by blast
  next
    case False
    then have "t = s \<and> res \<noteq> Acquired"
      using assms unfolding poll_waiter_def Some option.case Let_def by (auto split: if_splits)
    then show ?thesis using waiting by blast
  qed
qed

lemma forgets_refl: "limiter_ok s \<Longrightarrow> forgets_nothing c s s"
  by (simp add: forgets_nothing_def)

lemma penalize_forgets:
  assumes "limiter_ok s"
  shows "forgets_nothing c s (limiter_penalize scope d c s)"
    and "covers (penalty_memory scope (limiter_penalize scope d c s)) c (c + d)"
proof -
  let ?s = "record_operation c s" and ?t = "limiter_penalize scope d c s"
  have "covers (penalty_memory sc ?s) c u \<Longrightarrow> covers (penalty_memory sc ?t) c u" for sc u
    by (cases scope; cases sc)
       (auto simp: limiter_penalize_def Let_def penalty_memory_def covers_def unwrap_or_def)
  moreover have "lm_chat_next ?t = lm_chat_next ?s" "lm_global_next ?t = lm_global_next s" "limiter_ok ?t"
    using record_operation_ok[OF assms]
    by (auto simp: limiter_penalize_def Let_def limiter_ok_def split: drafter_rate_limit_scope.split)
  ultimately show "forgets_nothing c s ?t"
    using record_operation_covers[OF assms] by (simp add: forgets_nothing_def)
  show "covers (penalty_memory scope ?t) c (c + d)"
    by (cases scope) (auto simp: limiter_penalize_def Let_def penalty_memory_def covers_def)
qed

lemma available_memory:
  assumes "availability_deadline chat t s \<le> t"
  shows "unwrap_or (hm_get (lm_chat_next s) chat) t \<le> t" "unwrap_or (lm_global_next s) t \<le> t"
    "unwrap_or (penalty_memory LimitGlobal s) t \<le> t" "unwrap_or (penalty_memory (LimitChat chat) s) t \<le> t"
  using assms by (simp_all add: available_iff penalty_memory_def)

lemma limiter_inv_step:
  assumes "limiter_step p g x y" and "limiter_inv p g x"
  shows "limiter_inv p g y"
proof -
  have ok: "limiter_ok (lw_state x)" using assms(2) by (simp add: limiter_inv_def)
  from assms(1) show ?thesis
  proof (cases rule: limiter_step.cases)
    case (tick t)
    then show ?thesis using assms(2) by (auto simp: limiter_inv_def intro: covers_later)
  next
    case (register chat prio i s)
    then show ?thesis using limiter_inv_keep[OF assms(2) register_forgets[OF ok]] by simp
  next
    case (grant i chat s w)
    from grant(2) obtain
      av: "availability_deadline chat (lw_clock x) (lw_state x) \<le> lw_clock x"
      and s: "s = (lw_state x)\<lparr>lm_waiters := filter (\<lambda>w. wt_id w \<noteq> i) (lm_waiters (lw_state x)),
             lm_chat_next := hm_insert chat (lw_clock x + p) (lm_chat_next (lw_state x)), lm_global_next := Some (lw_clock x + g)\<rparr>"
      by (cases rule: poll_cases) (use grant(3,4) in auto)
    note mem = available_memory[OF av]
    have old: "(c = chat \<longrightarrow> t + p \<le> lw_clock x) \<and> t + g \<le> lw_clock x" if "(t, c) \<in> set (lw_grants x)" for t c
    proof -
      have "covers (hm_get (lm_chat_next (lw_state x)) c) (lw_clock x) (t + p)"
        "covers (lm_global_next (lw_state x)) (lw_clock x) (t + g)"
        using assms(2) that by (auto simp: limiter_inv_def)
      then show ?thesis using mem(1,2) covers_available by blast
    qed
    have "forgets_nothing (lw_clock x) (lw_state x) s"
      unfolding forgets_nothing_def
    proof (intro conjI allI impI)
      show "limiter_ok s" using ok by (simp add: s limiter_ok_def)
      show "covers (hm_get (lm_chat_next s) k) (lw_clock x) u"
        if "covers (hm_get (lm_chat_next (lw_state x)) k) (lw_clock x) u" for k u
        using that covers_available[OF _ mem(1)] by (cases "k = chat") (auto simp: s covers_def)
      show "covers (lm_global_next s) (lw_clock x) u" if "covers (lm_global_next (lw_state x)) (lw_clock x) u" for u
        using covers_available[OF that mem(2)] by (simp add: covers_def)
      show "covers (penalty_memory sc s) (lw_clock x) u" if "covers (penalty_memory sc (lw_state x)) (lw_clock x) u" for sc u
        using that by (cases sc) (simp_all add: s)
    qed
    then have "limiter_inv p g (x\<lparr>lw_state := s\<rparr>)" by (rule limiter_inv_keep[OF assms(2)])
    moreover have "covers (hm_get (lm_chat_next s) chat) (lw_clock x) (lw_clock x + p)"
      "covers (lm_global_next s) (lw_clock x) (lw_clock x + g)"
      by (simp_all add: s covers_def)
    ultimately show ?thesis using old by (auto simp: grant(1) limiter_inv_def)
  next
    case (wait i chat res s)
    from wait(2) have "s = lw_state x" by (cases rule: poll_cases) (use wait(3) in auto)
    then show ?thesis using limiter_inv_keep[OF assms(2) forgets_refl[OF ok]] wait(1) by simp
  next
    case (drop i)
    have "forgets_nothing (lw_clock x) (lw_state x) (drop_waiter i (lw_state x))"
      using ok penalty_memory_cong[of "drop_waiter i (lw_state x)" "lw_state x"]
      by (simp add: forgets_nothing_def drop_waiter_def limiter_ok_def)
    then show ?thesis using limiter_inv_keep[OF assms(2)] drop by simp
  next
    case (penalize scope d)
    have "limiter_inv p g (x\<lparr>lw_state := limiter_penalize scope d (lw_clock x) (lw_state x)\<rparr>)"
      by (rule limiter_inv_keep[OF assms(2) penalize_forgets(1)[OF ok]])
    then show ?thesis using penalize_forgets(2)[OF ok] by (auto simp: penalize limiter_inv_def)
  qed
qed

lemma reach_limiter_inv:
  assumes "limiter.reach p g x"
  shows "limiter_inv p g x"
  using assms
proof (rule limiter.reach_invariant)
  show "limiter_inv p g x" if "limiter_init x" for x
    using that by (simp add: limiter_init_def limiter_inv_def limiter_default_def limiter_ok_def)
qed (rule limiter_inv_step)

subsection \<open>Claims\<close>


definition demo_limiter :: "limiter_state" where
  "demo_limiter = snd (register_waiter 7 RefreshPreview 100 (snd (register_waiter 7 Final 100 limiter_default)))"

definition demo_limiter_granted :: limiter_state where
  "demo_limiter_granted = snd (poll_waiter 1000 50 1 7 2000 (snd (poll_waiter 1000 50 0 7 100 demo_limiter)))"

definition limiter_at :: "instant \<Rightarrow> limiter_state \<Rightarrow> (instant \<times> chat_id) list
    \<Rightarrow> (drafter_rate_limit_scope \<times> instant) list \<Rightarrow> limiter_world" where
  "limiter_at c s gs ps = \<lparr>lw_clock = c, lw_state = s, lw_grants = gs, lw_penalties = ps\<rparr>"

lemmas limiter_eval = demo_limiter_def register_waiter_def record_operation_def limiter_default_def Let_def
  poll_waiter_def availability_deadline_def unwrap_or_def precedes_def less_drafter_priority_def

lemma demo_limiter_reach: "limiter.reach 1000 50 (limiter_at 100 demo_limiter [] [])"
proof -
  let ?s = "snd (register_waiter 7 Final 100 limiter_default)"
  have a: "limiter.reach 1000 50 (limiter_at 100 limiter_default [] [])"
    by (rule limiter.reach_init) (simp add: limiter_init_def limiter_at_def)
  have b: "limiter.reach 1000 50 (limiter_at 100 ?s [] [])"
    using limiter.reach_step[OF a limiter_step.register[where chat = 7 and prio = Final]]
    by (simp add: limiter_at_def prod_eq_iff)
  show ?thesis
    using limiter.reach_step[OF b limiter_step.register[where chat = 7 and prio = RefreshPreview]]
    by (simp add: limiter_at_def prod_eq_iff demo_limiter_def)
qed

lemma demo_limiter_first: "poll_waiter 1000 50 0 7 100 demo_limiter = (Acquired, snd (poll_waiter 1000 50 0 7 100 demo_limiter))
    \<and> find (\<lambda>w. wt_id w = 0) (lm_waiters demo_limiter) = Some \<lparr>wt_id = 0, wt_chat = 7, wt_priority = Final\<rparr>"
  by (simp add: limiter_eval)

lemma demo_limiter_one_reach:
  "limiter.reach 1000 50 (limiter_at 2000 (snd (poll_waiter 1000 50 0 7 100 demo_limiter)) [(100, 7)] [])"
proof -
  let ?s = "snd (poll_waiter 1000 50 0 7 100 demo_limiter)"
  have "limiter_step 1000 50 (limiter_at 100 demo_limiter [] []) (limiter_at 100 ?s [(100, 7)] [])"
    using limiter_step.grant[of 1000 50 0 7 "limiter_at 100 demo_limiter [] []" ?s] demo_limiter_first
    by (simp add: limiter_at_def)
  from limiter.reach_step[OF demo_limiter_reach this]
  have "limiter.reach 1000 50 (limiter_at 100 ?s [(100, 7)] [])" .
  from limiter.reach_step[OF this limiter_step.tick[where t = 2000]]
  show ?thesis by (simp add: limiter_at_def)
qed

lemma demo_limiter_two_reach: "limiter.reach 1000 50 (limiter_at 2000 demo_limiter_granted [(2000, 7), (100, 7)] [])"
proof -
  let ?s = "snd (poll_waiter 1000 50 0 7 100 demo_limiter)"
  have "poll_waiter 1000 50 1 7 2000 ?s = (Acquired, demo_limiter_granted)
      \<and> find (\<lambda>w. wt_id w = 1) (lm_waiters ?s) = Some \<lparr>wt_id = 1, wt_chat = 7, wt_priority = RefreshPreview\<rparr>"
    unfolding demo_limiter_granted_def by (simp add: limiter_eval)
  then have "limiter_step 1000 50 (limiter_at 2000 ?s [(100, 7)] []) (limiter_at 2000 demo_limiter_granted [(2000, 7), (100, 7)] [])"
    using limiter_step.grant[of 1000 50 1 7 "limiter_at 2000 ?s [(100, 7)] []" demo_limiter_granted]
    by (simp add: limiter_at_def)
  from limiter.reach_step[OF demo_limiter_one_reach this] show ?thesis .
qed



definition demo_limiter_penalised :: limiter_state where
  "demo_limiter_penalised = limiter_penalize (LimitChat 7) 300 100 demo_limiter"


text \<open>The reference: available, and behind nobody who is.\<close>

definition best_waiter :: "instant \<Rightarrow> limiter_state \<Rightarrow> limiter_waiter \<Rightarrow> bool" where
  "best_waiter now s w \<longleftrightarrow> availability_deadline (wt_chat w) now s \<le> now
     \<and> list_all (\<lambda>v. availability_deadline (wt_chat v) now s \<le> now \<longrightarrow>
          wt_priority v < wt_priority w \<or> wt_priority v = wt_priority w \<and> wt_id w \<le> wt_id v) (lm_waiters s)"

lemma find_by_id:
  assumes "distinct (map f xs)" and "w \<in> set xs"
  shows "find (\<lambda>v. f v = f w) xs = Some w"
  using assms by (induction xs) (auto simp: rev_image_eqI)

lemma poll_best:
  assumes "distinct (map wt_id (lm_waiters s))" and "w \<in> set (lm_waiters s)"
  shows "fst (poll_waiter p g (wt_id w) (wt_chat w) now s) = Acquired \<longleftrightarrow> best_waiter now s w"
proof -
  have same: "wt_id v = wt_id w \<Longrightarrow> v = w" if "v \<in> set (lm_waiters s)" for v
    using assms that by (auto simp: distinct_map inj_on_def)
  have "\<not> precedes v w \<longleftrightarrow> wt_priority v < wt_priority w \<or> wt_priority v = wt_priority w \<and> wt_id w \<le> wt_id v"
    if "v \<in> set (lm_waiters s)" for v
    using same[OF that] by (auto simp: precedes_def not_less le_less)
  then show ?thesis
    using find_by_id[OF assms] by (auto simp: poll_waiter_def Let_def best_waiter_def list_all_iff list_ex_iff)
qed

lemma some_best:
  assumes "v \<in> set (lm_waiters s)" and "availability_deadline (wt_chat v) now s \<le> now"
  shows "\<exists>w\<in>set (lm_waiters s). best_waiter now s w"
proof -
  let ?S = "{u \<in> set (lm_waiters s). availability_deadline (wt_chat u) now s \<le> now}"
  let ?k = "\<lambda>u. (drafter_rank (wt_priority u), - int (wt_id u))"
  have fin: "finite (?k ` ?S)" and ne: "?k ` ?S \<noteq> {}" using assms by auto
  obtain w where w: "w \<in> ?S" "?k w = Max (?k ` ?S)" using Max_in[OF fin ne] by fastforce
  have top: "?k u \<le> ?k w" if "u \<in> ?S" for u using Max_ge[OF fin, of "?k u"] that w(2) by auto
  have inj: "drafter_rank a = drafter_rank b \<Longrightarrow> a = b" for a b by (cases a; cases b) simp_all
  have "best_waiter now s w"
    using w(1) top by (fastforce simp: best_waiter_def list_all_iff less_drafter_priority_def less_eq_prod_def intro: inj)
  with w(1) show ?thesis by blast
qed

text \<open>
  C33. The best waiter wins and somebody always can: a poll is granted exactly to the available waiter
  of the highest priority, the oldest of that priority; and as long as some waiter is available, one
  of them is granted at its next poll.
\<close>

theorem limiter_grants_best_waiter:
  assumes "distinct (map wt_id (lm_waiters s))" and "v \<in> set (lm_waiters s)"
  shows "(fst (poll_waiter p g (wt_id v) (wt_chat v) now s) = Acquired \<longleftrightarrow> best_waiter now s v)
    \<and> (availability_deadline (wt_chat v) now s \<le> now
        \<longrightarrow> (\<exists>w\<in>set (lm_waiters s). fst (poll_waiter p g (wt_id w) (wt_chat w) now s) = Acquired))"
  using poll_best[OF assms] some_best[OF assms(2)] poll_best[OF assms(1)] by blast

theorem limiter_grants_best_waiter_witness:
  "fst (poll_waiter 1000 50 1 7 100 demo_limiter) \<noteq> Acquired"
proof -
  let ?w = "\<lparr>wt_id = 1, wt_chat = 7, wt_priority = RefreshPreview\<rparr>"
  have "distinct (map wt_id (lm_waiters demo_limiter))" "?w \<in> set (lm_waiters demo_limiter)"
    "\<not> best_waiter 100 demo_limiter ?w"
    by (simp_all add: limiter_eval best_waiter_def)
  from limiter_grants_best_waiter[OF this(1,2), of 1000 50 100] this(3) show ?thesis by simp
qed

end
