(* ===== verification/Markup.thy ===== *)
theory Markup
  imports Main
begin

text \<open>
  The text helpers of \<open>crates/teloxide/src/utils/markdown.rs\<close> and \<open>html.rs\<close>, over Rust strings as
  lists of Unicode scalar values, and what Telegram's documented escaping rules make of their output.
  The readers \<open>md_plain\<close>, \<open>md_code\<close>, \<open>md_destination\<close> and \<open>html_plain\<close> are those rules (a character
  after a backslash stands for itself; the named entities of HTML): they are the specification the
  escapes are measured against.
\<close>

subsection \<open>Strings\<close>

type_synonym rust_string = "nat list"

definition lit :: "string \<Rightarrow> rust_string" where
  "lit s = map of_char s"

abbreviation backslash :: nat where "backslash \<equiv> 92"
abbreviation backtick :: nat where "backtick \<equiv> 96"
abbreviation newline :: nat where "newline \<equiv> 10"

definition is_scalar :: "nat \<Rightarrow> bool" where
  "is_scalar c \<longleftrightarrow> c < 0xD800 \<or> 0xE000 \<le> c \<and> c < 0x110000"

text \<open>\<open>to_string\<close> of an unsigned and of a signed integer.\<close>

fun decimal :: "nat \<Rightarrow> rust_string" where
  "decimal n = (if n < 10 then [48 + n] else decimal (n div 10) @ [48 + n mod 10])"

declare decimal.simps [simp del]

definition decimal_int :: "int \<Rightarrow> rust_string" where
  "decimal_int z = (if z < 0 then 45 # decimal (nat (- z)) else decimal (nat z))"

definition replace_newlines :: "rust_string \<Rightarrow> rust_string \<Rightarrow> rust_string" where
  "replace_newlines by s = concat (map (\<lambda>c. if c = newline then by else [c]) s)"

definition starts_with :: "rust_string \<Rightarrow> rust_string \<Rightarrow> bool" where
  "starts_with p s \<longleftrightarrow> take (length p) s = p"

definition ends_with :: "rust_string \<Rightarrow> rust_string \<Rightarrow> bool" where
  "ends_with p s \<longleftrightarrow> length p \<le> length s \<and> drop (length s - length p) s = p"

subsection \<open>MarkdownV2\<close>

definition ESCAPE_CHARS :: "nat list" where
  "ESCAPE_CHARS = backslash # lit ''_*[]()~'' @ [backtick] @ lit ''>#+-=|{}.!''"

definition escaping :: "nat list \<Rightarrow> rust_string \<Rightarrow> rust_string" where
  "escaping cs s = concat (map (\<lambda>c. if c \<in> set cs then [backslash, c] else [c]) s)"

definition md_escape :: "rust_string \<Rightarrow> rust_string" where
  "md_escape = escaping ESCAPE_CHARS"

definition md_escape_link_url :: "rust_string \<Rightarrow> rust_string" where
  "md_escape_link_url = escaping (backtick # lit '')'')"

definition md_escape_code :: "rust_string \<Rightarrow> rust_string" where
  "md_escape_code = escaping [backtick, backslash]"

definition md_bold :: "rust_string \<Rightarrow> rust_string" where
  "md_bold s = lit ''*'' @ s @ lit ''*''"

definition md_blockquote :: "rust_string \<Rightarrow> rust_string" where
  "md_blockquote s = lit ''**>'' @ replace_newlines (newline # lit ''>'') s"

definition md_expandable_blockquote :: "rust_string \<Rightarrow> rust_string" where
  "md_expandable_blockquote s = lit ''**>'' @ replace_newlines (newline # lit ''>'') s @ lit ''||''"

text \<open>The format strings of \<open>italic\<close> and \<open>underline\<close> are raw: they hold a backslash and the letter r.\<close>

definition md_italic :: "rust_string \<Rightarrow> rust_string" where
  "md_italic s = (if starts_with (lit ''__'') s \<and> ends_with (lit ''__'') s
     then lit ''_'' @ butlast s @ backslash # lit ''r__'' else lit ''_'' @ s @ lit ''_'')"

definition md_underline :: "rust_string \<Rightarrow> rust_string" where
  "md_underline s = (if starts_with (lit ''_'') s \<and> ends_with (lit ''_'') s
     then lit ''__'' @ s @ backslash # lit ''r__'' else lit ''__'' @ s @ lit ''__'')"

definition md_strike :: "rust_string \<Rightarrow> rust_string" where
  "md_strike s = lit ''~'' @ s @ lit ''~''"

definition md_link :: "rust_string \<Rightarrow> rust_string \<Rightarrow> rust_string" where
  "md_link url text = lit ''['' @ text @ lit '']('' @ md_escape_link_url url @ lit '')''"

definition md_user_mention :: "nat \<Rightarrow> rust_string \<Rightarrow> rust_string" where
  "md_user_mention user text = md_link (lit ''tg://user?id='' @ decimal user) text"

definition fence :: rust_string where
  "fence = [backtick, backtick, backtick]"

definition md_code_block :: "rust_string \<Rightarrow> rust_string" where
  "md_code_block code = fence @ [newline] @ md_escape_code code @ [newline] @ fence"

definition md_code_block_with_lang :: "rust_string \<Rightarrow> rust_string \<Rightarrow> rust_string" where
  "md_code_block_with_lang code lang = fence @ md_escape lang @ [newline] @ md_escape_code code @ [newline] @ fence"

definition md_code_inline :: "rust_string \<Rightarrow> rust_string" where
  "md_code_inline s = [backtick] @ md_escape_code s @ [backtick]"

subsection \<open>HTML\<close>

definition html_char :: "nat \<Rightarrow> rust_string" where
  "html_char c = (if c = 38 then lit ''&amp;'' else if c = 60 then lit ''&lt;'' else if c = 62 then lit ''&gt;'' else [c])"

definition html_escape :: "rust_string \<Rightarrow> rust_string" where
  "html_escape s = concat (map html_char s)"

definition html_bold :: "rust_string \<Rightarrow> rust_string" where
  "html_bold s = lit ''<b>'' @ s @ lit ''</b>''"

definition html_blockquote :: "rust_string \<Rightarrow> rust_string" where
  "html_blockquote s = lit ''<blockquote>'' @ s @ lit ''</blockquote>''"

definition html_expandable_blockquote :: "rust_string \<Rightarrow> rust_string" where
  "html_expandable_blockquote s = lit ''<blockquote expandable>'' @ s @ lit ''</blockquote>''"

definition html_italic :: "rust_string \<Rightarrow> rust_string" where
  "html_italic s = lit ''<i>'' @ s @ lit ''</i>''"

definition html_underline :: "rust_string \<Rightarrow> rust_string" where
  "html_underline s = lit ''<u>'' @ s @ lit ''</u>''"

definition html_strike :: "rust_string \<Rightarrow> rust_string" where
  "html_strike s = lit ''<s>'' @ s @ lit ''</s>''"

abbreviation quote :: nat where "quote \<equiv> 34"

definition html_link :: "rust_string \<Rightarrow> rust_string \<Rightarrow> rust_string" where
  "html_link url text = lit ''<a href='' @ [quote] @ html_escape url @ [quote] @ lit ''>'' @ html_escape text @ lit ''</a>''"

definition html_user_mention :: "nat \<Rightarrow> rust_string \<Rightarrow> rust_string" where
  "html_user_mention user text = html_link (lit ''tg://user?id='' @ decimal user) text"

definition html_code_block :: "rust_string \<Rightarrow> rust_string" where
  "html_code_block code = lit ''<pre>'' @ html_escape code @ lit ''</pre>''"

definition html_code_block_with_lang :: "rust_string \<Rightarrow> rust_string \<Rightarrow> rust_string" where
  "html_code_block_with_lang code lang = lit ''<pre><code class='' @ [quote] @ lit ''language-''
     @ concat (map (\<lambda>c. if c = quote then lit ''&quot;'' else [c]) (html_escape lang)) @ [quote] @ lit ''>''
     @ html_escape code @ lit ''</code></pre>''"

definition html_code_inline :: "rust_string \<Rightarrow> rust_string" where
  "html_code_inline s = lit ''<code>'' @ html_escape s @ lit ''</code>''"

subsection \<open>Readers\<close>

text \<open>
  Plain MarkdownV2 text: an escaped character is itself; an unescaped reserved character is markup,
  so the text is not plain.
\<close>

fun md_plain :: "rust_string \<Rightarrow> rust_string option" where
  "md_plain [] = Some []"
| "md_plain (c # s) = (if c = backslash then
       (case s of [] \<Rightarrow> None | d # t \<Rightarrow> map_option ((#) d) (md_plain t))
     else if c \<in> set ESCAPE_CHARS then None else map_option ((#) c) (md_plain s))"

text \<open>Read up to the first unescaped \<open>stop\<close>: the text read and what follows the stop.\<close>

fun md_until :: "nat \<Rightarrow> rust_string \<Rightarrow> (rust_string \<times> rust_string) option" where
  "md_until stop [] = None"
| "md_until stop (c # s) = (if c = backslash then
       (case s of [] \<Rightarrow> None | d # t \<Rightarrow> map_option (\<lambda>(a, r). (d # a, r)) (md_until stop t))
     else if c = stop then Some ([], s) else map_option (\<lambda>(a, r). (c # a, r)) (md_until stop s))"

text \<open>HTML text without tags, and an attribute value up to its closing quote.\<close>

fun html_plain :: "rust_string \<Rightarrow> rust_string option" where
  "html_plain [] = Some []"
| "html_plain (c # s) =
    (if c = 38 then
       (if take 4 s = lit ''amp;'' then map_option ((#) 38) (html_plain (drop 4 s))
        else if take 3 s = lit ''lt;'' then map_option ((#) 60) (html_plain (drop 3 s))
        else if take 3 s = lit ''gt;'' then map_option ((#) 62) (html_plain (drop 3 s))
        else if take 5 s = lit ''quot;'' then map_option ((#) quote) (html_plain (drop 5 s))
        else None)
     else if c = 60 \<or> c = 62 then None
     else map_option ((#) c) (html_plain s))"

subsection \<open>Round trips\<close>

lemma escaping_Nil [simp]: "escaping cs [] = []"
  by (simp add: escaping_def)

lemma escaping_Cons [simp]: "escaping cs (c # s) = (if c \<in> set cs then [backslash, c] else [c]) @ escaping cs s"
  by (simp add: escaping_def)

lemma md_until_escaping:
  assumes "stop \<noteq> backslash" and "stop \<in> set cs" and "backslash \<in> set cs \<or> backslash \<notin> set s"
  shows "md_until stop (escaping cs s @ stop # rest) = Some (s, rest)"
  using assms by (induction s) auto


text \<open>
  A link destination reads back when it has no backslash; one that ends in a backslash swallows the
  closing parenthesis, so the link never closes: \<open>escape_link_url\<close> does not escape the backslash.
\<close>

lemma md_link_url_reads:
  assumes "backslash \<notin> set url"
  shows "md_until 41 (md_escape_link_url url @ lit '')'' @ rest) = Some (url, rest)"
proof -
  have "md_until 41 (md_escape_link_url url @ 41 # rest) = Some (url, rest)"
    unfolding md_escape_link_url_def by (rule md_until_escaping) (use assms in \<open>simp_all add: lit_def\<close>)
  then show ?thesis by (simp add: lit_def)
qed

lemma md_link_url_backslash_breaks:
  "md_until 41 (md_escape_link_url [97, backslash] @ lit '')'') = None"
  by (simp add: md_escape_link_url_def lit_def)

text \<open>
  The separator that \<open>italic\<close> inserts is not the carriage return the comment describes: the text shown
  contains the letter r.
\<close>

lemma md_italic_separator:
  "md_italic (md_underline (lit ''x'')) = lit ''___x_'' @ [backslash] @ lit ''r__''
   \<and> md_plain ([backslash] @ lit ''r'') = Some (lit ''r'')"
  by (simp add: md_italic_def md_underline_def starts_with_def ends_with_def lit_def ESCAPE_CHARS_def)

lemma html_plain_char: "html_plain (html_char c @ s) = map_option ((#) c) (html_plain s)"
  by (simp add: html_char_def lit_def)

lemma html_plain_escape: "html_plain (html_escape s @ t) = map_option ((@) s) (html_plain t)"
  by (induction s) (simp_all add: html_escape_def html_plain_char option.map_comp comp_def option.map_ident)

text \<open>A double quote ends the attribute of \<open>html::link\<close>: \<open>escape\<close> leaves it as it is.\<close>

lemma html_link_quote_breaks:
  "html_link (lit ''a'' @ [quote] @ lit '' b'') (lit ''x'')
     = lit ''<a href='' @ [quote] @ lit ''a'' @ [quote] @ lit '' b'' @ [quote] @ lit ''>x</a>''"
  by (simp add: html_link_def html_escape_def html_char_def lit_def)

end
