(* ===== verification/Render.thy ===== *)
theory Render
  imports Markup "HOL-Library.Product_Lexorder"
begin

text \<open>
  The renderer of message entities (\<open>crates/teloxide/src/utils/render.rs\<close> and \<open>render/tag.rs\<close>,
  \<open>render/html.rs\<close>, \<open>render/markdown.rs\<close>): entities become start, end and new-line tags at UTF-16
  offsets, sorted, and the text is walked unit by unit with the tags written in between.  A panic
  (an \<open>unreachable!\<close>, an \<open>unwrap\<close> of a broken surrogate pair, the logarithm of user id 0) is \<open>None\<close>.
\<close>

subsection \<open>Entities and tags\<close>

text \<open>\<open>MessageEntityKind\<close>; a \<open>Url\<close> is its text and a \<open>User\<close> its id.\<close>

datatype message_entity_kind =
    MekMention | MekHashtag | MekCashtag | MekBotCommand | MekUrl | MekEmail | MekPhoneNumber
  | MekBold | MekBlockquote | MekExpandableBlockquote | MekItalic | MekUnderline | MekStrikethrough
  | MekSpoiler | MekCode | MekPre "rust_string option" | MekTextLink rust_string | MekTextMention nat
  | MekCustomEmoji rust_string | MekDateTime "int option" "rust_string option"

record message_entity =
  me_kind :: message_entity_kind
  me_offset :: nat
  me_length :: nat

datatype tag_kind =
    Bold | Blockquote | ExpandableBlockquote | Italic | Underline | Strikethrough | Spoiler | Code
  | Pre "rust_string option" | TextLink rust_string | TextMention nat | CustomEmoji rust_string
  | DateTime int "rust_string option"

datatype place = PlaceEnd | PlaceMidNewLine | PlaceStart

record tag =
  tg_place :: place
  tg_kind :: tag_kind
  tg_offset :: nat
  tg_index :: nat

fun place_rank :: "place \<Rightarrow> nat" where
  "place_rank PlaceEnd = 0"
| "place_rank PlaceMidNewLine = 1"
| "place_rank PlaceStart = 2"

text \<open>\<open>Ord for Tag\<close>: by offset, then place, then index, reversed for end tags.\<close>

definition tag_key :: "tag \<Rightarrow> nat \<times> nat \<times> int" where
  "tag_key t = (tg_offset t, place_rank (tg_place t),
     if tg_place t = PlaceEnd then - int (tg_index t) else int (tg_index t))"

definition kind_of_entity :: "message_entity_kind \<Rightarrow> tag_kind option" where
  "kind_of_entity k = (case k of
     MekBold \<Rightarrow> Some Bold | MekBlockquote \<Rightarrow> Some Blockquote | MekExpandableBlockquote \<Rightarrow> Some ExpandableBlockquote
   | MekItalic \<Rightarrow> Some Italic | MekUnderline \<Rightarrow> Some Underline | MekStrikethrough \<Rightarrow> Some Strikethrough
   | MekSpoiler \<Rightarrow> Some Spoiler | MekCode \<Rightarrow> Some Code | MekPre lang \<Rightarrow> Some (Pre lang)
   | MekTextLink url \<Rightarrow> Some (TextLink url) | MekTextMention user \<Rightarrow> Some (TextMention user)
   | MekCustomEmoji i \<Rightarrow> Some (CustomEmoji i)
   | MekDateTime (Some t) fmt \<Rightarrow> Some (DateTime t fmt)
   | _ \<Rightarrow> None)"

text \<open>\<open>str::encode_utf16\<close>.\<close>

definition utf16_char :: "nat \<Rightarrow> nat list" where
  "utf16_char c = (if c < 0x10000 then [c] else [0xD800 + (c - 0x10000) div 0x400, 0xDC00 + (c - 0x10000) mod 0x400])"

definition encode_utf16 :: "rust_string \<Rightarrow> nat list" where
  "encode_utf16 s = concat (map utf16_char s)"

definition tags_of_entity :: "nat list \<Rightarrow> nat \<Rightarrow> message_entity \<Rightarrow> tag list" where
  "tags_of_entity units index e = (case kind_of_entity (me_kind e) of
     None \<Rightarrow> []
   | Some kind \<Rightarrow>
       \<lparr>tg_place = PlaceStart, tg_kind = kind, tg_offset = me_offset e, tg_index = index\<rparr>
       # (if kind \<in> {Blockquote, ExpandableBlockquote} then
            map (\<lambda>(offset, unit). \<lparr>tg_place = PlaceMidNewLine, tg_kind = kind, tg_offset = offset + 1, tg_index = index\<rparr>)
              (filter (\<lambda>(offset, unit). unit = newline)
                (take (me_length e) (drop (me_offset e) (enumerate 0 units))))
          else [])
       @ [\<lparr>tg_place = PlaceEnd, tg_kind = kind, tg_offset = me_offset e + me_length e, tg_index = index\<rparr>])"

record renderer =
  rn_text :: rust_string
  rn_tags :: "tag list"
  rn_passthrough :: "message_entity_kind list"

definition renderer_new :: "rust_string \<Rightarrow> message_entity list \<Rightarrow> renderer" where
  "renderer_new text entities = \<lparr>rn_text = text,
     rn_tags = sort_key tag_key (concat (map (\<lambda>(index, e). tags_of_entity (encode_utf16 text) index e) (enumerate 0 entities))),
     rn_passthrough = filter (\<lambda>k. kind_of_entity k = None) (map me_kind entities)\<rparr>"

subsection \<open>Writers\<close>

record tag_writer =
  write_tag_fn :: "place \<Rightarrow> tag_kind \<Rightarrow> rust_string option"
  write_char_fn :: "nat \<Rightarrow> rust_string"
  extra_size_fn :: "place \<Rightarrow> tag_kind \<Rightarrow> bool"

definition simple_tag :: "string \<Rightarrow> string \<Rightarrow> place \<Rightarrow> rust_string option" where
  "simple_tag start fin p = (case p of PlaceStart \<Rightarrow> Some (lit start) | PlaceMidNewLine \<Rightarrow> None | PlaceEnd \<Rightarrow> Some (lit fin))"

definition repeated_tag :: "string \<Rightarrow> string \<Rightarrow> string \<Rightarrow> place \<Rightarrow> rust_string option" where
  "repeated_tag start again fin p = (case p of PlaceStart \<Rightarrow> Some (lit start) | PlaceMidNewLine \<Rightarrow> Some (lit again) | PlaceEnd \<Rightarrow> Some (lit fin))"

definition complex_tag :: "rust_string \<Rightarrow> rust_string \<Rightarrow> place \<Rightarrow> rust_string option" where
  "complex_tag start fin p = (case p of PlaceStart \<Rightarrow> Some start | PlaceMidNewLine \<Rightarrow> None | PlaceEnd \<Rightarrow> Some fin)"

definition html_attribute :: "rust_string \<Rightarrow> rust_string" where
  "html_attribute s = concat (map (\<lambda>c. if c = quote then lit ''&quot;'' else html_char c) s)"

fun html_write_tag :: "place \<Rightarrow> tag_kind \<Rightarrow> rust_string option" where
  "html_write_tag p Bold = simple_tag ''<b>'' ''</b>'' p"
| "html_write_tag p Blockquote = repeated_tag ''<blockquote>'' '''' ''</blockquote>'' p"
| "html_write_tag p ExpandableBlockquote = repeated_tag ''<blockquote expandable>'' '''' ''</blockquote>'' p"
| "html_write_tag p Italic = simple_tag ''<i>'' ''</i>'' p"
| "html_write_tag p Underline = simple_tag ''<u>'' ''</u>'' p"
| "html_write_tag p Strikethrough = simple_tag ''<s>'' ''</s>'' p"
| "html_write_tag p Spoiler = simple_tag ''<tg-spoiler>'' ''</tg-spoiler>'' p"
| "html_write_tag p Code = simple_tag ''<code>'' ''</code>'' p"
| "html_write_tag p (Pre None) = simple_tag ''<pre>'' ''</pre>'' p"
| "html_write_tag p (Pre (Some lang)) =
     complex_tag (lit ''<pre><code class='' @ [quote] @ lit ''language-'' @ html_attribute lang @ [quote] @ lit ''>'')
       (lit ''</code></pre>'') p"
| "html_write_tag p (TextLink url) = complex_tag (lit ''<a href='' @ [quote] @ html_attribute url @ [quote] @ lit ''>'') (lit ''</a>'') p"
| "html_write_tag p (TextMention user) =
     complex_tag (lit ''<a href='' @ [quote] @ lit ''tg://user?id='' @ decimal user @ [quote] @ lit ''>'') (lit ''</a>'') p"
| "html_write_tag p (CustomEmoji i) =
     complex_tag (lit ''<tg-emoji emoji-id='' @ [quote] @ html_attribute i @ [quote] @ lit ''>'') (lit ''</tg-emoji>'') p"
| "html_write_tag p (DateTime t fmt) =
     complex_tag (lit ''<tg-time unix='' @ [quote] @ decimal_int t @ [quote]
       @ (case fmt of None \<Rightarrow> [] | Some f \<Rightarrow> lit '' format='' @ [quote] @ html_attribute f @ [quote]) @ lit ''>'')
       (lit ''</tg-time>'') p"

definition md_destination :: "rust_string \<Rightarrow> rust_string" where
  "md_destination = escaping (backslash # lit '')'')"

definition md_pre_language :: "rust_string \<Rightarrow> rust_string" where
  "md_pre_language s = escaping [backtick, backslash] (filter (\<lambda>c. c \<noteq> 13 \<and> c \<noteq> newline) s)"

fun md_write_tag :: "place \<Rightarrow> tag_kind \<Rightarrow> rust_string option" where
  "md_write_tag p Bold = simple_tag ''*'' ''*'' p"
| "md_write_tag p Blockquote = repeated_tag ''**>'' ''>'' '''' p"
| "md_write_tag p ExpandableBlockquote = repeated_tag ''**>'' ''>'' ''||'' p"
| "md_write_tag p Italic = complex_tag (lit ''_'' @ [13]) (lit ''_'' @ [13]) p"
| "md_write_tag p Underline = complex_tag (lit ''__'' @ [13]) (lit ''__'' @ [13]) p"
| "md_write_tag p Strikethrough = simple_tag ''~'' ''~'' p"
| "md_write_tag p Spoiler = simple_tag ''||'' ''||'' p"
| "md_write_tag p Code = complex_tag [backtick] [backtick] p"
| "md_write_tag p (Pre None) = complex_tag (fence @ [newline]) (fence @ [newline]) p"
| "md_write_tag p (Pre (Some lang)) = complex_tag (fence @ md_pre_language lang @ [newline]) (fence @ [newline]) p"
| "md_write_tag p (TextLink url) = complex_tag (lit ''['') (lit '']('' @ md_destination url @ lit '')'') p"
| "md_write_tag p (TextMention user) = complex_tag (lit ''['') (lit ''](tg://user?id='' @ decimal user @ lit '')'') p"
| "md_write_tag p (CustomEmoji i) = complex_tag (lit ''['') (lit ''](tg://emoji?id='' @ i @ lit '')'') p"
| "md_write_tag p (DateTime t fmt) = complex_tag (lit ''!['')
     (lit ''](tg://time?unix='' @ decimal_int t
       @ (case fmt of None \<Rightarrow> [] | Some f \<Rightarrow> lit ''&format='' @ md_destination f) @ lit '')'') p"

text \<open>
  \<open>get_extra_size_for_tags\<close> only sizes the buffer, but it panics where it has no size: on a new-line
  tag of a kind without one, and on the logarithm of the user id 0.
\<close>

definition sizes :: "place \<Rightarrow> tag_kind \<Rightarrow> bool" where
  "sizes p k = (case k of
     Blockquote \<Rightarrow> True | ExpandableBlockquote \<Rightarrow> True | DateTime _ _ \<Rightarrow> True
   | TextMention user \<Rightarrow> p = PlaceEnd \<or> p = PlaceStart \<and> user \<noteq> 0
   | _ \<Rightarrow> p \<noteq> PlaceMidNewLine)"

definition HTML_writer :: tag_writer where
  "HTML_writer = \<lparr>write_tag_fn = html_write_tag, write_char_fn = html_char, extra_size_fn = sizes\<rparr>"

definition MARKDOWN_writer :: tag_writer where
  "MARKDOWN_writer = \<lparr>write_tag_fn = md_write_tag,
     write_char_fn = (\<lambda>c. if c \<in> set ESCAPE_CHARS then [backslash, c] else [c]), extra_size_fn = sizes\<rparr>"

subsection \<open>Rendering\<close>

definition is_surrogate :: "nat \<Rightarrow> bool" where
  "is_surrogate u \<longleftrightarrow> 0xD800 \<le> u \<and> u < 0xE000"

definition decode_pair :: "nat \<Rightarrow> nat \<Rightarrow> nat option" where
  "decode_pair hi lo = (if 0xD800 \<le> hi \<and> hi < 0xDC00 \<and> 0xDC00 \<le> lo \<and> lo < 0xE000
     then Some (0x10000 + (hi - 0xD800) * 0x400 + (lo - 0xDC00)) else None)"

text \<open>The inner loop: the tags at this offset; the ones left.\<close>

fun write_tags_at :: "tag_writer \<Rightarrow> nat \<Rightarrow> tag list \<Rightarrow> (rust_string \<times> tag list) option" where
  "write_tags_at w idx [] = Some ([], [])"
| "write_tags_at w idx (t # tags) =
    (if tg_offset t = idx then
       (case write_tag_fn w (tg_place t) (tg_kind t) of None \<Rightarrow> None | Some s \<Rightarrow>
          map_option (\<lambda>(out, rest). (s @ out, rest)) (write_tags_at w idx tags))
     else Some ([], t # tags))"

fun write_rest :: "tag_writer \<Rightarrow> tag list \<Rightarrow> rust_string option" where
  "write_rest w [] = Some []"
| "write_rest w (t # tags) = (case write_tag_fn w (tg_place t) (tg_kind t) of None \<Rightarrow> None
     | Some s \<Rightarrow> map_option ((@) s) (write_rest w tags))"

text \<open>The outer loop over the UTF-16 units, with the pending high surrogate.\<close>

fun format_loop :: "tag_writer \<Rightarrow> nat list \<Rightarrow> nat \<Rightarrow> nat option \<Rightarrow> tag list \<Rightarrow> rust_string option" where
  "format_loop w [] idx prev tags = write_rest w tags"
| "format_loop w (u # units) idx prev tags =
    (case write_tags_at w idx tags of None \<Rightarrow> None | Some (out, rest) \<Rightarrow>
       (case prev of
          Some hi \<Rightarrow> (case decode_pair hi u of None \<Rightarrow> None
            | Some c \<Rightarrow> map_option (\<lambda>s. out @ write_char_fn w c @ s) (format_loop w units (idx + 1) None rest))
        | None \<Rightarrow>
            if is_surrogate u then map_option ((@) out) (format_loop w units (idx + 1) (Some u) rest)
            else map_option (\<lambda>s. out @ write_char_fn w u @ s) (format_loop w units (idx + 1) None rest)))"

definition render_format :: "tag_writer \<Rightarrow> renderer \<Rightarrow> rust_string option" where
  "render_format w r = (if rn_tags r = [] then Some (rn_text r)
     else if list_all (\<lambda>t. extra_size_fn w (tg_place t) (tg_kind t)) (rn_tags r)
     then format_loop w (encode_utf16 (rn_text r)) 0 None (rn_tags r) else None)"

definition as_html :: "rust_string \<Rightarrow> message_entity list \<Rightarrow> rust_string option" where
  "as_html text entities = render_format HTML_writer (renderer_new text entities)"

definition as_markdown :: "rust_string \<Rightarrow> message_entity list \<Rightarrow> rust_string option" where
  "as_markdown text entities = render_format MARKDOWN_writer (renderer_new text entities)"

end
