(* ===== verification/Render_Text.thy ===== *)
theory Render_Text
  imports Render
begin

text \<open>
  Rendering never loses or changes visible text, and never panics on valid input.
\<close>

subsection \<open>What an HTML reader sees\<close>

function html_visible :: "rust_string \<Rightarrow> rust_string option" where
  "html_visible [] = Some []"
| "html_visible (c # s) =
    (if c = 60 then (case dropWhile (\<lambda>d. d \<noteq> 62) s of [] \<Rightarrow> None | _ # t \<Rightarrow> html_visible t)
     else if c = 38 then
       (if take 4 s = lit ''amp;'' then map_option ((#) 38) (html_visible (drop 4 s))
        else if take 3 s = lit ''lt;'' then map_option ((#) 60) (html_visible (drop 3 s))
        else if take 3 s = lit ''gt;'' then map_option ((#) 62) (html_visible (drop 3 s))
        else if take 5 s = lit ''quot;'' then map_option ((#) quote) (html_visible (drop 5 s))
        else None)
     else if c = 62 then None
     else map_option ((#) c) (html_visible s))"
  by pat_completeness auto

termination
proof (relation "measure length", goal_cases)
  case (2 c s d t)
  have "length (dropWhile (\<lambda>d. d \<noteq> 62) s) \<le> length s" by (rule length_dropWhile_le)
  with 2 show ?case by (simp add: )
qed simp_all

lemma html_visible_char: "html_visible (html_char c @ s) = map_option ((#) c) (html_visible s)"
  by (simp add: html_char_def lit_def)

lemma html_visible_tag:
  assumes "62 \<notin> set body"
  shows "html_visible (60 # body @ 62 # s) = html_visible s"
proof -
  have "dropWhile (\<lambda>d. d \<noteq> 62) (body @ 62 # s) = 62 # s"
    using assms by (metis (mono_tags, lifting) dropWhile_append2 dropWhile.simps(2))
  then show ?thesis by simp
qed

lemma decimal_digits: "c \<in> set (decimal n) \<Longrightarrow> 48 \<le> c \<and> c < 58"
proof (induction n rule: decimal.induct)
  case (1 n)
  show ?case
  proof (cases "n < 10")
    case True
    then show ?thesis using 1(2) by (subst (asm) decimal.simps) auto
  next
    case False
    then have "c \<in> set (decimal (n div 10)) \<or> c = 48 + n mod 10"
      using 1(2) by (subst (asm) decimal.simps) auto
    then show ?thesis using 1(1)[OF False] by auto
  qed
qed

lemma no_angle:
  "62 \<notin> set (html_attribute s)" "62 \<notin> set (decimal n)" "62 \<notin> set (decimal_int z)"
proof -
  show "62 \<notin> set (html_attribute s)"
    by (induction s) (auto simp: html_attribute_def html_char_def lit_def)
  show d: "62 \<notin> set (decimal n)" for n using decimal_digits[of 62 n] by auto
  show "62 \<notin> set (decimal_int z)" using d by (simp add: decimal_int_def)
qed

text \<open>A string of complete tags is invisible.\<close>

definition invisible :: "rust_string \<Rightarrow> bool" where
  "invisible out \<longleftrightarrow> (\<forall>s. html_visible (out @ s) = html_visible s)"

lemma invisible_Nil [simp]: "invisible []"
  by (simp add: invisible_def)

lemma invisible_append: "invisible a \<Longrightarrow> invisible b \<Longrightarrow> invisible (a @ b)"
  by (simp add: invisible_def)

lemma invisible_tag: "62 \<notin> set body \<Longrightarrow> invisible (60 # body @ [62])"
  using html_visible_tag by (simp add: invisible_def)

lemma invisibleI:
  assumes "out = 60 # body @ [62]" and "62 \<notin> set body"
  shows "invisible out"
  using invisible_tag[OF assms(2)] assms(1) by simp

lemma invisible_simple:
  "invisible (lit ''<b>'')" "invisible (lit ''</b>'')" "invisible (lit ''<i>'')" "invisible (lit ''</i>'')"
  "invisible (lit ''<u>'')" "invisible (lit ''</u>'')" "invisible (lit ''<s>'')" "invisible (lit ''</s>'')"
  "invisible (lit ''<tg-spoiler>'')" "invisible (lit ''</tg-spoiler>'')" "invisible (lit ''<code>'')"
  "invisible (lit ''</code>'')" "invisible (lit ''<pre>'')" "invisible (lit ''</pre>'')"
  "invisible (lit ''<blockquote>'')" "invisible (lit ''<blockquote expandable>'')" "invisible (lit ''</blockquote>'')"
  "invisible (lit ''</a>'')" "invisible (lit ''</tg-emoji>'')" "invisible (lit ''</tg-time>'')" "invisible (lit [])"
  by (simp_all add: lit_def invisible_def)

lemma invisible_attribute:
  assumes "62 \<notin> set v" and "lit start = 60 # body" and "62 \<notin> set body"
  shows "invisible (lit start @ [quote] @ v @ [quote] @ lit ''>'')"
  by (rule invisibleI[where body = "body @ [quote] @ v @ [quote]"]) (use assms in \<open>simp_all add: lit_def\<close>)

lemma html_write_tag_invisible:
  assumes "html_write_tag p k = Some out"
  shows "invisible out"
proof -
  have pre: "invisible (lit ''<pre><code class='' @ [quote] @ lit ''language-'' @ html_attribute lang @ [quote] @ lit ''>'')" for lang
  proof -
    have "invisible (lit ''<code class='' @ [quote] @ (lit ''language-'' @ html_attribute lang) @ [quote] @ lit ''>'')"
      by (rule invisible_attribute[where body = "lit ''code class=''"]) (use no_angle(1) in \<open>simp_all add: lit_def\<close>)
    from invisible_append[OF invisible_simple(13) this] show ?thesis by (simp add: lit_def)
  qed
  have fin: "invisible (lit ''</code></pre>'')"
    using invisible_append[OF invisible_simple(12) invisible_simple(14)] by (simp add: lit_def)
  have link: "invisible (lit ''<a href='' @ [quote] @ html_attribute url @ [quote] @ lit ''>'')" for url
    by (rule invisible_attribute[where body = "lit ''a href=''"]) (use no_angle(1) in \<open>simp_all add: lit_def\<close>)
  have mention: "invisible (lit ''<a href='' @ [quote] @ lit ''tg://user?id='' @ decimal user @ [quote] @ lit ''>'')" for user
  proof -
    have "invisible (lit ''<a href='' @ [quote] @ (lit ''tg://user?id='' @ decimal user) @ [quote] @ lit ''>'')"
      by (rule invisible_attribute[where body = "lit ''a href=''"]) (use no_angle(2) in \<open>simp_all add: lit_def\<close>)
    then show ?thesis by simp
  qed
  have emoji: "invisible (lit ''<tg-emoji emoji-id='' @ [quote] @ html_attribute i @ [quote] @ lit ''>'')" for i
    by (rule invisible_attribute[where body = "lit ''tg-emoji emoji-id=''"]) (use no_angle(1) in \<open>simp_all add: lit_def\<close>)
  have time: "invisible (lit ''<tg-time unix='' @ [quote] @ decimal_int t @ [quote]
       @ (case fmt of None \<Rightarrow> [] | Some f \<Rightarrow> lit '' format='' @ [quote] @ html_attribute f @ [quote]) @ lit ''>'')" for t fmt
    by (rule invisibleI[where body = "lit ''tg-time unix='' @ [quote] @ decimal_int t @ [quote]
       @ (case fmt of None \<Rightarrow> [] | Some f \<Rightarrow> lit '' format='' @ [quote] @ html_attribute f @ [quote])"])
       (use no_angle in \<open>auto simp: lit_def split: option.split\<close>)
  have S: "simple_tag a b p = Some out \<Longrightarrow> invisible (lit a) \<Longrightarrow> invisible (lit b) \<Longrightarrow> invisible out" for a b
    by (cases p) (auto simp: simple_tag_def)
  have R: "repeated_tag a [] b p = Some out \<Longrightarrow> invisible (lit a) \<Longrightarrow> invisible (lit b) \<Longrightarrow> invisible out" for a b
    by (cases p) (auto simp: repeated_tag_def lit_def)
  have C: "complex_tag a b p = Some out \<Longrightarrow> invisible a \<Longrightarrow> invisible b \<Longrightarrow> invisible out" for a b
    by (cases p) (auto simp: complex_tag_def)
  note I = invisible_simple
  show ?thesis
  proof (cases k)
    case (Pre lang)
    show ?thesis
    proof (cases lang)
      case None
      with Pre assms show ?thesis by (intro S[OF _ I(13,14)]) simp
    next
      case (Some l)
      with Pre assms show ?thesis by (intro C[OF _ pre[of l] fin]) simp
    qed
  next
    case (TextLink url)
    with assms show ?thesis by (intro C[OF _ link[of url] I(18)]) simp
  next
    case (TextMention user)
    with assms show ?thesis by (intro C[OF _ mention[of user] I(18)]) simp
  next
    case (CustomEmoji i)
    with assms show ?thesis by (intro C[OF _ emoji[of i] I(19)]) simp
  next
    case (DateTime t fmt)
    with assms show ?thesis by (intro C[OF _ time[of t fmt] I(20)]) simp
  next
    case Bold with assms show ?thesis by (intro S[OF _ I(1,2)]) simp
  next
    case Italic with assms show ?thesis by (intro S[OF _ I(3,4)]) simp
  next
    case Underline with assms show ?thesis by (intro S[OF _ I(5,6)]) simp
  next
    case Strikethrough with assms show ?thesis by (intro S[OF _ I(7,8)]) simp
  next
    case Spoiler with assms show ?thesis by (intro S[OF _ I(9,10)]) simp
  next
    case Code with assms show ?thesis by (intro S[OF _ I(11,12)]) simp
  next
    case Blockquote with assms show ?thesis by (intro R[OF _ I(15,17)]) simp
  next
    case ExpandableBlockquote with assms show ?thesis by (intro R[OF _ I(16,17)]) simp
  qed
qed

lemma tag_formats [simp]:
  "simple_tag a b p = None \<longleftrightarrow> p = PlaceMidNewLine" "repeated_tag a c b p \<noteq> None"
  "complex_tag u v p = None \<longleftrightarrow> p = PlaceMidNewLine"
  by (cases p; simp add: simple_tag_def repeated_tag_def complex_tag_def)+

lemma pre_write_tags:
  "html_write_tag p (Pre lang) = None \<longleftrightarrow> p = PlaceMidNewLine" "md_write_tag p (Pre lang) = None \<longleftrightarrow> p = PlaceMidNewLine"
  by (cases lang; simp del: not_None_eq)+

text \<open>New-line tags belong to quotes only.\<close>

definition well_placed :: "tag \<Rightarrow> bool" where
  "well_placed t \<longleftrightarrow> tg_place t = PlaceMidNewLine \<longrightarrow> tg_kind t \<in> {Blockquote, ExpandableBlockquote}"

lemma html_write_tag_defined: "well_placed t \<Longrightarrow> html_write_tag (tg_place t) (tg_kind t) \<noteq> None"
  by (cases "tg_kind t") (auto simp: well_placed_def pre_write_tags simp del: not_None_eq)

lemma md_write_tag_defined: "well_placed t \<Longrightarrow> md_write_tag (tg_place t) (tg_kind t) \<noteq> None"
  by (cases "tg_kind t") (auto simp: well_placed_def pre_write_tags simp del: not_None_eq)

lemma well_placed_sizes: "well_placed t \<Longrightarrow> tg_kind t \<noteq> TextMention 0 \<Longrightarrow> sizes (tg_place t) (tg_kind t)"
  by (cases "tg_kind t"; cases "tg_place t") (auto simp: well_placed_def sizes_def)

subsection \<open>The tags of an entity list\<close>

lemma tags_of_entity_placed: "t \<in> set (tags_of_entity units i e) \<Longrightarrow> well_placed t"
  by (auto simp: tags_of_entity_def well_placed_def split: option.splits if_splits)

lemma tags_of_entity_kind: "t \<in> set (tags_of_entity units i e) \<Longrightarrow> kind_of_entity (me_kind e) = Some (tg_kind t)"
  by (auto simp: tags_of_entity_def split: option.splits if_splits)

lemma renderer_tag_origin:
  assumes "t \<in> set (rn_tags (renderer_new str es))"
  obtains i e where "e \<in> set es" and "t \<in> set (tags_of_entity (encode_utf16 str) i e)"
proof -
  have "set (rn_tags (renderer_new str es))
      = (\<Union>p\<in>set (enumerate 0 es). set (tags_of_entity (encode_utf16 str) (fst p) (snd p)))"
    by (simp add: renderer_new_def case_prod_beta)
  then obtain p where p: "p \<in> set (enumerate 0 es)" "t \<in> set (tags_of_entity (encode_utf16 str) (fst p) (snd p))"
    using assms by blast
  have "snd p \<in> set (map snd (enumerate 0 es))" using p(1) by (simp del: map_snd_enumerate)
  then have "snd p \<in> set es" by simp
  with p(2) show thesis using that by blast
qed

lemma renderer_tags_placed: "t \<in> set (rn_tags (renderer_new str es)) \<Longrightarrow> well_placed t"
  by (metis renderer_tag_origin tags_of_entity_placed)

lemma renderer_text [simp]: "rn_text (renderer_new str es) = str"
  by (simp add: renderer_new_def)

lemma mention_zero: "kind_of_entity k = Some (TextMention 0) \<Longrightarrow> k = MekTextMention 0"
  by (cases k) (auto simp: kind_of_entity_def split: option.splits)

lemma renderer_sized:
  assumes "\<forall>e\<in>set es. me_kind e \<noteq> MekTextMention 0"
  shows "list_all (\<lambda>t. sizes (tg_place t) (tg_kind t)) (rn_tags (renderer_new str es))"
proof -
  have "sizes (tg_place t) (tg_kind t)" if t: "t \<in> set (rn_tags (renderer_new str es))" for t
  proof -
    obtain i e where e: "e \<in> set es" "t \<in> set (tags_of_entity (encode_utf16 str) i e)"
      using renderer_tag_origin[OF t] .
    have "tg_kind t \<noteq> TextMention 0"
      using mention_zero tags_of_entity_kind[OF e(2)] assms e(1) by metis
    then show ?thesis using well_placed_sizes renderer_tags_placed[OF t] by blast
  qed
  then show ?thesis by (simp add: list_all_iff)
qed

subsection \<open>The loop\<close>

text \<open>A writer whose tags an erasing reader does not see and whose characters it reads back.\<close>

lemma write_tags_at_invisible:
  assumes "list_all well_placed tags"
  shows "\<exists>out rest. write_tags_at HTML_writer idx tags = Some (out, rest) \<and> invisible out \<and> list_all well_placed rest"
  using assms
proof (induction tags)
  case (Cons t tags)
  then obtain s where s: "html_write_tag (tg_place t) (tg_kind t) = Some s" using html_write_tag_defined[of t] by auto
  from Cons show ?case
    using invisible_append[OF html_write_tag_invisible[OF s]] by (auto simp: HTML_writer_def s)
qed simp

lemma write_rest_invisible:
  assumes "list_all well_placed tags"
  shows "\<exists>out. write_rest HTML_writer tags = Some out \<and> invisible out"
  using assms
proof (induction tags)
  case (Cons t tags)
  then obtain s where s: "html_write_tag (tg_place t) (tg_kind t) = Some s" using html_write_tag_defined[of t] by auto
  from Cons show ?case
    using invisible_append[OF html_write_tag_invisible[OF s]] by (auto simp: HTML_writer_def s)
qed simp

lemma utf16_pair:
  assumes "0x10000 \<le> c" and "c < 0x110000"
  shows "is_surrogate (0xD800 + (c - 0x10000) div 0x400)"
    and "decode_pair (0xD800 + (c - 0x10000) div 0x400) (0xDC00 + (c - 0x10000) mod 0x400) = Some c"
proof -
  define d where "d = c - 0x10000"
  have c: "c = 0x10000 + d" and d: "d < 0x100000" using assms by (simp_all add: d_def)
  have q: "d div 0x400 < 0x400" using d by (simp add: less_mult_imp_div_less)
  have r: "d mod 0x400 < 0x400" by simp
  have "(d div 0x400) * 0x400 + d mod 0x400 = d" by simp
  then show "is_surrogate (0xD800 + (c - 0x10000) div 0x400)"
    and "decode_pair (0xD800 + (c - 0x10000) div 0x400) (0xDC00 + (c - 0x10000) mod 0x400) = Some c"
    using q r unfolding d_def[symmetric] is_surrogate_def decode_pair_def c by auto
qed

lemma html_format_loop:
  assumes "list_all is_scalar str" and "list_all well_placed tags"
  shows "\<exists>out. format_loop HTML_writer (encode_utf16 str) idx None tags = Some out \<and> html_visible out = Some str"
  using assms
proof (induction str arbitrary: idx tags)
  case Nil
  obtain out where "write_rest HTML_writer tags = Some out" "invisible out" using write_rest_invisible[OF Nil(2)] by blast
  then show ?case by (auto simp: encode_utf16_def invisible_def dest: spec[of _ "[]"])
next
  case (Cons c str)
  have sc: "is_scalar c" and rest: "list_all is_scalar str" using Cons.prems(1) by simp_all
  obtain out1 tags1 where o1: "write_tags_at HTML_writer idx tags = Some (out1, tags1)" "invisible out1" "list_all well_placed tags1"
    using write_tags_at_invisible[OF Cons.prems(2)] by blast
  have enc: "encode_utf16 (c # str) = utf16_char c @ encode_utf16 str" by (simp add: encode_utf16_def)
  have wc: "write_char_fn HTML_writer = html_char" by (simp add: HTML_writer_def)
  show ?case
  proof (cases "c < 0x10000")
    case True
    then have "\<not> is_surrogate c" using sc by (auto simp: is_scalar_def is_surrogate_def)
    moreover obtain out where "format_loop HTML_writer (encode_utf16 str) (idx + 1) None tags1 = Some out" "html_visible out = Some str"
      using Cons.IH[OF rest o1(3)] by blast
    ultimately show ?thesis using True o1
      by (simp add: enc utf16_char_def wc invisible_def html_visible_char)
  next
    case False
    then have big: "0x10000 \<le> c" "c < 0x110000" using sc by (auto simp: is_scalar_def)
    obtain out2 tags2 where o2: "write_tags_at HTML_writer (idx + 1) tags1 = Some (out2, tags2)" "invisible out2" "list_all well_placed tags2"
      using write_tags_at_invisible[OF o1(3)] by blast
    obtain out where "format_loop HTML_writer (encode_utf16 str) (idx + 1 + 1) None tags2 = Some out" "html_visible out = Some str"
      using Cons.IH[OF rest o2(3)] by blast
    then show ?thesis using False o1 o2 utf16_pair[OF big]
      by (simp add: enc utf16_char_def wc invisible_def html_visible_char)
  qed
qed



text \<open>Without any markup the text is returned unescaped, so a reader of HTML does not see it.\<close>

lemma html_unescaped_without_entities:
  "as_html (lit ''a<b'') [] = Some (lit ''a<b'') \<and> html_visible (lit ''a<b'') = None"
  by (simp add: as_html_def render_format_def renderer_new_def lit_def)

text \<open>A mention of the user id 0 panics when the buffer is sized.\<close>

lemma html_mention_zero_panics:
  "as_html (lit ''ab'') [\<lparr>me_kind = MekTextMention 0, me_offset = 0, me_length = 2\<rparr>] = None"
  by (simp add: as_html_def render_format_def renderer_new_def tags_of_entity_def kind_of_entity_def HTML_writer_def sizes_def)

text \<open>An empty entity is closed before it is opened: at one offset end tags sort before start tags.\<close>

lemma html_empty_entity_reversed:
  "as_html (lit ''ab'') [\<lparr>me_kind = MekBold, me_offset = 1, me_length = 0\<rparr>] = Some (lit ''a</b><b>b'')"
proof -
  have "rn_tags (renderer_new (lit ''ab'') [\<lparr>me_kind = MekBold, me_offset = 1, me_length = 0\<rparr>])
      = [\<lparr>tg_place = PlaceEnd, tg_kind = Bold, tg_offset = 1, tg_index = 0\<rparr>,
         \<lparr>tg_place = PlaceStart, tg_kind = Bold, tg_offset = 1, tg_index = 0\<rparr>]"
    by (simp add: renderer_new_def tags_of_entity_def kind_of_entity_def tag_key_def sort_key_def)
  then show ?thesis
    by (simp add: as_html_def render_format_def HTML_writer_def sizes_def lit_def encode_utf16_def utf16_char_def
        is_surrogate_def simple_tag_def html_char_def)
qed

end
