(* ===== verification/Scheduler_Findings.thy ===== *)
theory Scheduler_Findings
  imports Scheduler_Demo
begin

text \<open>
  Behaviours of the scheduler that its comments do not describe, each shown on the definitions: what a
  re-arm after a grant sees, a parked request nobody is woken for, a bounded lane that forgets its
  permits, and the one field that a refused enqueue changes.
\<close>

subsection \<open>Re-arming after a grant\<close>

text \<open>
  \<open>rearm_reservations\<close> runs after \<open>grant\<close> took the job out of the pending map, so the windows it walks
  are never those of the chat or of the class.
\<close>

lemma rearm_sees_global_only:
  assumes "grant c now s = Some t"
  shows "applicable_windows c t = [WinGlobal]"
proof -
  have "hm_get (jobs t) (c_job c) = None" using grant_frame[OF assms] by simp
  then show ?thesis by (simp add: applicable_windows_def)
qed

subsection \<open>A parked request without a wake-up\<close>

definition chat_request :: "nat \<Rightarrow> outbound_meta" where
  "chat_request w = \<lparr>m_scope = ScopeChat (KeyId 1), m_lane = None, m_class = 0, m_priority = NORMAL, m_weight = w\<rparr>"

definition chat_enqueue :: "nat \<Rightarrow> scheduler_state \<Rightarrow> scheduler_state" where
  "chat_enqueue w s = snd (enqueue (chat_request w) (demo_opts Serial Fifo 0) s)"

definition chat_state :: scheduler_state where
  "chat_state = projr (scheduler_new \<lparr>lim_global = [], lim_chat = [window_limit_new 10 10]\<rparr>
     \<lparr>clim_global = [], clim_chat = []\<rparr> (os_aging outbound_settings_default))"

definition parked_state :: scheduler_state where
  "parked_state = demo_grant 10 (demo_grant 0 (chat_enqueue 1 (chat_enqueue 1 (chat_enqueue 1
     (demo_grant 0 (chat_enqueue 10 chat_state))))))"


text \<open>
  A chat window of ten per ten nanoseconds is used up; of three waiting requests of the chat one holds
  the window back and two are parked.  When the window is free again, the owner and the first parked
  request are granted, and the other stays parked behind an expired hold: the window has room for it,
  it is in no queue, and \<open>next_deadline\<close> names no moment to look at it again.
\<close>

definition parked_report :: "scheduler_state \<Rightarrow> job_id list \<times> job_id list \<times> scheduler_wakeup \<times> job_id list" where
  "parked_report s = (map fst (jobs s), map fst (in_flight s), fst (next_deadline 10 s), demo_granted 10 s)"

lemma parked_request_without_wakeup:
  "parked_report parked_state = ([3], [0, 1, 2], ExternalEvent, [3])"
  by code_simp

subsection \<open>A bounded lane that forgets its permits\<close>

definition bounded_enqueue :: "scheduler_state \<Rightarrow> scheduler_state" where
  "bounded_enqueue s = snd (enqueue (demo_meta (Some 7) 1) (demo_opts (BoundedOrderedStart 2) Fifo 0) s)"

text \<open>
  Two requests wait in a lane of at most two permits and the second is cancelled.  The grant of the
  first finds only the cancelled entry behind it and drops the lane with its permit count, so two more
  requests are granted: three permits in flight.
\<close>

definition bounded_state :: scheduler_state where
  "bounded_state = demo_grant 0 (bounded_enqueue (bounded_enqueue
     (demo_grant 0 (cancel 1 0 (bounded_enqueue (bounded_enqueue (demo_state [])))))))"

lemma bounded_lane_exceeds_its_bound:
  "map (\<lambda>f. if_lane (snd f)) (in_flight bounded_state) = [Some 7, Some 7, Some 7]"
  by code_simp

subsection \<open>A refused enqueue\<close>

lemma refused_enqueue_takes_a_number:
  "(case enqueue (demo_meta None 1) ((demo_opts Serial Fifo 0)\<lparr>opt_queue_capacity := 0\<rparr>) (demo_state []) of
      (r, t) \<Rightarrow> r = Inl QueueFull \<and> next_sequence (demo_state []) = 0 \<and> next_sequence t = 1)"
  by code_simp

end
