(* ===== verification/Drafter_Source.thy ===== *)
theory Drafter_Source
  imports Limiter
begin

text \<open>
  What a drafter reads from (\<open>crates/teloxide/src/drafter/source.rs\<close>): the replace-the-latest source
  and the accumulator source, each behind one mutex, and the contract of \<open>PreviewSource\<close> as a locale
  that both implement.  Also the configuration check of \<open>config.rs\<close>.  Revisions are saturating
  64-bit counters.
\<close>

subsection \<open>Configuration\<close>

type_synonym draft_revision = nat

definition sat_succ :: "nat \<Rightarrow> nat" where
  "sat_succ n = (if n < 2 ^ 64 - 1 then n + 1 else n)"

lemma sat_succ_ge: "n \<le> sat_succ n"
  by (simp add: sat_succ_def)

definition millis :: "nat \<Rightarrow> duration" where
  "millis n = n * 1000000"

definition secs :: "nat \<Rightarrow> duration" where
  "secs n = n * 1000000000"

record draft_config =
  dc_coalesce_window :: duration
  dc_min_update_interval :: duration
  dc_refresh_interval :: duration
  dc_request_timeout :: duration
  dc_retry_initial :: duration
  dc_retry_max :: duration
  dc_terminal_retry_budget :: nat
  dc_terminal_timeout :: duration
  dc_max_preview_failures :: "nat option"

definition draft_config_default :: draft_config where
  "draft_config_default = \<lparr>dc_coalesce_window = millis 75, dc_min_update_interval = secs 1,
     dc_refresh_interval = secs 15, dc_request_timeout = secs 8, dc_retry_initial = secs 1,
     dc_retry_max = secs 15, dc_terminal_retry_budget = 3, dc_terminal_timeout = secs 30,
     dc_max_preview_failures = Some 5\<rparr>"

datatype draft_config_error =
  ZeroDuration string | RetryRange | RequestTimeoutNotBelowRefresh | RefreshIntervalTooLong

definition validate_config :: "bool \<Rightarrow> draft_config \<Rightarrow> draft_config_error option" where
  "validate_config expires_without_refresh c =
    (if dc_coalesce_window c = 0 then Some (ZeroDuration ''coalesce_window'')
     else if dc_min_update_interval c = 0 then Some (ZeroDuration ''min_update_interval'')
     else if dc_request_timeout c = 0 then Some (ZeroDuration ''request_timeout'')
     else if dc_retry_initial c = 0 then Some (ZeroDuration ''retry_initial'')
     else if dc_terminal_timeout c = 0 then Some (ZeroDuration ''terminal_timeout'')
     else if dc_retry_max c < dc_retry_initial c then Some RetryRange
     else if expires_without_refresh \<and> dc_refresh_interval c \<le> dc_request_timeout c
       then Some RequestTimeoutNotBelowRefresh
     else if expires_without_refresh \<and> secs 30 \<le> dc_refresh_interval c then Some RefreshIntervalTooLong
     else None)"

lemma validate_config_default: "validate_config e draft_config_default = None"
  by (simp add: validate_config_def draft_config_default_def millis_def secs_def)

subsection \<open>Sources\<close>

datatype source_gate = GateRunning | GateTransition | GateClosed

datatype draft_push_error = PushClosed | PushClosedForTransition

text \<open>The operations of the trait \<open>PreviewSource\<close>; \<open>apply\<close> reads the clock.\<close>

record ('s, 'u, 'p) source_ops =
  so_apply :: "instant \<Rightarrow> 'u \<Rightarrow> 's \<Rightarrow> (draft_push_error + draft_revision) \<times> 's"
  so_snapshot :: "'s \<Rightarrow> (draft_revision \<times> 'p) option"
  so_revision :: "'s \<Rightarrow> draft_revision"
  so_dirty_since :: "'s \<Rightarrow> instant option"
  so_mark_delivered :: "draft_revision \<Rightarrow> 's \<Rightarrow> 's"
  so_begin_transition :: "'s \<Rightarrow> 's"
  so_reopen_segment :: "'s \<Rightarrow> 's"
  so_close :: "'s \<Rightarrow> 's"
  so_running :: "'s \<Rightarrow> bool"

definition gate_error :: "source_gate \<Rightarrow> draft_push_error option" where
  "gate_error g = (case g of GateRunning \<Rightarrow> None | GateTransition \<Rightarrow> Some PushClosedForTransition
     | GateClosed \<Rightarrow> Some PushClosed)"

subsubsection \<open>Replace the latest preview\<close>

record 'p snapshot_state =
  sn_gate :: source_gate
  sn_revision :: draft_revision
  sn_preview :: "'p option"
  sn_dirty_since :: "instant option"

definition snapshot_new :: "'p snapshot_state" where
  "snapshot_new = \<lparr>sn_gate = GateRunning, sn_revision = 0, sn_preview = None, sn_dirty_since = None\<rparr>"

definition snapshot_apply :: "instant \<Rightarrow> 'p \<Rightarrow> 'p snapshot_state
    \<Rightarrow> (draft_push_error + draft_revision) \<times> 'p snapshot_state" where
  "snapshot_apply now p s = (case gate_error (sn_gate s) of
     Some e \<Rightarrow> (Inl e, s)
   | None \<Rightarrow>
       let r = sat_succ (sn_revision s)
       in (Inr r, s\<lparr>sn_revision := r,
             sn_dirty_since := (if sn_dirty_since s = None then Some now else sn_dirty_since s),
             sn_preview := Some p\<rparr>))"

definition snapshot_snapshot :: "'p snapshot_state \<Rightarrow> (draft_revision \<times> 'p) option" where
  "snapshot_snapshot s = map_option (Pair (sn_revision s)) (sn_preview s)"

definition snapshot_mark_delivered :: "draft_revision \<Rightarrow> 'p snapshot_state \<Rightarrow> 'p snapshot_state" where
  "snapshot_mark_delivered r s = (if sn_revision s \<le> r then s\<lparr>sn_dirty_since := None\<rparr> else s)"

definition snapshot_begin_transition :: "'p snapshot_state \<Rightarrow> 'p snapshot_state" where
  "snapshot_begin_transition s = (if sn_gate s = GateRunning then s\<lparr>sn_gate := GateTransition\<rparr> else s)"

definition snapshot_reopen_segment :: "'p snapshot_state \<Rightarrow> 'p snapshot_state" where
  "snapshot_reopen_segment s =
     s\<lparr>sn_gate := GateRunning, sn_revision := 0, sn_preview := None, sn_dirty_since := None\<rparr>"

definition snapshot_close :: "'p snapshot_state \<Rightarrow> 'p snapshot_state" where
  "snapshot_close s = s\<lparr>sn_gate := GateClosed\<rparr>"

definition replace_preview :: "('p snapshot_state, 'p, 'p) source_ops" where
  "replace_preview = \<lparr>so_apply = snapshot_apply, so_snapshot = snapshot_snapshot,
     so_revision = sn_revision, so_dirty_since = sn_dirty_since,
     so_mark_delivered = snapshot_mark_delivered, so_begin_transition = snapshot_begin_transition,
     so_reopen_segment = snapshot_reopen_segment, so_close = snapshot_close,
     so_running = (\<lambda>s. sn_gate s = GateRunning)\<rparr>"

subsubsection \<open>A user-owned accumulator\<close>

text \<open>The trait \<open>DraftAccumulator\<close> is the user's code: three functions.\<close>

record ('a, 'u, 'p) accumulator =
  ac_apply :: "'u \<Rightarrow> 'a \<Rightarrow> 'a"
  ac_snapshot :: "'a \<Rightarrow> 'p option"
  ac_reset_segment :: "'a \<Rightarrow> 'a"

record 'a accumulator_state =
  as_gate :: source_gate
  as_revision :: draft_revision
  as_accumulator :: 'a
  as_dirty_since :: "instant option"

definition accumulator_new :: "'a \<Rightarrow> 'a accumulator_state" where
  "accumulator_new a = \<lparr>as_gate = GateRunning, as_revision = 0, as_accumulator = a, as_dirty_since = None\<rparr>"

definition accumulator_apply :: "('a, 'u, 'p) accumulator \<Rightarrow> instant \<Rightarrow> 'u \<Rightarrow> 'a accumulator_state
    \<Rightarrow> (draft_push_error + draft_revision) \<times> 'a accumulator_state" where
  "accumulator_apply ac now u s = (case gate_error (as_gate s) of
     Some e \<Rightarrow> (Inl e, s)
   | None \<Rightarrow>
       let r = sat_succ (as_revision s)
       in (Inr r, s\<lparr>as_accumulator := ac_apply ac u (as_accumulator s), as_revision := r,
             as_dirty_since := (if as_dirty_since s = None then Some now else as_dirty_since s)\<rparr>))"

definition accumulator_snapshot :: "('a, 'u, 'p) accumulator \<Rightarrow> 'a accumulator_state
    \<Rightarrow> (draft_revision \<times> 'p) option" where
  "accumulator_snapshot ac s = map_option (Pair (as_revision s)) (ac_snapshot ac (as_accumulator s))"

definition accumulator_mark_delivered :: "draft_revision \<Rightarrow> 'a accumulator_state \<Rightarrow> 'a accumulator_state" where
  "accumulator_mark_delivered r s = (if as_revision s \<le> r then s\<lparr>as_dirty_since := None\<rparr> else s)"

definition accumulator_begin_transition :: "'a accumulator_state \<Rightarrow> 'a accumulator_state" where
  "accumulator_begin_transition s = (if as_gate s = GateRunning then s\<lparr>as_gate := GateTransition\<rparr> else s)"

definition accumulator_reopen_segment :: "('a, 'u, 'p) accumulator \<Rightarrow> 'a accumulator_state \<Rightarrow> 'a accumulator_state" where
  "accumulator_reopen_segment ac s = s\<lparr>as_accumulator := ac_reset_segment ac (as_accumulator s),
     as_gate := GateRunning, as_revision := 0, as_dirty_since := None\<rparr>"

definition accumulator_close :: "'a accumulator_state \<Rightarrow> 'a accumulator_state" where
  "accumulator_close s = s\<lparr>as_gate := GateClosed\<rparr>"

definition accumulator_source :: "('a, 'u, 'p) accumulator \<Rightarrow> ('a accumulator_state, 'u, 'p) source_ops" where
  "accumulator_source ac = \<lparr>so_apply = accumulator_apply ac, so_snapshot = accumulator_snapshot ac,
     so_revision = as_revision, so_dirty_since = as_dirty_since,
     so_mark_delivered = accumulator_mark_delivered, so_begin_transition = accumulator_begin_transition,
     so_reopen_segment = accumulator_reopen_segment ac, so_close = accumulator_close,
     so_running = (\<lambda>s. as_gate s = GateRunning)\<rparr>"

subsection \<open>The contract\<close>

text \<open>
  What the worker relies on.  A push while running takes the next revision and remembers the first
  unseen update; marking a revision delivered forgets it only when nothing newer arrived; only
  \<open>reopen_segment\<close> restarts the count.
\<close>

locale preview_source =
  fixes so :: "('s, 'u, 'p) source_ops"
  assumes apply_running: "so_running so s \<Longrightarrow> so_apply so now u s = (res, t)
      \<Longrightarrow> res = Inr (so_revision so t) \<and> so_revision so t = sat_succ (so_revision so s)
        \<and> so_dirty_since so t = (if so_dirty_since so s = None then Some now else so_dirty_since so s)
        \<and> so_running so t"
    and apply_gated: "\<not> so_running so s \<Longrightarrow> (\<exists>e. so_apply so now u s = (Inl e, s))"
    and snapshot_revision: "so_snapshot so s = Some (r, p) \<Longrightarrow> r = so_revision so s"
    and mark_delivered: "so_revision so (so_mark_delivered so r s) = so_revision so s"
      "so_dirty_since so (so_mark_delivered so r s) = (if so_revision so s \<le> r then None else so_dirty_since so s)"
      "so_running so (so_mark_delivered so r s) = so_running so s"
    and begin_transition: "so_revision so (so_begin_transition so s) = so_revision so s"
      "so_dirty_since so (so_begin_transition so s) = so_dirty_since so s"
      "\<not> so_running so (so_begin_transition so s)"
    and close: "so_revision so (so_close so s) = so_revision so s"
      "so_dirty_since so (so_close so s) = so_dirty_since so s" "\<not> so_running so (so_close so s)"
    and reopen_segment: "so_revision so (so_reopen_segment so s) = 0"
      "so_dirty_since so (so_reopen_segment so s) = None" "so_running so (so_reopen_segment so s)"
begin

lemmas source_laws = mark_delivered begin_transition close reopen_segment

lemma apply_cases:
  obtains (pushed) t where "so_running so s" and "so_apply so now u s = (Inr (so_revision so t), t)"
      and "so_revision so t = sat_succ (so_revision so s)" and "so_running so t"
      and "so_dirty_since so t = (if so_dirty_since so s = None then Some now else so_dirty_since so s)"
  | (refused) e where "\<not> so_running so s" and "so_apply so now u s = (Inl e, s)"
proof (cases "so_running so s")
  case True
  obtain res t where a: "so_apply so now u s = (res, t)" by fastforce
  show ?thesis using apply_running[OF True a] a True by (intro pushed[of t]) auto
next
  case False
  then show ?thesis using apply_gated refused by blast
qed

end

lemmas source_defs = gate_error_def snapshot_apply_def snapshot_snapshot_def snapshot_mark_delivered_def
  snapshot_begin_transition_def snapshot_reopen_segment_def snapshot_close_def accumulator_apply_def
  accumulator_snapshot_def accumulator_mark_delivered_def accumulator_begin_transition_def
  accumulator_reopen_segment_def accumulator_close_def

interpretation replacing: preview_source replace_preview
  by unfold_locales
    (auto simp: replace_preview_def source_defs Let_def split: source_gate.splits option.splits if_splits)

interpretation accumulating: preview_source "accumulator_source ac" for ac
  by unfold_locales
    (auto simp: accumulator_source_def source_defs Let_def split: source_gate.splits option.splits if_splits)

end
