(* ===== verification/Drafter_Preview.thy ===== *)
theory Drafter_Preview
  imports Drafter_Source
begin

text \<open>
  The preview half of the drafter's worker (\<open>crates/teloxide/src/drafter/machine.rs\<close>): when a preview
  or a refresh is due, sending it, the back-off after failures, and the callers of \<open>flush\<close>.  The
  backend and the limiter are traits: what they answer and when is an argument (\<open>preview_env\<close>), and
  producers act on the source while the worker waits.  What the worker reports to observers, limiter
  and callers is its log.  Durations and instants are exact, without the overflow panics of \<open>Duration\<close>.
\<close>

subsection \<open>Data\<close>

datatype drafter_operation =
    OpPreview | OpPreviewFirstSend | OpPreviewEdit | OpRefresh | OpSegmentCommit | OpFinal | OpCleanup

datatype drafter_error_class =
    ClsRetryAfter duration drafter_rate_limit_scope | ClsTransient bool | ClsInvalidPayload | ClsPermanent | ClsAmbiguous

datatype delivery_certainty = NotAttempted | Rejected | UnknownDelivery

record disposition =
  dp_class :: drafter_error_class
  dp_delivery :: delivery_certainty

datatype drafter_mode = NativeDraft | EditInPlace | StatusEditThenSendFinal

datatype drafter_acquire_error = DrClosed | DrQueueFull | DrSuperseded | DrInvalidConfiguration

datatype permit_completion =
    CompSuccess | CompFailed | CompRetryAfter drafter_rate_limit_scope duration | CompCancelledAfterGrant | CompNoRequest

datatype drafter_event_kind =
    EvSpawn | EvUpdate | EvCoalesced | EvPreviewStart | EvPreviewSuccess | EvPreviewError | EvPreviewTimeout
  | EvRetryAfter | EvRetryExhausted | EvOperationDeadlineExceeded | EvBackendTimeout | EvCallerCancelled
  | EvTransientRetry | EvRefresh | EvFlushStart | EvFlushComplete | EvSegmentCommit | EvSegmentCommitError
  | EvSegmentRotate | EvFinishStart | EvFinalSuccess | EvFinalError | EvAbortError | EvCleanupError | EvAbort
  | EvWorkerStop

datatype draft_flush_error = FlWorkerStopped | FlPreviewDisabled | FlRateLimiter drafter_acquire_error

text \<open>\<open>DraftCommitError\<close> and \<open>DraftFinishError\<close> have the same constructors.\<close>

datatype 'e draft_terminal_error =
    TeWorkerStoppedBeforeCommand | TeRateLimiter drafter_acquire_error
  | TeWorkerStoppedAfterCommand delivery_certainty | TeRequestTimeout delivery_certainty
  | TeDeadlineExceeded delivery_certainty | TeBackend 'e drafter_error_class delivery_certainty

datatype 'e draft_abort_error =
    AbWorkerStopped | AbRequestTimeout | AbRateLimiter drafter_acquire_error | AbBackend 'e

text \<open>
  What the worker does to the outside, in order: lifecycle events (with the classification of a
  failure), outcomes reported for permits, penalties, calls of the backend, answers to callers.  The
  fields of an event that repeat the worker's state (instance, mode, chat, segment, the backend's ids)
  are left out.
\<close>

datatype ('o, 'e) drafter_action =
    Event drafter_event_kind "draft_revision option" "drafter_operation option" "disposition option"
  | CoalescedRange draft_revision draft_revision draft_revision drafter_operation
  | PermitReport permit_completion
  | Penalize drafter_rate_limit_scope duration
  | Call drafter_operation instant
  | CleanupCall
  | FlushAnswer draft_revision nat "draft_flush_error + draft_revision"
  | CommitAnswer "'e draft_terminal_error + 'o"
  | FinishAnswer "'e draft_terminal_error + 'o"
  | AbortAnswer "'e draft_abort_error + unit"

text \<open>
  What is fixed for one drafter: its configuration, the backend's capabilities and classification of
  errors, and what its limiter supports.
\<close>

record 'e drafter =
  dr_config :: draft_config
  dr_mode :: drafter_mode
  dr_expires :: bool
  dr_chat :: chat_id
  dr_classify :: "drafter_operation \<Rightarrow> 'e \<Rightarrow> disposition"
  dr_is_timeout :: "'e \<Rightarrow> bool"
  dr_completion_handles :: bool
  dr_scheduling :: bool
  dr_context :: bool

record ('s, 'o, 'e) worker =
  wk_source :: 's
  wk_backend :: bool
  wk_last_delivered :: draft_revision
  wk_last_attempt :: "instant option"
  wk_next_watchdog :: "instant option"
  wk_retry_not_before :: "instant option"
  wk_retry_delay :: duration
  wk_failures :: nat
  wk_preview_disabled :: bool
  wk_flush_waiters :: "(draft_revision \<times> nat) list"
  wk_segment :: nat
  wk_generation :: "(chat_id \<times> int) option"
  wk_log :: "('o, 'e) drafter_action list"

definition emit :: "('o, 'e) drafter_action \<Rightarrow> ('s, 'o, 'e) worker \<Rightarrow> ('s, 'o, 'e) worker" where
  "emit a w = w\<lparr>wk_log := wk_log w @ [a]\<rparr>"

definition record_event :: "drafter_event_kind \<Rightarrow> draft_revision option \<Rightarrow> drafter_operation option
    \<Rightarrow> ('s, 'o, 'e) worker \<Rightarrow> ('s, 'o, 'e) worker" where
  "record_event k r op w = emit (Event k r op None) w"

definition record_error :: "drafter_event_kind \<Rightarrow> draft_revision option \<Rightarrow> drafter_operation option
    \<Rightarrow> disposition \<Rightarrow> ('s, 'o, 'e) worker \<Rightarrow> ('s, 'o, 'e) worker" where
  "record_error k r op d w = emit (Event k r op (Some d)) w"

definition complete_permit_of :: "'e drafter \<Rightarrow> permit_completion \<Rightarrow> ('s, 'o, 'e) worker \<Rightarrow> ('s, 'o, 'e) worker" where
  "complete_permit_of dr c w =
    (let w1 = emit (PermitReport c) w in
     case c of CompRetryAfter sc d \<Rightarrow> if dr_completion_handles dr then w1 else emit (Penalize sc d) w1
     | _ \<Rightarrow> w1)"

definition complete_optional_permit :: "'e drafter \<Rightarrow> bool \<Rightarrow> permit_completion
    \<Rightarrow> ('s, 'o, 'e) worker \<Rightarrow> ('s, 'o, 'e) worker" where
  "complete_optional_permit dr held c w = (if held then complete_permit_of dr c w else w)"

definition completion_of :: "drafter_error_class \<Rightarrow> permit_completion" where
  "completion_of c = (case c of ClsRetryAfter d sc \<Rightarrow> CompRetryAfter sc d | _ \<Rightarrow> CompFailed)"

subsection \<open>When something is due\<close>

definition source_changed :: "('s, 'u, 'p) source_ops \<Rightarrow> ('s, 'o, 'e) worker \<Rightarrow> bool" where
  "source_changed so w \<longleftrightarrow> wk_last_delivered w < so_revision so (wk_source w)"

definition flush_requested :: "('s, 'o, 'e) worker \<Rightarrow> bool" where
  "flush_requested w \<longleftrightarrow> list_ex (\<lambda>f. wk_last_delivered w < fst f) (wk_flush_waiters w)"

definition paced :: "'e drafter \<Rightarrow> ('s, 'o, 'e) worker \<Rightarrow> instant \<Rightarrow> bool" where
  "paced dr w now \<longleftrightarrow>
     (case wk_last_attempt w of None \<Rightarrow> True | Some t \<Rightarrow> t + dc_min_update_interval (dr_config dr) \<le> now)
   \<and> (case wk_retry_not_before w of None \<Rightarrow> True | Some t \<Rightarrow> t \<le> now)"

definition changed_due :: "'e drafter \<Rightarrow> ('s, 'u, 'p) source_ops \<Rightarrow> instant \<Rightarrow> ('s, 'o, 'e) worker \<Rightarrow> bool" where
  "changed_due dr so now w \<longleftrightarrow> source_changed so w
     \<and> (flush_requested w \<or> (case so_dirty_since so (wk_source w) of None \<Rightarrow> False
          | Some t \<Rightarrow> t + dc_coalesce_window (dr_config dr) \<le> now))
     \<and> paced dr w now"

definition refresh_due :: "'e drafter \<Rightarrow> ('s, 'u, 'p) source_ops \<Rightarrow> instant \<Rightarrow> ('s, 'o, 'e) worker \<Rightarrow> bool" where
  "refresh_due dr so now w \<longleftrightarrow> \<not> source_changed so w \<and> dr_expires dr
     \<and> (case wk_next_watchdog w of None \<Rightarrow> False | Some t \<Rightarrow> t \<le> now) \<and> paced dr w now"

definition pace :: "'e drafter \<Rightarrow> ('s, 'o, 'e) worker \<Rightarrow> instant \<Rightarrow> instant" where
  "pace dr w d =
    (let d1 = (case wk_last_attempt w of None \<Rightarrow> d | Some t \<Rightarrow> max d (t + dc_min_update_interval (dr_config dr)))
     in case wk_retry_not_before w of None \<Rightarrow> d1 | Some t \<Rightarrow> max d1 t)"

definition drafter_next_deadline :: "'e drafter \<Rightarrow> ('s, 'u, 'p) source_ops \<Rightarrow> instant
    \<Rightarrow> ('s, 'o, 'e) worker \<Rightarrow> instant option" where
  "drafter_next_deadline dr so now w =
    (if wk_preview_disabled w then None
     else if source_changed so w then
       Some (pace dr w (if flush_requested w then now
         else (case so_dirty_since so (wk_source w) of None \<Rightarrow> now | Some t \<Rightarrow> t)
           + dc_coalesce_window (dr_config dr)))
     else map_option (pace dr w) (wk_next_watchdog w))"

subsection \<open>Flushes\<close>

definition complete_flushes :: "('s, 'o, 'e) worker \<Rightarrow> ('s, 'o, 'e) worker" where
  "complete_flushes w =
    (let last = wk_last_delivered w in
     w\<lparr>wk_flush_waiters := filter (\<lambda>f. last < fst f \<and> \<not> wk_preview_disabled w) (wk_flush_waiters w),
       wk_log := wk_log w @ concat (map (\<lambda>(target, i).
         if target \<le> last then [FlushAnswer target i (Inr last), Event EvFlushComplete (Some last) None None]
         else if wk_preview_disabled w then [FlushAnswer target i (Inl FlPreviewDisabled)] else [])
         (wk_flush_waiters w))\<rparr>)"

text \<open>\<open>fail_flushes\<close>, and the draining at the start of a terminal command.\<close>

definition refuse_flushes :: "draft_flush_error \<Rightarrow> ('s, 'o, 'e) worker \<Rightarrow> ('s, 'o, 'e) worker" where
  "refuse_flushes e w = w\<lparr>wk_flush_waiters := [],
     wk_log := wk_log w @ map (\<lambda>(target, i). FlushAnswer target i (Inl e)) (wk_flush_waiters w)\<rparr>"

subsection \<open>Producers\<close>

text \<open>
  What other tasks do to the source: a push through the sink at some time (which emits an update
  event), the gate closed by \<open>commit_segment\<close> before its command is queued, or closed for good.
\<close>

datatype 'u producer = Push instant 'u | BeginTransition | CloseSource

definition produce :: "('s, 'u, 'p) source_ops \<Rightarrow> 'u producer \<Rightarrow> ('s, 'o, 'e) worker \<Rightarrow> ('s, 'o, 'e) worker" where
  "produce so p w = (case p of
     Push now u \<Rightarrow> (case so_apply so now u (wk_source w) of
         (Inr r, s) \<Rightarrow> record_event EvUpdate (Some r) None (w\<lparr>wk_source := s\<rparr>)
       | (Inl _, s) \<Rightarrow> w\<lparr>wk_source := s\<rparr>)
   | BeginTransition \<Rightarrow> w\<lparr>wk_source := so_begin_transition so (wk_source w)\<rparr>
   | CloseSource \<Rightarrow> w\<lparr>wk_source := so_close so (wk_source w)\<rparr>)"

definition produce_all :: "('s, 'u, 'p) source_ops \<Rightarrow> 'u producer list \<Rightarrow> ('s, 'o, 'e) worker \<Rightarrow> ('s, 'o, 'e) worker" where
  "produce_all so ps w = fold (produce so) ps w"

subsection \<open>Sending a preview\<close>

definition handle_preview_error :: "'e drafter \<Rightarrow> instant \<Rightarrow> drafter_error_class \<Rightarrow> drafter_operation
    \<Rightarrow> ('s, 'o, 'e) worker \<Rightarrow> ('s, 'o, 'e) worker" where
  "handle_preview_error dr now c op w =
    (let w1 = w\<lparr>wk_failures := min (wk_failures w + 1) (2 ^ 32 - 1)\<rparr>;
         retries_left = (case dc_max_preview_failures (dr_config dr) of None \<Rightarrow> True | Some m \<Rightarrow> wk_failures w1 < m)
     in case c of
          ClsRetryAfter delay sc \<Rightarrow>
            (record_event EvRetryAfter None (Some op) w1)\<lparr>wk_retry_not_before := Some (now + delay)\<rparr>
        | _ \<Rightarrow>
            if c = ClsTransient True \<and> retries_left then
              (record_event EvTransientRetry None (Some op) w1)\<lparr>
                wk_retry_not_before := Some (now + wk_retry_delay w1),
                wk_retry_delay := min (wk_retry_delay w1 * 2) (dc_retry_max (dr_config dr))\<rparr>
            else complete_flushes (w1\<lparr>wk_preview_disabled := True, wk_next_watchdog := None\<rparr>))"

definition skip_delivered :: "('s, 'u, 'p) source_ops \<Rightarrow> draft_revision \<Rightarrow> ('s, 'o, 'e) worker \<Rightarrow> ('s, 'o, 'e) worker" where
  "skip_delivered so r w = complete_flushes (w\<lparr>wk_last_delivered := max (wk_last_delivered w) r,
     wk_source := so_mark_delivered so r (wk_source w)\<rparr>)"

definition preview_delivered :: "'e drafter \<Rightarrow> ('s, 'u, 'p) source_ops \<Rightarrow> instant \<Rightarrow> drafter_operation
    \<Rightarrow> draft_revision \<Rightarrow> bool \<Rightarrow> ('s, 'o, 'e) worker \<Rightarrow> ('s, 'o, 'e) worker" where
  "preview_delivered dr so now op r held w =
    (let w1 = complete_optional_permit dr held CompSuccess w;
         skipped_from = sat_succ (wk_last_delivered w1); skipped_to = r - 1;
         w2 = record_event EvPreviewSuccess (Some r) (Some op) (w1\<lparr>
           wk_last_delivered := max (wk_last_delivered w1) r,
           wk_source := so_mark_delivered so r (wk_source w1),
           wk_retry_delay := dc_retry_initial (dr_config dr),
           wk_failures := 0, wk_retry_not_before := None,
           wk_next_watchdog := (if dr_expires dr then Some (now + dc_refresh_interval (dr_config dr)) else None)\<rparr>)
     in complete_flushes (if skipped_from \<le> skipped_to
          then emit (CoalescedRange r skipped_from skipped_to op) w2 else w2))"

definition preview_timed_out :: "'e drafter \<Rightarrow> instant \<Rightarrow> drafter_operation \<Rightarrow> draft_revision \<Rightarrow> bool
    \<Rightarrow> ('s, 'o, 'e) worker \<Rightarrow> ('s, 'o, 'e) worker" where
  "preview_timed_out dr now op r held w =
    (let w1 = complete_optional_permit dr held CompFailed w;
         retry_safe = (dr_mode dr \<notin> {EditInPlace, StatusEditThenSendFinal} \<or> 0 < wk_last_delivered w1);
         d = \<lparr>dp_class = ClsTransient retry_safe, dp_delivery = UnknownDelivery\<rparr>
     in handle_preview_error dr now (dp_class d) op (record_error EvPreviewTimeout (Some r) (Some op) d w1))"

definition preview_failed :: "'e drafter \<Rightarrow> instant \<Rightarrow> drafter_operation \<Rightarrow> draft_revision \<Rightarrow> bool \<Rightarrow> 'e
    \<Rightarrow> ('s, 'o, 'e) worker \<Rightarrow> ('s, 'o, 'e) worker" where
  "preview_failed dr now op r held e w =
    (let d = dr_classify dr op e;
         w1 = complete_optional_permit dr held (completion_of (dp_class d)) w
     in handle_preview_error dr now (dp_class d) op (record_error EvPreviewError (Some r) (Some op) d w1))"

text \<open>
  The environment of one preview: the clock when the worker looks, the backend's check for a preview
  that changes nothing (before and after the wait), what the wait for a permit ends with (a command
  may win the race), what producers do while it waits and while the request runs, and the request's
  duration and outcome.
\<close>

datatype drafter_command = CmdFlush draft_revision nat | CmdCommit | CmdFinish | CmdAbort

datatype preview_wait = PwPermit | PwError drafter_acquire_error | PwCommand "drafter_command option"

record ('u, 'p, 'e) preview_env =
  pv_now :: instant
  pv_noop :: "'p \<Rightarrow> bool"
  pv_waiting :: "'u producer list"
  pv_wait :: preview_wait
  pv_waited :: instant
  pv_noop_after :: "'p \<Rightarrow> bool"
  pv_sending :: "'u producer list"
  pv_call :: "duration \<times> 'e option"
  pv_done :: instant

text \<open>A backend that schedules its own requests is not timed by the worker.\<close>

definition update_result :: "'e drafter \<Rightarrow> ('u, 'p, 'e) preview_env \<Rightarrow> 'e option option" where
  "update_result dr env = (if dr_scheduling dr \<or> fst (pv_call env) \<le> dc_request_timeout (dr_config dr)
     then Some (snd (pv_call env)) else None)"

definition finish_preview :: "'e drafter \<Rightarrow> ('s, 'u, 'p) source_ops \<Rightarrow> ('u, 'p, 'e) preview_env
    \<Rightarrow> drafter_operation \<Rightarrow> draft_revision \<Rightarrow> bool \<Rightarrow> ('s, 'o, 'e) worker \<Rightarrow> ('s, 'o, 'e) worker" where
  "finish_preview dr so env op r held w = (case update_result dr env of
     Some None \<Rightarrow> preview_delivered dr so (pv_done env) op r held w
   | Some (Some e) \<Rightarrow>
       if dr_is_timeout dr e then preview_timed_out dr (pv_done env) op r held w
       else preview_failed dr (pv_done env) op r held e w
   | None \<Rightarrow> preview_timed_out dr (pv_done env) op r held w)"

definition send_preview :: "'e drafter \<Rightarrow> ('s, 'u, 'p) source_ops \<Rightarrow> ('u, 'p, 'e) preview_env
    \<Rightarrow> draft_revision \<Rightarrow> drafter_operation \<Rightarrow> ('s, 'o, 'e) worker \<Rightarrow> ('s, 'o, 'e) worker" where
  "send_preview dr so env current op w =
    (if \<not> so_running so (wk_source w) then complete_permit_of dr CompNoRequest w
     else case so_snapshot so (wk_source w) of
       None \<Rightarrow> complete_flushes ((complete_permit_of dr CompNoRequest w)\<lparr>wk_last_delivered := current,
         wk_source := so_mark_delivered so current (wk_source w), wk_next_watchdog := None\<rparr>)
     | Some (r, p) \<Rightarrow>
         if dr_scheduling dr \<and> pv_noop_after env p then skip_delivered so r (complete_permit_of dr CompNoRequest w)
         else
           let held = (\<not> (dr_scheduling dr \<and> dr_context dr));
               w1 = emit (Call op (pv_waited env)) (record_event EvPreviewStart (Some r) (Some op)
                 (w\<lparr>wk_last_attempt := Some (pv_waited env), wk_retry_not_before := None\<rparr>))
           in finish_preview dr so env op r held (produce_all so (pv_sending env) w1))"

datatype preview_run = RunIdle | RunContinue | RunCommand "drafter_command option"

definition local_noop :: "'e drafter \<Rightarrow> ('s, 'u, 'p) source_ops \<Rightarrow> ('u, 'p, 'e) preview_env
    \<Rightarrow> ('s, 'o, 'e) worker \<Rightarrow> draft_revision option" where
  "local_noop dr so env w = (if dr_scheduling dr then
     (case so_snapshot so (wk_source w) of None \<Rightarrow> None
      | Some (r, p) \<Rightarrow> if pv_noop env p then Some r else None) else None)"

definition run_due_preview :: "'e drafter \<Rightarrow> ('s, 'u, 'p) source_ops \<Rightarrow> ('u, 'p, 'e) preview_env
    \<Rightarrow> ('s, 'o, 'e) worker \<Rightarrow> preview_run \<times> ('s, 'o, 'e) worker" where
  "run_due_preview dr so env w =
    (if \<not> so_running so (wk_source w) then (RunIdle, w)
     else if wk_preview_disabled w then (RunIdle, complete_flushes w)
     else
       let current = so_revision so (wk_source w);
           changed = changed_due dr so (pv_now env) w; refresh = refresh_due dr so (pv_now env) w
       in if \<not> changed \<and> \<not> refresh then (RunIdle, complete_flushes w)
       else
         let reason = (if changed then OpPreview else OpRefresh);
             w1 = (if refresh then record_event EvRefresh (Some current) (Some reason) w else w)
         in if \<not> wk_backend w1 then (RunIdle, w1)
         else case local_noop dr so env w1 of
           Some r \<Rightarrow> (RunContinue, skip_delivered so r w1)
         | None \<Rightarrow>
             let w2 = produce_all so (pv_waiting env) w1 in
             case pv_wait env of
               PwError e \<Rightarrow> (RunContinue, refuse_flushes (FlRateLimiter e)
                   (w2\<lparr>wk_retry_not_before := Some (pv_waited env + wk_retry_delay w2)\<rparr>))
             | PwCommand c \<Rightarrow> (RunCommand c, w2)
             | PwPermit \<Rightarrow> (RunContinue, send_preview dr so env current reason w2))"

end
