(* ===== verification/Drafter_Terminal.thy ===== *)
theory Drafter_Terminal
  imports Drafter_Preview
begin

text \<open>
  The terminal half of the drafter's worker (\<open>machine.rs\<close>): committing a segment, finishing and
  aborting, with the retry loop, the deadlines, the cancellation by the caller and the clean-up.  A
  biased \<open>select!\<close> is the earliest of its branches, ties going to the first; \<open>timeout_at\<close> prefers a
  result that is ready at the deadline.
\<close>

subsection \<open>Waiting\<close>

datatype select_branch = SelCancelled | SelDeadline | SelOther

text \<open>The three branches \<open>reply.closed()\<close>, \<open>sleep_until(deadline)\<close> and one more, polled in this order.\<close>

definition select_biased :: "instant option \<Rightarrow> instant \<Rightarrow> instant option \<Rightarrow> instant \<Rightarrow> instant \<times> select_branch" where
  "select_biased closed deadline other now =
    (let d = max now deadline;
         first = (case other of None \<Rightarrow> (d, SelDeadline)
           | Some t \<Rightarrow> if max now t < d then (max now t, SelOther) else (d, SelDeadline))
     in case closed of None \<Rightarrow> first
        | Some c \<Rightarrow> if max now c \<le> fst first then (max now c, SelCancelled) else first)"

datatype terminal_wait = WtPermit | WtAcquireError drafter_acquire_error | WtDeadline | WtCancelled

text \<open>
  \<open>limiter.acquire\<close> answers after some time, or never.  A permit that is ready at the deadline loses:
  the deadline is polled first.
\<close>

definition wait_for_terminal_permit :: "instant option \<Rightarrow> instant \<Rightarrow> instant option
    \<Rightarrow> (duration \<times> drafter_acquire_error option) option \<Rightarrow> instant \<Rightarrow> instant \<times> terminal_wait" where
  "wait_for_terminal_permit closed deadline retry_not_before acquire now =
    (case (case retry_not_before of
        None \<Rightarrow> (now, SelOther)
      | Some r \<Rightarrow> if now < r then select_biased closed deadline (Some r) now else (now, SelOther)) of
       (t, SelCancelled) \<Rightarrow> (t, WtCancelled)
     | (t, SelDeadline) \<Rightarrow> (t, WtDeadline)
     | (t, SelOther) \<Rightarrow>
         (case select_biased closed deadline (map_option (\<lambda>a. t + fst a) acquire) t of
            (u, SelCancelled) \<Rightarrow> (u, WtCancelled)
          | (u, SelDeadline) \<Rightarrow> (u, WtDeadline)
          | (u, SelOther) \<Rightarrow> (u, case acquire of Some (_, Some e) \<Rightarrow> WtAcquireError e | _ \<Rightarrow> WtPermit)))"

datatype ('o, 'e) terminal_call = TcCompleted "'e + 'o" | TcRequestTimeout | TcDeadline | TcCancelled

definition timed_call :: "duration option \<Rightarrow> (duration \<times> ('e + 'o)) option \<Rightarrow> (duration \<times> ('o, 'e) terminal_call) option" where
  "timed_call request_timeout call = (case (request_timeout, call) of
     (None, c) \<Rightarrow> map_option (\<lambda>(d, r). (d, TcCompleted r)) c
   | (Some T, None) \<Rightarrow> Some (T, TcRequestTimeout)
   | (Some T, Some (d, r)) \<Rightarrow> Some (if d \<le> T then (d, TcCompleted r) else (T, TcRequestTimeout)))"

definition await_terminal_call :: "duration option \<Rightarrow> instant option \<Rightarrow> instant
    \<Rightarrow> (duration \<times> ('e + 'o)) option \<Rightarrow> instant \<Rightarrow> instant \<times> ('o, 'e) terminal_call" where
  "await_terminal_call request_timeout closed deadline call now =
    (let d = max now deadline;
         result = (case timed_call request_timeout call of
             None \<Rightarrow> (d, TcDeadline)
           | Some (x, r) \<Rightarrow> if now + x \<le> d then (now + x, r) else (d, TcDeadline))
     in case closed of None \<Rightarrow> result
        | Some c \<Rightarrow> if max now c \<le> fst result then (max now c, TcCancelled) else result)"

subsection \<open>Clean-up\<close>

text \<open>
  One best-effort clean-up: whether there is one, when the limiter admits it, and the backend's
  answer.  Admission and call share one request timeout.
\<close>

record 'e cleanup_env =
  ce_possible :: bool
  ce_acquire :: "(duration \<times> drafter_acquire_error option) option"
  ce_call :: "(duration \<times> 'e option) option"

datatype 'e cleanup_result = ClOk | ClError 'e | ClTimeout | ClAcquire drafter_acquire_error | ClAcquireTimeout

definition cleanup_call :: "duration \<Rightarrow> 'e cleanup_env \<Rightarrow> 'e cleanup_result" where
  "cleanup_call T ce = (case ce_call ce of
     None \<Rightarrow> ClTimeout
   | Some (d, r) \<Rightarrow> if d \<le> T then (case r of None \<Rightarrow> ClOk | Some e \<Rightarrow> ClError e) else ClTimeout)"

text \<open>\<open>acquire_request_context\<close>: a limiter that keeps the permit is a configuration error.\<close>

definition acquire_request_context :: "'e drafter \<Rightarrow> 'e cleanup_env \<Rightarrow> (duration \<times> drafter_acquire_error option) option" where
  "acquire_request_context dr ce = map_option (\<lambda>(d, r). (d, case r of Some e \<Rightarrow> Some e
     | None \<Rightarrow> if dr_context dr then None else Some DrInvalidConfiguration)) (ce_acquire ce)"

definition bounded_cleanup :: "'e drafter \<Rightarrow> bool \<Rightarrow> 'e cleanup_env \<Rightarrow> 'e cleanup_result" where
  "bounded_cleanup dr scheduling ce =
    (let T = dc_request_timeout (dr_config dr) in
     if scheduling then
       (case acquire_request_context dr ce of
          None \<Rightarrow> ClAcquireTimeout
        | Some (d, r) \<Rightarrow> if T < d then ClAcquireTimeout
            else (case r of Some e \<Rightarrow> ClAcquire e | None \<Rightarrow> cleanup_call (T - d) ce))
     else cleanup_call T ce)"

definition cleanup_called :: "'e cleanup_result \<Rightarrow> ('s, 'o, 'e) worker \<Rightarrow> ('s, 'o, 'e) worker" where
  "cleanup_called r w = (case r of ClAcquire _ \<Rightarrow> w | ClAcquireTimeout \<Rightarrow> w | _ \<Rightarrow> emit CleanupCall w)"

definition ambiguous :: disposition where
  "ambiguous = \<lparr>dp_class = ClsAmbiguous, dp_delivery = UnknownDelivery\<rparr>"

definition record_cleanup_timeout :: "('s, 'o, 'e) worker \<Rightarrow> ('s, 'o, 'e) worker" where
  "record_cleanup_timeout w = record_error EvCleanupError None (Some OpCleanup) ambiguous
     (record_error EvBackendTimeout None (Some OpCleanup) ambiguous w)"

definition observe_cleanup_disposition :: "'e drafter \<Rightarrow> disposition \<Rightarrow> ('s, 'o, 'e) worker \<Rightarrow> ('s, 'o, 'e) worker" where
  "observe_cleanup_disposition dr d w =
    record_error EvCleanupError None (Some OpCleanup) d
      (case dp_class d of
         ClsRetryAfter delay sc \<Rightarrow>
           (let w1 = record_error EvRetryAfter None (Some OpCleanup) d w
            in if dr_completion_handles dr then w1 else emit (Penalize sc delay) w1)
       | _ \<Rightarrow> w)"

definition run_success_cleanup :: "'e drafter \<Rightarrow> 'e cleanup_env \<Rightarrow> ('s, 'o, 'e) worker \<Rightarrow> ('s, 'o, 'e) worker" where
  "run_success_cleanup dr ce w =
    (if \<not> ce_possible ce then w
     else let r = bounded_cleanup dr (dr_scheduling dr) ce; w1 = cleanup_called r w in
       case r of
         ClOk \<Rightarrow> w1
       | ClError e \<Rightarrow> observe_cleanup_disposition dr (dr_classify dr OpCleanup e) w1
       | ClTimeout \<Rightarrow> record_cleanup_timeout w1
       | ClAcquire _ \<Rightarrow> record_event EvCleanupError None (Some OpCleanup) w1
       | ClAcquireTimeout \<Rightarrow> record_cleanup_timeout w1)"

text \<open>After a failed delivery: the abort of the backend, then the failure it detached earlier, if any.\<close>

definition run_failure_cleanup :: "'e drafter \<Rightarrow> bool \<Rightarrow> 'e cleanup_env \<Rightarrow> 'e option \<Rightarrow> ('s, 'o, 'e) worker
    \<Rightarrow> ('s, 'o, 'e) worker" where
  "run_failure_cleanup dr should ce detached w =
    (let w1 = (if should then
           let r = bounded_cleanup dr (dr_scheduling dr \<and> ce_possible ce) ce; w0 = cleanup_called r w in
           (case r of ClOk \<Rightarrow> w0
            | ClError e \<Rightarrow> observe_cleanup_disposition dr (dr_classify dr OpCleanup e) w0
            | _ \<Rightarrow> record_error EvBackendTimeout None (Some OpCleanup) ambiguous w0)
         else w)
     in case detached of None \<Rightarrow> w1
        | Some e \<Rightarrow> observe_cleanup_disposition dr (dr_classify dr OpCleanup e) w1)"

subsection \<open>The delivery loop\<close>

datatype terminal_failure = RequestTimeout | DeadlineExceeded delivery_certainty

datatype ('o, 'e) terminal_outcome =
    OutSuccess 'o | OutBackend 'e | OutRateLimiter drafter_acquire_error | OutSynthetic terminal_failure

definition terminal_delivery_certainty :: "('o, 'e) terminal_outcome \<Rightarrow> disposition option \<Rightarrow> delivery_certainty option" where
  "terminal_delivery_certainty outcome disp = (case outcome of
     OutSuccess _ \<Rightarrow> None
   | OutBackend _ \<Rightarrow> map_option dp_delivery disp
   | OutRateLimiter _ \<Rightarrow> Some NotAttempted
   | OutSynthetic RequestTimeout \<Rightarrow> Some UnknownDelivery
   | OutSynthetic (DeadlineExceeded c) \<Rightarrow> Some c)"

record ('o, 'e) attempt_env =
  at_acquire :: "(duration \<times> drafter_acquire_error option) option"
  at_call :: "(duration \<times> ('e + 'o)) option"
  at_settle :: duration

record ('u, 'o, 'e) terminal_env =
  te_now :: instant
  te_closed :: "instant option"
  te_attempts :: "nat \<Rightarrow> ('o, 'e) attempt_env"
  te_meanwhile :: "'u producer list"
  te_success_cleanup :: "'e cleanup_env"
  te_failure_cleanup :: "'e cleanup_env"
  te_detached :: "'e option"
  te_draft_id :: "int option"

type_synonym ('s, 'o, 'e) terminal_run = "('o, 'e) terminal_outcome option \<times> disposition option \<times> ('s, 'o, 'e) worker"

definition lost :: "drafter_operation \<Rightarrow> drafter_event_kind \<Rightarrow> disposition \<Rightarrow> terminal_failure
    \<Rightarrow> ('s, 'o, 'e) worker \<Rightarrow> ('s, 'o, 'e) terminal_run" where
  "lost op k d f w = (Some (OutSynthetic f), Some d, record_error k None (Some op) d w)"

definition cancelled :: "drafter_operation \<Rightarrow> disposition option \<Rightarrow> ('s, 'o, 'e) worker \<Rightarrow> ('s, 'o, 'e) terminal_run" where
  "cancelled op disp w = (None, disp, record_event EvCallerCancelled None (Some op) w)"

text \<open>
  The loop of \<open>Commit\<close> and of \<open>Finish\<close>, which differ in the operation only: attempt \<open>i\<close>, with \<open>left\<close>
  retries left.  A cancelled run has no outcome.
\<close>

fun terminal_loop :: "'e drafter \<Rightarrow> ('u, 'o, 'e) terminal_env \<Rightarrow> drafter_operation \<Rightarrow> instant \<Rightarrow> nat \<Rightarrow> nat
    \<Rightarrow> instant option \<Rightarrow> disposition option \<Rightarrow> instant \<Rightarrow> ('s, 'o, 'e) worker \<Rightarrow> ('s, 'o, 'e) terminal_run" where
  "terminal_loop dr te op deadline left i retry disp now w =
    (let at = te_attempts te i in
     case wait_for_terminal_permit (te_closed te) deadline retry (at_acquire at) now of
       (_, WtAcquireError e) \<Rightarrow> (Some (OutRateLimiter e), disp, w)
     | (_, WtDeadline) \<Rightarrow>
         let c = (case disp of None \<Rightarrow> NotAttempted | Some d \<Rightarrow> dp_delivery d) in
         lost op EvOperationDeadlineExceeded \<lparr>dp_class = ClsAmbiguous, dp_delivery = c\<rparr> (DeadlineExceeded c) w
     | (_, WtCancelled) \<Rightarrow> cancelled op disp w
     | (t, WtPermit) \<Rightarrow>
         let held = (\<not> (dr_scheduling dr \<and> dr_context dr));
             limit = (if dr_scheduling dr then None else Some (dc_request_timeout (dr_config dr)));
             w1 = emit (Call op t) w
         in (case await_terminal_call limit (te_closed te) deadline (at_call at) t of
             (_, TcCompleted (Inr out)) \<Rightarrow>
               (Some (OutSuccess out), disp,
                run_success_cleanup dr (te_success_cleanup te) (complete_optional_permit dr held CompSuccess w1))
           | (u, TcCompleted (Inl e)) \<Rightarrow>
               if dr_is_timeout dr e then
                 lost op EvBackendTimeout ambiguous RequestTimeout (complete_optional_permit dr held CompFailed w1)
               else
                 let d = dr_classify dr op e; w2 = complete_optional_permit dr held (completion_of (dp_class d)) w1 in
                 (case dp_class d of
                    ClsRetryAfter delay _ \<Rightarrow>
                      let w3 = record_event EvRetryAfter None (Some op) w2 in
                      (case left of
                         0 \<Rightarrow> (Some (OutBackend e), Some d, record_event EvRetryExhausted None (Some op) w3)
                       | Suc n \<Rightarrow> terminal_loop dr te op deadline n (Suc i)
                           (Some (u + at_settle at + delay)) (Some d) (u + at_settle at) w3)
                  | _ \<Rightarrow> (Some (OutBackend e), Some d, w2))
           | (_, TcRequestTimeout) \<Rightarrow>
               lost op EvBackendTimeout ambiguous RequestTimeout (complete_optional_permit dr held CompFailed w1)
           | (_, TcDeadline) \<Rightarrow>
               lost op EvOperationDeadlineExceeded ambiguous (DeadlineExceeded UnknownDelivery)
                 (complete_optional_permit dr held CompFailed w1)
           | (_, TcCancelled) \<Rightarrow> cancelled op disp w1))"

declare terminal_loop.simps [simp del]

definition run_terminal :: "'e drafter \<Rightarrow> ('u, 'o, 'e) terminal_env \<Rightarrow> drafter_operation
    \<Rightarrow> ('s, 'o, 'e) worker \<Rightarrow> ('s, 'o, 'e) terminal_run" where
  "run_terminal dr te op w = terminal_loop dr te op (te_now te + dc_terminal_timeout (dr_config dr))
     (dc_terminal_retry_budget (dr_config dr)) 0 None None (te_now te) w"

subsection \<open>Commands\<close>

definition payload_invalid :: "('o, 'e) terminal_outcome \<Rightarrow> disposition option \<Rightarrow> bool" where
  "payload_invalid outcome disp = (case (outcome, disp) of
     (OutBackend _, Some d) \<Rightarrow> dp_class d = ClsInvalidPayload | _ \<Rightarrow> False)"

definition cleanup_allowed :: "('o, 'e) terminal_outcome \<Rightarrow> disposition option \<Rightarrow> bool" where
  "cleanup_allowed outcome disp \<longleftrightarrow> terminal_delivery_certainty outcome disp \<in> {Some NotAttempted, Some Rejected}"

definition terminal_answer :: "('o, 'e) terminal_outcome \<Rightarrow> disposition option \<Rightarrow> 'e draft_terminal_error + 'o" where
  "terminal_answer outcome disp = (case outcome of
     OutSuccess out \<Rightarrow> Inr out
   | OutRateLimiter e \<Rightarrow> Inl (TeRateLimiter e)
   | OutBackend e \<Rightarrow> Inl (TeBackend e (dp_class (the disp)) (dp_delivery (the disp)))
   | OutSynthetic RequestTimeout \<Rightarrow> Inl (TeRequestTimeout UnknownDelivery)
   | OutSynthetic (DeadlineExceeded c) \<Rightarrow> Inl (TeDeadlineExceeded c))"

definition reset_segment_state :: "'e drafter \<Rightarrow> ('s, 'o, 'e) worker \<Rightarrow> ('s, 'o, 'e) worker" where
  "reset_segment_state dr w = w\<lparr>wk_last_delivered := 0, wk_last_attempt := None, wk_next_watchdog := None,
     wk_retry_not_before := None, wk_retry_delay := dc_retry_initial (dr_config dr), wk_failures := 0,
     wk_preview_disabled := False\<rparr>"

definition sync_generation :: "'e drafter \<Rightarrow> int option \<Rightarrow> ('s, 'o, 'e) worker \<Rightarrow> ('s, 'o, 'e) worker" where
  "sync_generation dr draft_id w = w\<lparr>wk_generation := map_option (Pair (dr_chat dr)) draft_id\<rparr>"

definition close_source :: "('s, 'u, 'p) source_ops \<Rightarrow> ('s, 'o, 'e) worker \<Rightarrow> ('s, 'o, 'e) worker" where
  "close_source so w = w\<lparr>wk_source := so_close so (wk_source w)\<rparr>"

definition rotate_segment :: "'e drafter \<Rightarrow> ('s, 'u, 'p) source_ops \<Rightarrow> ('u, 'o, 'e) terminal_env \<Rightarrow> 'o
    \<Rightarrow> ('s, 'o, 'e) worker \<Rightarrow> ('s, 'o, 'e) worker" where
  "rotate_segment dr so te out w =
    (let w1 = reset_segment_state dr (record_event EvSegmentCommit None (Some OpSegmentCommit) w);
         w2 = record_event EvSegmentRotate None None (w1\<lparr>wk_segment := sat_succ (wk_segment w1)\<rparr>)
     in emit (CommitAnswer (Inr out))
       (sync_generation dr (te_draft_id te) (w2\<lparr>wk_source := so_reopen_segment so (wk_source w2)\<rparr>)))"

definition settle_commit :: "'e drafter \<Rightarrow> ('s, 'u, 'p) source_ops \<Rightarrow> ('u, 'o, 'e) terminal_env
    \<Rightarrow> ('o, 'e) terminal_outcome \<Rightarrow> disposition option \<Rightarrow> ('s, 'o, 'e) worker \<Rightarrow> bool \<times> ('s, 'o, 'e) worker" where
  "settle_commit dr so te outcome disp w =
    (let answer = emit (CommitAnswer (terminal_answer outcome disp)) in
     case outcome of
       OutSuccess out \<Rightarrow> (True, rotate_segment dr so te out w)
     | OutRateLimiter e \<Rightarrow>
         (False, answer (close_source so (record_event EvSegmentCommitError None (Some OpSegmentCommit) w)))
     | OutBackend e \<Rightarrow>
         let w1 = record_error EvSegmentCommitError None (Some OpSegmentCommit) (the disp) w;
             invalid = payload_invalid outcome disp
         in (invalid, answer (if invalid then w1 else close_source so w1))
     | OutSynthetic f \<Rightarrow>
         (False, answer (close_source so (record_error EvSegmentCommitError None (Some OpSegmentCommit) (the disp) w))))"

definition run_commit :: "'e drafter \<Rightarrow> ('s, 'u, 'p) source_ops \<Rightarrow> ('u, 'o, 'e) terminal_env
    \<Rightarrow> ('s, 'o, 'e) worker \<Rightarrow> bool \<times> ('s, 'o, 'e) worker" where
  "run_commit dr so te w =
    (let w1 = refuse_flushes FlWorkerStopped (w\<lparr>wk_source := so_begin_transition so (wk_source w)\<rparr>) in
     if \<not> wk_backend w1 then (False, emit (CommitAnswer (Inl (TeWorkerStoppedAfterCommand NotAttempted))) w1)
     else case run_terminal dr te OpSegmentCommit w1 of
       (None, _, w2) \<Rightarrow> (False, produce_all so (te_meanwhile te) w2)
     | (Some outcome, disp, w2) \<Rightarrow>
         settle_commit dr so te outcome disp
           (run_failure_cleanup dr (cleanup_allowed outcome disp \<and> \<not> payload_invalid outcome disp)
             (te_failure_cleanup te) (te_detached te) (produce_all so (te_meanwhile te) w2)))"

definition final_event :: "('o, 'e) terminal_outcome \<Rightarrow> disposition option \<Rightarrow> ('s, 'o, 'e) worker \<Rightarrow> ('s, 'o, 'e) worker" where
  "final_event outcome disp w = (case outcome of
     OutSuccess _ \<Rightarrow> record_event EvFinalSuccess None (Some OpFinal) w
   | _ \<Rightarrow> (case disp of Some d \<Rightarrow> record_error EvFinalError None (Some OpFinal) d w
       | None \<Rightarrow> record_event EvFinalError None (Some OpFinal) w))"

definition run_finish :: "'e drafter \<Rightarrow> ('s, 'u, 'p) source_ops \<Rightarrow> ('u, 'o, 'e) terminal_env
    \<Rightarrow> ('s, 'o, 'e) worker \<Rightarrow> bool \<times> ('s, 'o, 'e) worker" where
  "run_finish dr so te w =
    (let w1 = refuse_flushes FlWorkerStopped (close_source so (record_event EvFinishStart None (Some OpFinal) w)) in
     if \<not> wk_backend w1 then (False, emit (FinishAnswer (Inl (TeWorkerStoppedAfterCommand NotAttempted))) w1)
     else case run_terminal dr te OpFinal w1 of
       (None, _, w2) \<Rightarrow> (False, produce_all so (te_meanwhile te) w2)
     | (Some outcome, disp, w2) \<Rightarrow>
         let w3 = run_failure_cleanup dr (cleanup_allowed outcome disp) (te_failure_cleanup te) (te_detached te)
               (produce_all so (te_meanwhile te) w2)
         in (False, emit (FinishAnswer (terminal_answer outcome disp))
              ((final_event outcome disp w3)\<lparr>wk_backend := False\<rparr>)))"

definition run_abort :: "'e drafter \<Rightarrow> ('s, 'u, 'p) source_ops \<Rightarrow> ('u, 'o, 'e) terminal_env
    \<Rightarrow> ('s, 'o, 'e) worker \<Rightarrow> bool \<times> ('s, 'o, 'e) worker" where
  "run_abort dr so te w =
    (let w1 = refuse_flushes FlWorkerStopped (close_source so (record_event EvAbort None (Some OpCleanup) w)) in
     if \<not> wk_backend w1 then (False, emit (AbortAnswer (Inl AbWorkerStopped)) w1)
     else
       let ce = te_failure_cleanup te;
           r = bounded_cleanup dr (dr_scheduling dr \<and> ce_possible ce) ce;
           w2 = cleanup_called r w1;
           finish = (\<lambda>a v. (False, emit (AbortAnswer a) (v\<lparr>wk_backend := False\<rparr>)))
       in case r of
            ClAcquire e \<Rightarrow> finish (Inl (AbRateLimiter e)) w2
          | ClOk \<Rightarrow> finish (Inr ()) w2
          | ClError e \<Rightarrow>
              let d = dr_classify dr OpCleanup e;
                  w3 = observe_cleanup_disposition dr d w2
              in finish (Inl (AbBackend e)) (record_error EvAbortError None (Some OpCleanup) d w3)
          | _ \<Rightarrow> finish (Inl AbRequestTimeout)
              (record_error EvBackendTimeout None (Some OpCleanup) ambiguous w2))"

definition run_flush :: "draft_revision \<Rightarrow> nat \<Rightarrow> ('s, 'o, 'e) worker \<Rightarrow> ('s, 'o, 'e) worker" where
  "run_flush target i w =
    (let w1 = record_event EvFlushStart (Some target) None w; last = wk_last_delivered w1 in
     if target \<le> last then
       record_event EvFlushComplete (Some last) None (emit (FlushAnswer target i (Inr last)) w1)
     else if wk_preview_disabled w1 then emit (FlushAnswer target i (Inl FlPreviewDisabled)) w1
     else w1\<lparr>wk_flush_waiters := wk_flush_waiters w1 @ [(target, i)]\<rparr>)"

fun handle_command :: "'e drafter \<Rightarrow> ('s, 'u, 'p) source_ops \<Rightarrow> ('u, 'o, 'e) terminal_env \<Rightarrow> drafter_command
    \<Rightarrow> ('s, 'o, 'e) worker \<Rightarrow> bool \<times> ('s, 'o, 'e) worker" where
  "handle_command dr so te (CmdFlush target i) w = (True, run_flush target i w)"
| "handle_command dr so te CmdCommit w = run_commit dr so te w"
| "handle_command dr so te CmdFinish w = run_finish dr so te w"
| "handle_command dr so te CmdAbort w = run_abort dr so te w"

subsection \<open>The worker loop\<close>

definition worker_new :: "'e drafter \<Rightarrow> int option \<Rightarrow> 's \<Rightarrow> ('s, 'o, 'e) worker" where
  "worker_new dr draft_id s = \<lparr>wk_source = s, wk_backend = True, wk_last_delivered = 0, wk_last_attempt = None,
     wk_next_watchdog = None, wk_retry_not_before = None, wk_retry_delay = dc_retry_initial (dr_config dr),
     wk_failures = 0, wk_preview_disabled = False, wk_flush_waiters = [], wk_segment = 0,
     wk_generation = map_option (Pair (dr_chat dr)) draft_id, wk_log = [Event EvSpawn None None None]\<rparr>"

text \<open>\<open>Drafter::spawn\<close>: an invalid configuration starts nothing.\<close>

definition drafter_spawn :: "'e drafter \<Rightarrow> int option \<Rightarrow> 's \<Rightarrow> draft_config_error + ('s, 'o, 'e) worker" where
  "drafter_spawn dr draft_id s = (case validate_config (dr_expires dr) (dr_config dr) of
     Some e \<Rightarrow> Inl e | None \<Rightarrow> Inr (worker_new dr draft_id s))"

text \<open>
  One turn of \<open>run_loop\<close>.  When nothing is due the worker sleeps until a command arrives, the command
  channel closes, or it is notified or its deadline passes (\<open>tn_idle = None\<close>).  The end of the loop
  clears the generation.
\<close>

record ('u, 'p, 'o, 'e) turn_env =
  tn_preview :: "('u, 'p, 'e) preview_env"
  tn_idle :: "drafter_command option option"
  tn_terminal :: "('u, 'o, 'e) terminal_env"

definition turn_command :: "'e drafter \<Rightarrow> ('s, 'u, 'p) source_ops \<Rightarrow> ('u, 'p, 'o, 'e) turn_env \<Rightarrow> ('s, 'o, 'e) worker
    \<Rightarrow> drafter_command option option \<times> ('s, 'o, 'e) worker" where
  "turn_command dr so tn w = (case run_due_preview dr so (tn_preview tn) w of
     (RunContinue, w1) \<Rightarrow> (None, w1)
   | (RunCommand c, w1) \<Rightarrow> (Some c, w1)
   | (RunIdle, w1) \<Rightarrow> (tn_idle tn, w1))"

definition stop_worker :: "('s, 'o, 'e) worker \<Rightarrow> bool \<times> ('s, 'o, 'e) worker" where
  "stop_worker w = (False, (record_event EvWorkerStop None None w)\<lparr>wk_generation := None\<rparr>)"

definition worker_turn :: "'e drafter \<Rightarrow> ('s, 'u, 'p) source_ops \<Rightarrow> ('u, 'p, 'o, 'e) turn_env \<Rightarrow> ('s, 'o, 'e) worker
    \<Rightarrow> bool \<times> ('s, 'o, 'e) worker" where
  "worker_turn dr so tn w = (case turn_command dr so tn w of
     (None, w1) \<Rightarrow> (True, w1)
   | (Some None, w1) \<Rightarrow> stop_worker (close_source so w1)
   | (Some (Some c), w1) \<Rightarrow>
       (case handle_command dr so (tn_terminal tn) c w1 of
          (True, w2) \<Rightarrow> (True, w2)
        | (False, w2) \<Rightarrow> stop_worker w2))"

text \<open>\<open>matches_generation_stopped\<close>: whether a Stop update belongs to the current generation.\<close>

definition matches_generation_stopped :: "chat_id \<Rightarrow> int \<Rightarrow> ('s, 'o, 'e) worker \<Rightarrow> bool" where
  "matches_generation_stopped chat draft_id w \<longleftrightarrow> wk_generation w = Some (chat, draft_id)"

end
