(* ===== verification/Drafter_Invariant.thy ===== *)
theory Drafter_Invariant
  imports Drafter_Terminal
begin

text \<open>
  The drafter as a transition system, steps that only report, and the invariant of the worker: what was
  delivered, what is dirty, and who waits for a flush fit together.
\<close>

subsection \<open>Runs of a drafter\<close>

record ('s, 'o, 'e) drafter_system =
  ds_running :: bool
  ds_worker :: "('s, 'o, 'e) worker"

text \<open>Dropping the drafter aborts its worker.\<close>

inductive drafter_step :: "'e drafter \<Rightarrow> ('s, 'u, 'p) source_ops \<Rightarrow> ('s, 'o, 'e) drafter_system
    \<Rightarrow> ('s, 'o, 'e) drafter_system \<Rightarrow> bool" for dr so where
  turn: "ds_running x \<Longrightarrow> worker_turn dr so tn (ds_worker x) = (b, w)
    \<Longrightarrow> drafter_step dr so x \<lparr>ds_running = b, ds_worker = w\<rparr>"
| produce: "drafter_step dr so x (x\<lparr>ds_worker := produce so p (ds_worker x)\<rparr>)"
| drop: "drafter_step dr so x
    \<lparr>ds_running = False, ds_worker = (close_source so (ds_worker x))\<lparr>wk_generation := None\<rparr>\<rparr>"

definition drafter_init :: "'e drafter \<Rightarrow> ('s, 'u, 'p) source_ops \<Rightarrow> ('s, 'o, 'e) drafter_system \<Rightarrow> bool" where
  "drafter_init dr so x \<longleftrightarrow> ds_running x \<and> (\<exists>draft_id s. so_revision so s = 0
     \<and> drafter_spawn dr draft_id s = Inr (ds_worker x))"

interpretation drafting: transition_system "drafter_init dr so" "drafter_step dr so" for dr so .

abbreviation drafter_reach :: "'e drafter \<Rightarrow> ('s, 'u, 'p) source_ops \<Rightarrow> ('s, 'o, 'e) drafter_system \<Rightarrow> bool" where
  "drafter_reach dr so \<equiv> transition_system.reach (drafter_init dr so) (drafter_step dr so)"

subsection \<open>Steps that only report\<close>

definition is_answer :: "('o, 'e) drafter_action \<Rightarrow> bool" where
  "is_answer a = (case a of FlushAnswer _ _ _ \<Rightarrow> True | CommitAnswer _ \<Rightarrow> True | FinishAnswer _ \<Rightarrow> True
     | AbortAnswer _ \<Rightarrow> True | _ \<Rightarrow> False)"

definition silent :: "('s, 'o, 'e) worker \<Rightarrow> ('s, 'o, 'e) worker \<Rightarrow> bool" where
  "silent w t \<longleftrightarrow> (\<exists>l. t = w\<lparr>wk_log := wk_log w @ l\<rparr> \<and> list_all (\<lambda>a. \<not> is_answer a) l)"

named_theorems silent_intros "operations that only report"

lemma silent_refl [silent_intros]: "silent w w"
  by (auto simp: silent_def intro: exI[of _ "[]"])

lemma silent_trans: "silent w t \<Longrightarrow> silent t u \<Longrightarrow> silent w u"
  unfolding silent_def by fastforce

lemma silent_emit [silent_intros]: "\<not> is_answer a \<Longrightarrow> silent w t \<Longrightarrow> silent w (emit a t)"
  unfolding silent_def emit_def by fastforce

lemma silent_event [silent_intros]: "silent w t \<Longrightarrow> silent w (record_event k r op t)"
  unfolding record_event_def by (rule silent_emit) (simp_all add: is_answer_def)

lemma silent_error [silent_intros]: "silent w t \<Longrightarrow> silent w (record_error k r op d t)"
  unfolding record_error_def by (rule silent_emit) (simp_all add: is_answer_def)

lemma silent_call [silent_intros]: "silent w t \<Longrightarrow> silent w (emit (Call op at) t)"
  "silent w t \<Longrightarrow> silent w (emit CleanupCall t)" "silent w t \<Longrightarrow> silent w (emit (Penalize sc d) t)"
  "silent w t \<Longrightarrow> silent w (emit (PermitReport c) t)" "silent w t \<Longrightarrow> silent w (emit (CoalescedRange r a b op) t)"
  by (rule silent_emit; simp add: is_answer_def)+

lemma silent_permit [silent_intros]: "silent w t \<Longrightarrow> silent w (complete_permit_of dr c t)"
  by (auto simp: complete_permit_of_def Let_def intro!: silent_intros split: permit_completion.split)

lemma silent_optional_permit [silent_intros]: "silent w t \<Longrightarrow> silent w (complete_optional_permit dr held c t)"
  by (simp add: complete_optional_permit_def silent_permit)

lemma silent_cleanup_called [silent_intros]: "silent w t \<Longrightarrow> silent w (cleanup_called r t)"
  by (auto simp: cleanup_called_def intro: silent_intros split: cleanup_result.split)

lemma silent_cleanup_timeout [silent_intros]: "silent w t \<Longrightarrow> silent w (record_cleanup_timeout t)"
  unfolding record_cleanup_timeout_def by (intro silent_intros)

lemma silent_observe [silent_intros]: "silent w t \<Longrightarrow> silent w (observe_cleanup_disposition dr d t)"
  by (auto simp: observe_cleanup_disposition_def Let_def intro!: silent_intros split: drafter_error_class.split)

lemma silent_success_cleanup [silent_intros]: "silent w t \<Longrightarrow> silent w (run_success_cleanup dr ce t)"
  by (auto simp: run_success_cleanup_def Let_def intro!: silent_intros split: cleanup_result.split)

lemma silent_failure_cleanup [silent_intros]: "silent w t \<Longrightarrow> silent w (run_failure_cleanup dr should ce detached t)"
  by (auto simp: run_failure_cleanup_def Let_def intro!: silent_intros split: cleanup_result.split option.split)

lemma silent_final [silent_intros]: "silent w t \<Longrightarrow> silent w (final_event outcome disp t)"
  by (auto simp: final_event_def intro!: silent_intros split: terminal_outcome.split option.split)

lemma silent_lost: "silent w t \<Longrightarrow> silent w (snd (snd (lost op k d f t)))"
  by (simp add: lost_def silent_error)

lemma silent_cancelled: "silent w t \<Longrightarrow> silent w (snd (snd (cancelled op disp t)))"
  by (simp add: cancelled_def silent_event)

lemma silent_terminal_loop:
  "silent v w \<Longrightarrow> silent v (snd (snd (terminal_loop dr te op deadline left i retry disp now w)))"
proof (induction left arbitrary: i retry disp now w)
  case 0
  then show ?case
    by (subst terminal_loop.simps)
      (auto simp: Let_def intro!: silent_intros silent_lost silent_cancelled
        split: prod.split terminal_wait.split terminal_call.split sum.split drafter_error_class.split)
next
  case (Suc left)
  then show ?case
    by (subst terminal_loop.simps)
      (auto simp: Let_def intro!: silent_intros silent_lost silent_cancelled Suc.IH
        split: prod.split terminal_wait.split terminal_call.split sum.split drafter_error_class.split)
qed

lemma silent_run_terminal: "run_terminal dr te op w = (outcome, disp, t) \<Longrightarrow> silent w t"
  using silent_terminal_loop[OF silent_refl] unfolding run_terminal_def by (metis snd_conv)

lemma silent_fields:
  assumes "silent w t"
  shows "wk_source t = wk_source w" "wk_backend t = wk_backend w" "wk_last_delivered t = wk_last_delivered w"
    "wk_last_attempt t = wk_last_attempt w" "wk_next_watchdog t = wk_next_watchdog w"
    "wk_retry_not_before t = wk_retry_not_before w" "wk_retry_delay t = wk_retry_delay w"
    "wk_failures t = wk_failures w" "wk_preview_disabled t = wk_preview_disabled w"
    "wk_flush_waiters t = wk_flush_waiters w" "wk_segment t = wk_segment w" "wk_generation t = wk_generation w"
  using assms by (auto simp: silent_def)

subsection \<open>The invariant of the worker\<close>

definition deliveries_ok :: "'e drafter \<Rightarrow> ('s, 'u, 'p) source_ops \<Rightarrow> ('s, 'o, 'e) worker \<Rightarrow> bool" where
  "deliveries_ok dr so w \<longleftrightarrow>
     wk_last_delivered w \<le> so_revision so (wk_source w)
   \<and> (source_changed so w \<longrightarrow> so_dirty_since so (wk_source w) \<noteq> None)
   \<and> (wk_next_watchdog w \<noteq> None \<longrightarrow> dr_expires dr)
   \<and> (wk_preview_disabled w \<longrightarrow> wk_next_watchdog w = None)
   \<and> dc_retry_initial (dr_config dr) \<le> wk_retry_delay w \<and> wk_retry_delay w \<le> dc_retry_max (dr_config dr)"

definition flushes_ok :: "('s, 'o, 'e) worker \<Rightarrow> bool" where
  "flushes_ok w \<longleftrightarrow> list_all (\<lambda>f. wk_last_delivered w < fst f) (wk_flush_waiters w)
     \<and> (wk_preview_disabled w \<longrightarrow> wk_flush_waiters w = [])"

definition drafter_ok :: "'e drafter \<Rightarrow> ('s, 'u, 'p) source_ops \<Rightarrow> ('s, 'o, 'e) worker \<Rightarrow> bool" where
  "drafter_ok dr so w \<longleftrightarrow> deliveries_ok dr so w \<and> flushes_ok w"

lemma deliveries_cong:
  assumes "wk_source t = wk_source w" "wk_last_delivered t = wk_last_delivered w" "wk_next_watchdog t = wk_next_watchdog w"
    "wk_preview_disabled t = wk_preview_disabled w" "wk_retry_delay t = wk_retry_delay w"
  shows "deliveries_ok dr so t = deliveries_ok dr so w"
  using assms by (simp add: deliveries_ok_def source_changed_def)

lemma flushes_cong:
  assumes "wk_last_delivered t = wk_last_delivered w" "wk_preview_disabled t = wk_preview_disabled w"
    "wk_flush_waiters t = wk_flush_waiters w"
  shows "flushes_ok t = flushes_ok w"
  using assms by (simp add: flushes_ok_def)

lemma silent_ok: "silent w t \<Longrightarrow> deliveries_ok dr so t = deliveries_ok dr so w" "silent w t \<Longrightarrow> flushes_ok t = flushes_ok w"
  by (rule deliveries_cong[OF silent_fields(1,3,5,9,7)] flushes_cong[OF silent_fields(3,9,10)]; assumption)+

lemma complete_flushes_fields [simp]:
  "wk_source (complete_flushes w) = wk_source w" "wk_backend (complete_flushes w) = wk_backend w"
  "wk_last_delivered (complete_flushes w) = wk_last_delivered w" "wk_last_attempt (complete_flushes w) = wk_last_attempt w"
  "wk_next_watchdog (complete_flushes w) = wk_next_watchdog w" "wk_retry_delay (complete_flushes w) = wk_retry_delay w"
  "wk_retry_not_before (complete_flushes w) = wk_retry_not_before w"
  "wk_preview_disabled (complete_flushes w) = wk_preview_disabled w"
  by (simp_all add: complete_flushes_def Let_def)

lemma complete_flushes_ok:
  "deliveries_ok dr so w \<Longrightarrow> drafter_ok dr so (complete_flushes w)"
  by (auto simp: drafter_ok_def flushes_ok_def complete_flushes_def Let_def deliveries_ok_def source_changed_def
      list_all_iff)

lemma refuse_flushes_ok: "deliveries_ok dr so w \<Longrightarrow> drafter_ok dr so (refuse_flushes e w)"
  by (auto simp: drafter_ok_def flushes_ok_def refuse_flushes_def deliveries_ok_def source_changed_def)

context preview_source
begin

lemma silent_keeps:
  assumes "silent w t"
  shows "deliveries_ok dr so t = deliveries_ok dr so w" "drafter_ok dr so t = drafter_ok dr so w"
  using silent_ok(1)[OF assms, of dr so] silent_ok(2)[OF assms] by (simp_all add: drafter_ok_def)

lemma deliveries_produce: "deliveries_ok dr so w \<Longrightarrow> deliveries_ok dr so (produce so p w)"
proof (cases p)
  case (Push now u)
  assume ok: "deliveries_ok dr so w"
  show ?thesis
  proof (cases rule: apply_cases[of "wk_source w" now u])
    case (pushed t)
    then show ?thesis using ok Push sat_succ_ge[of "so_revision so (wk_source w)"]
      by (auto simp: produce_def deliveries_ok_def source_changed_def record_event_def emit_def)
  next
    case (refused e)
    then show ?thesis using ok Push by (simp add: produce_def deliveries_ok_def source_changed_def)
  qed
qed (auto simp: produce_def deliveries_ok_def source_changed_def source_laws)

lemma produce_fields:
  "wk_last_delivered (produce so p w) = wk_last_delivered w" "wk_preview_disabled (produce so p w) = wk_preview_disabled w"
  "wk_flush_waiters (produce so p w) = wk_flush_waiters w" "wk_backend (produce so p w) = wk_backend w"
  "wk_segment (produce so p w) = wk_segment w"
  by (auto simp: produce_def record_event_def emit_def split: producer.split prod.split sum.split)

lemma deliveries_produce_all: "deliveries_ok dr so w \<Longrightarrow> deliveries_ok dr so (produce_all so ps w)"
  by (induction ps arbitrary: w) (simp_all add: produce_all_def deliveries_produce)

lemma produce_all_fields:
  "wk_last_delivered (produce_all so ps w) = wk_last_delivered w"
  "wk_preview_disabled (produce_all so ps w) = wk_preview_disabled w"
  "wk_flush_waiters (produce_all so ps w) = wk_flush_waiters w"
  "wk_backend (produce_all so ps w) = wk_backend w" "wk_segment (produce_all so ps w) = wk_segment w"
  by (induction ps arbitrary: w) (simp_all add: produce_all_def produce_fields)

lemma flushes_produce_all: "flushes_ok (produce_all so ps w) = flushes_ok w"
  by (rule flushes_cong) (simp_all add: produce_all_fields)

lemma deliver_ok:
  assumes "deliveries_ok dr so w" and "r \<le> so_revision so (wk_source w)"
  shows "deliveries_ok dr so (w\<lparr>wk_last_delivered := max (wk_last_delivered w) r,
    wk_source := so_mark_delivered so r (wk_source w)\<rparr>)"
  using assms by (auto simp: deliveries_ok_def source_changed_def source_laws)

lemma skip_ok:
  assumes "deliveries_ok dr so w" and "so_snapshot so (wk_source w) = Some (r, p)"
  shows "drafter_ok dr so (skip_delivered so r w)"
  unfolding skip_delivered_def using snapshot_revision[OF assms(2)]
  by (intro complete_flushes_ok deliver_ok assms(1)) simp

lemma preview_error_ok:
  assumes "deliveries_ok dr so w" and "flushes_ok w" and "dc_retry_initial (dr_config dr) \<le> dc_retry_max (dr_config dr)"
  shows "drafter_ok dr so (handle_preview_error dr now c op w)"
proof -
  have disabled: "drafter_ok dr so (complete_flushes (v\<lparr>wk_preview_disabled := True, wk_next_watchdog := None\<rparr>))"
    if "deliveries_ok dr so v" for v
    using that by (intro complete_flushes_ok) (auto simp: deliveries_ok_def source_changed_def)
  have "deliveries_ok dr so (w\<lparr>wk_failures := n\<rparr>)" for n
    using assms(1) by (simp add: deliveries_ok_def source_changed_def)
  note gone = disabled[OF this]
  show ?thesis
  proof (cases "\<exists>delay sc. c = ClsRetryAfter delay sc")
    case True
    then show ?thesis using assms(1,2)
      by (auto simp: handle_preview_error_def drafter_ok_def deliveries_ok_def flushes_ok_def source_changed_def
          record_event_def emit_def)
  next
    case False
    let ?d = "min (wk_retry_delay w * 2) (dc_retry_max (dr_config dr))"
    have "dc_retry_initial (dr_config dr) \<le> ?d" using assms(1,3) by (simp add: deliveries_ok_def)
    then have "drafter_ok dr so (w\<lparr>wk_failures := n, wk_log := l, wk_retry_not_before := u, wk_retry_delay := ?d\<rparr>)" for n l u
      using assms(1,2) by (simp add: drafter_ok_def deliveries_ok_def flushes_ok_def source_changed_def)
    with False gone show ?thesis
      by (auto simp: handle_preview_error_def Let_def record_event_def emit_def split: drafter_error_class.split)
  qed
qed

lemma produce_revision: "so_revision so (wk_source w) \<le> so_revision so (wk_source (produce so p w))"
proof (cases p)
  case (Push now u)
  then show ?thesis
    by (cases rule: apply_cases[of "wk_source w" now u]) (auto simp: produce_def record_event_def emit_def sat_succ_def)
qed (auto simp: produce_def source_laws)

lemma produce_all_revision: "so_revision so (wk_source w) \<le> so_revision so (wk_source (produce_all so ps w))"
  by (induction ps arbitrary: w) (auto simp: produce_all_def intro: order_trans[OF produce_revision])

lemma preview_delivered_ok:
  assumes ok: "deliveries_ok dr so w" and r: "r \<le> so_revision so (wk_source w)"
    and config: "dc_retry_initial (dr_config dr) \<le> dc_retry_max (dr_config dr)" and on: "\<not> wk_preview_disabled w"
  shows "drafter_ok dr so (preview_delivered dr so now op r held w)"
proof -
  let ?w1 = "complete_optional_permit dr held CompSuccess w"
  have s: "silent w ?w1" by (intro silent_intros)
  define v where "v = ?w1\<lparr>wk_last_delivered := max (wk_last_delivered ?w1) r,
      wk_source := so_mark_delivered so r (wk_source ?w1), wk_retry_delay := dc_retry_initial (dr_config dr),
      wk_failures := 0, wk_retry_not_before := None,
      wk_next_watchdog := (if dr_expires dr then Some (now + dc_refresh_interval (dr_config dr)) else None)\<rparr>"
  have "deliveries_ok dr so v"
    using ok r config on unfolding v_def deliveries_ok_def source_changed_def
    by (auto simp: silent_fields[OF s] source_laws)
  then have kept: "deliveries_ok dr so t" if "silent v t" for t using silent_keeps(1)[OF that, of dr] by simp
  show ?thesis unfolding preview_delivered_def Let_def v_def[symmetric]
    by (rule complete_flushes_ok, rule kept) (auto intro: silent_intros)
qed

lemma preview_failure_ok:
  assumes "drafter_ok dr so w" and "dc_retry_initial (dr_config dr) \<le> dc_retry_max (dr_config dr)"
  shows "drafter_ok dr so (preview_timed_out dr now op r held w)" "drafter_ok dr so (preview_failed dr now op r held e w)"
proof -
  have kept: "drafter_ok dr so (handle_preview_error dr now c op t)" if "silent w t" for c t
    by (intro preview_error_ok) (use assms silent_keeps[OF that, of dr] in \<open>auto simp: drafter_ok_def silent_ok(2)[OF that]\<close>)
  show "drafter_ok dr so (preview_timed_out dr now op r held w)" "drafter_ok dr so (preview_failed dr now op r held e w)"
    unfolding preview_timed_out_def preview_failed_def Let_def by (rule kept, intro silent_intros)+
qed

lemma finish_preview_ok:
  assumes "drafter_ok dr so w" and "r \<le> so_revision so (wk_source w)"
    and "dc_retry_initial (dr_config dr) \<le> dc_retry_max (dr_config dr)" and "\<not> wk_preview_disabled w"
  shows "drafter_ok dr so (finish_preview dr so env op r held w)"
  by (auto simp: finish_preview_def split: option.split
      intro!: preview_failure_ok[OF assms(1,3)] preview_delivered_ok[OF _ assms(2,3,4)])
    (use assms(1) in \<open>simp add: drafter_ok_def\<close>)

lemma send_preview_ok:
  assumes ok: "drafter_ok dr so w" and on: "\<not> wk_preview_disabled w"
    and current: "wk_last_delivered w \<le> current" "current \<le> so_revision so (wk_source w)"
    and config: "dc_retry_initial (dr_config dr) \<le> dc_retry_max (dr_config dr)"
  shows "drafter_ok dr so (send_preview dr so env current op w)"
proof (cases "so_running so (wk_source w)")
  case False
  have "silent w (complete_permit_of dr CompNoRequest w)" by (intro silent_intros)
  then show ?thesis using ok False silent_keeps(2)[of w "complete_permit_of dr CompNoRequest w" dr]
    by (simp add: send_preview_def)
next
  case running: True
  let ?n = "complete_permit_of dr CompNoRequest w"
  have n: "silent w ?n" by (intro silent_intros)
  show ?thesis
  proof (cases "so_snapshot so (wk_source w)")
    case None
    have "deliveries_ok dr so (?n\<lparr>wk_last_delivered := current,
        wk_source := so_mark_delivered so current (wk_source w), wk_next_watchdog := None\<rparr>)"
      using ok current unfolding drafter_ok_def deliveries_ok_def source_changed_def
      by (auto simp: silent_fields[OF n] source_laws)
    then show ?thesis using None running by (auto simp: send_preview_def intro!: complete_flushes_ok)
  next
    case (Some rp)
    then obtain r p where rp: "so_snapshot so (wk_source w) = Some (r, p)" by (cases rp) auto
    show ?thesis
    proof (cases "dr_scheduling dr \<and> pv_noop_after env p")
      case True
      have "drafter_ok dr so (skip_delivered so r ?n)"
        using skip_ok[of dr ?n r p] rp ok silent_keeps(1)[OF n, of dr] by (simp add: drafter_ok_def silent_fields[OF n])
      then show ?thesis using True rp running by (simp add: send_preview_def)
    next
      case False
      define v where "v = emit (Call op (pv_waited env)) (record_event EvPreviewStart (Some r) (Some op)
          (w\<lparr>wk_last_attempt := Some (pv_waited env), wk_retry_not_before := None\<rparr>))"
      have v: "wk_source v = wk_source w" "wk_preview_disabled v = wk_preview_disabled w"
        by (simp_all add: v_def record_event_def emit_def)
      have "deliveries_ok dr so v = deliveries_ok dr so w"
        by (rule deliveries_cong) (simp_all add: v_def record_event_def emit_def)
      moreover have "flushes_ok v = flushes_ok w"
        by (rule flushes_cong) (simp_all add: v_def record_event_def emit_def)
      ultimately have "drafter_ok dr so (produce_all so (pv_sending env) v)"
        using ok by (simp add: drafter_ok_def deliveries_produce_all flushes_produce_all)
      moreover have "r \<le> so_revision so (wk_source (produce_all so (pv_sending env) v))"
        using snapshot_revision[OF rp] produce_all_revision[of v] by (simp add: v(1))
      ultimately have "drafter_ok dr so (finish_preview dr so env op r held (produce_all so (pv_sending env) v))" for held
        using on config by (intro finish_preview_ok) (simp_all add: produce_all_fields v(2))
      then show ?thesis using False rp running by (auto simp: send_preview_def Let_def v_def)
    qed
  qed
qed

lemma run_due_preview_ok:
  assumes ok: "drafter_ok dr so w" and config: "dc_retry_initial (dr_config dr) \<le> dc_retry_max (dr_config dr)"
    and run: "run_due_preview dr so env w = (res, t)"
  shows "drafter_ok dr so t"
proof -
  have idle: "drafter_ok dr so (complete_flushes w)" using ok by (intro complete_flushes_ok) (simp add: drafter_ok_def)
  define w1 where "w1 = (if refresh_due dr so (pv_now env) w
    then record_event EvRefresh (Some (so_revision so (wk_source w)))
      (Some (if changed_due dr so (pv_now env) w then OpPreview else OpRefresh)) w else w)"
  have s: "silent w w1" by (auto simp: w1_def intro: silent_intros)
  have ok1: "drafter_ok dr so w1" using ok silent_keeps(2)[OF s, of dr] by simp
  have noop: "drafter_ok dr so (skip_delivered so r w1)" if "local_noop dr so env w1 = Some r" for r
    using that ok1 skip_ok[of dr w1 r] by (auto simp: local_noop_def drafter_ok_def split: if_splits option.splits)
  define w2 where "w2 = produce_all so (pv_waiting env) w1"
  have ok2: "drafter_ok dr so w2"
    using ok1 by (simp add: w2_def drafter_ok_def deliveries_produce_all flushes_produce_all)
  have failed: "drafter_ok dr so (refuse_flushes e (w2\<lparr>wk_retry_not_before := x\<rparr>))" for e x
    using ok2 by (intro refuse_flushes_ok) (simp add: drafter_ok_def deliveries_ok_def source_changed_def)
  have sent: "drafter_ok dr so (send_preview dr so env (so_revision so (wk_source w)) op w2)"
    if "\<not> wk_preview_disabled w" for op
  proof (rule send_preview_ok[OF ok2 _ _ _ config])
    show "\<not> wk_preview_disabled w2" using that by (simp add: w2_def produce_all_fields silent_fields[OF s])
    show "wk_last_delivered w2 \<le> so_revision so (wk_source w)"
      using ok by (simp add: w2_def produce_all_fields silent_fields[OF s] drafter_ok_def deliveries_ok_def)
    show "so_revision so (wk_source w) \<le> so_revision so (wk_source w2)"
      using produce_all_revision[of w1] by (simp add: w2_def silent_fields[OF s])
  qed
  show ?thesis
    using run ok idle ok1 noop ok2 failed sent
    unfolding run_due_preview_def Let_def w1_def[symmetric] w2_def[symmetric]
    by (auto split: if_splits option.splits preview_wait.splits)
qed

lemma emit_keeps: "deliveries_ok dr so (emit a w) = deliveries_ok dr so w" "drafter_ok dr so (emit a w) = drafter_ok dr so w"
  unfolding drafter_ok_def
  by (simp_all add: emit_def deliveries_ok_def flushes_ok_def source_changed_def)

lemmas log_keeps = emit_keeps silent_keeps(2)[OF silent_event[OF silent_refl]]
  silent_keeps(2)[OF silent_error[OF silent_refl]] silent_keeps(2)[OF silent_cleanup_called[OF silent_refl]]
  silent_keeps(2)[OF silent_observe[OF silent_refl]] silent_keeps(2)[OF silent_failure_cleanup[OF silent_refl]]
  silent_keeps(2)[OF silent_final[OF silent_refl]]

lemma gate_ok:
  assumes "deliveries_ok dr so w"
  shows "deliveries_ok dr so (close_source so w)" "deliveries_ok dr so (w\<lparr>wk_source := so_begin_transition so (wk_source w)\<rparr>)"
  using assms by (simp_all add: close_source_def deliveries_ok_def source_changed_def source_laws)

lemma close_ok: "drafter_ok dr so w \<Longrightarrow> drafter_ok dr so (close_source so w)"
  using gate_ok(1)[of dr w] by (simp add: drafter_ok_def flushes_ok_def close_source_def)

lemma run_flush_ok: "drafter_ok dr so w \<Longrightarrow> drafter_ok dr so (run_flush target i w)"
  by (auto simp: run_flush_def Let_def record_event_def emit_def drafter_ok_def deliveries_ok_def flushes_ok_def source_changed_def)

lemma rotate_ok:
  assumes "dc_retry_initial (dr_config dr) \<le> dc_retry_max (dr_config dr)" and "flushes_ok w" and "wk_flush_waiters w = []"
  shows "drafter_ok dr so (rotate_segment dr so te out w)"
  using assms unfolding rotate_segment_def Let_def emit_keeps
  by (simp add: drafter_ok_def deliveries_ok_def flushes_ok_def source_changed_def reset_segment_state_def
      sync_generation_def record_event_def emit_def source_laws)

lemma run_commit_ok:
  assumes ok: "drafter_ok dr so w" and config: "dc_retry_initial (dr_config dr) \<le> dc_retry_max (dr_config dr)"
    and run: "run_commit dr so te w = (b, t)"
  shows "drafter_ok dr so t"
proof -
  define w1 where "w1 = refuse_flushes FlWorkerStopped (w\<lparr>wk_source := so_begin_transition so (wk_source w)\<rparr>)"
  have ok1: "drafter_ok dr so w1"
    unfolding w1_def using ok by (intro refuse_flushes_ok gate_ok(2)) (simp add: drafter_ok_def)
  have none: "wk_flush_waiters w1 = []" by (simp add: w1_def refuse_flushes_def)
  show ?thesis
  proof (cases "wk_backend w1")
    case False
    then show ?thesis using run ok1 by (auto simp: run_commit_def Let_def w1_def[symmetric] emit_keeps)
  next
    case True
    obtain outcome disp w2 where r: "run_terminal dr te OpSegmentCommit w1 = (outcome, disp, w2)" by (metis prod_cases3)
    have s: "silent w1 w2" by (rule silent_run_terminal[OF r])
    define w3 where "w3 = produce_all so (te_meanwhile te) w2"
    have "drafter_ok dr so w2" using ok1 silent_keeps(2)[OF s, of dr] by simp
    then have ok3: "drafter_ok dr so w3" by (simp add: w3_def drafter_ok_def deliveries_produce_all flushes_produce_all)
    have none3: "wk_flush_waiters w3 = []" using none by (simp add: w3_def produce_all_fields silent_fields[OF s])
    have settled: "drafter_ok dr so (snd (settle_commit dr so te out disp v))" if v: "silent w3 v" for out v
    proof -
      have v_ok: "drafter_ok dr so v" using ok3 silent_keeps(2)[OF v, of dr] by simp
      have rot: "drafter_ok dr so (rotate_segment dr so te out' v)" for out'
        using v_ok none3 by (intro rotate_ok[OF config]) (simp_all add: drafter_ok_def silent_fields[OF v])
      show ?thesis unfolding settle_commit_def Let_def
        using v_ok by (auto simp: log_keeps rot split: terminal_outcome.split intro!: close_ok)
    qed
    have cleaned: "silent w3 (run_failure_cleanup dr should (te_failure_cleanup te) (te_detached te) w3)" for should
      by (intro silent_intros)
    show ?thesis
    proof (cases outcome)
      case None
      then show ?thesis using run True r ok3 by (auto simp: run_commit_def Let_def w1_def[symmetric] w3_def[symmetric])
    next
      case (Some out)
      then have "t = snd (settle_commit dr so te out disp (run_failure_cleanup dr
          (cleanup_allowed out disp \<and> \<not> payload_invalid out disp) (te_failure_cleanup te) (te_detached te) w3))"
        using run True r by (simp add: run_commit_def Let_def w1_def[symmetric] w3_def[symmetric])
      then show ?thesis using settled[OF cleaned] by simp
    qed
  qed
qed

lemma closing_ok: "drafter_ok dr so w \<Longrightarrow> drafter_ok dr so (refuse_flushes e (close_source so (record_event k r op w)))"
  by (intro refuse_flushes_ok gate_ok(1)) (simp add: drafter_ok_def record_event_def emit_keeps)

lemma backend_ok: "drafter_ok dr so (w\<lparr>wk_backend := x\<rparr>) = drafter_ok dr so w"
  by (simp add: drafter_ok_def deliveries_ok_def flushes_ok_def source_changed_def)

lemma run_finish_ok:
  assumes ok: "drafter_ok dr so w" and run: "run_finish dr so te w = (b, t)"
  shows "drafter_ok dr so t"
proof -
  define w1 where "w1 = refuse_flushes FlWorkerStopped (close_source so (record_event EvFinishStart None (Some OpFinal) w))"
  have ok1: "drafter_ok dr so w1" unfolding w1_def by (rule closing_ok[OF ok])
  obtain outcome disp w2 where r: "run_terminal dr te OpFinal w1 = (outcome, disp, w2)" by (metis prod_cases3)
  have "drafter_ok dr so w2" using ok1 silent_keeps(2)[OF silent_run_terminal[OF r], of dr] by simp
  then have ok3: "drafter_ok dr so (produce_all so (te_meanwhile te) w2)"
    by (simp add: drafter_ok_def deliveries_produce_all flushes_produce_all)
  have quiet: "drafter_ok dr so u" if "silent (produce_all so (te_meanwhile te) w2) u" for u
    using ok3 silent_keeps(2)[OF that, of dr] by simp
  have final: "drafter_ok dr so (final_event out disp (run_failure_cleanup dr should ce d (produce_all so (te_meanwhile te) w2)))"
    for out should ce d by (rule quiet, intro silent_intros)
  show ?thesis
    using run r ok1 ok3 final
    by (auto simp: run_finish_def Let_def w1_def[symmetric] emit_keeps backend_ok split: if_splits option.splits)
qed

lemma run_abort_ok:
  assumes ok: "drafter_ok dr so w" and run: "run_abort dr so te w = (b, t)"
  shows "drafter_ok dr so t"
proof -
  define w1 where "w1 = refuse_flushes FlWorkerStopped (close_source so (record_event EvAbort None (Some OpCleanup) w))"
  have "drafter_ok dr so w1" unfolding w1_def by (rule closing_ok[OF ok])
  then show ?thesis
    using run by (auto simp: run_abort_def Let_def w1_def[symmetric] log_keeps backend_ok split: if_splits cleanup_result.splits)
qed

lemma handle_command_ok:
  assumes "drafter_ok dr so w" and "dc_retry_initial (dr_config dr) \<le> dc_retry_max (dr_config dr)"
    and "handle_command dr so te c w = (b, t)"
  shows "drafter_ok dr so t"
  using assms run_flush_ok run_commit_ok run_finish_ok run_abort_ok by (cases c) auto

lemma stop_ok: "drafter_ok dr so w \<Longrightarrow> drafter_ok dr so (snd (stop_worker w))"
  by (simp add: stop_worker_def record_event_def emit_def drafter_ok_def deliveries_ok_def flushes_ok_def source_changed_def)

lemma worker_turn_ok:
  assumes ok: "drafter_ok dr so w" and config: "dc_retry_initial (dr_config dr) \<le> dc_retry_max (dr_config dr)"
    and turn: "worker_turn dr so tn w = (b, t)"
  shows "drafter_ok dr so t"
proof -
  obtain c w1 where c: "turn_command dr so tn w = (c, w1)" by fastforce
  have ok1: "drafter_ok dr so w1"
    using c run_due_preview_ok[OF ok config, of "tn_preview tn"]
    by (auto simp: turn_command_def split: prod.splits preview_run.splits)
  show ?thesis
  proof (cases c)
    case None then show ?thesis using turn c ok1 by (simp add: worker_turn_def)
  next
    case (Some cmd)
    show ?thesis
    proof (cases cmd)
      case None
      then show ?thesis using turn c Some stop_ok[OF close_ok[OF ok1]] by (simp add: worker_turn_def)
    next
      case (Some x)
      obtain go w2 where h: "handle_command dr so (tn_terminal tn) x w1 = (go, w2)" by fastforce
      then have "drafter_ok dr so w2" by (rule handle_command_ok[OF ok1 config])
      then show ?thesis using turn c \<open>c = Some cmd\<close> Some h stop_ok[of dr w2]
        by (cases go) (auto simp: worker_turn_def)
    qed
  qed
qed

lemma spawn_ok:
  assumes "drafter_spawn dr draft_id s = Inr w" and "so_revision so s = 0"
  shows "drafter_ok dr so w" "dc_retry_initial (dr_config dr) \<le> dc_retry_max (dr_config dr)"
  using assms by (auto simp: drafter_spawn_def validate_config_def worker_new_def drafter_ok_def deliveries_ok_def
      flushes_ok_def source_changed_def split: option.splits if_splits)

lemma reach_drafter_ok:
  assumes "drafter_reach dr so x"
  shows "drafter_ok dr so (ds_worker x) \<and> dc_retry_initial (dr_config dr) \<le> dc_retry_max (dr_config dr)"
proof (rule drafting.reach_invariant[OF assms], goal_cases)
  case (1 y)
  then obtain draft_id s where "drafter_spawn dr draft_id s = Inr (ds_worker y)" "so_revision so s = 0"
    unfolding drafter_init_def by blast
  from spawn_ok[OF this] show ?case by blast
next
  case (2 y z)
  from 2(2) show ?case
  proof cases
    case (turn tn b w)
    then show ?thesis using 2(1) worker_turn_ok[of dr "ds_worker y" tn b w] by simp
  next
    case (produce p)
    have "drafter_ok dr so (produce so p (ds_worker y))"
      using 2(1) deliveries_produce[of dr "ds_worker y" p] flushes_produce_all[of "[p]" "ds_worker y"]
      by (simp add: drafter_ok_def produce_all_def)
    then show ?thesis using produce 2(1) by simp
  next
    case drop
    have "drafter_ok dr so (close_source so (ds_worker y))" using 2(1) close_ok[of dr "ds_worker y"] by simp
    then show ?thesis using drop 2(1) by (simp add: drafter_ok_def deliveries_ok_def flushes_ok_def source_changed_def)
  qed
qed

end

end
