(* ===== verification/Spec2Isabelle.thy ===== *)
theory Spec2Isabelle
  imports Scheduler_Outcomes Outbox_Outcome Limiter_Claims Render_Text Scheduler_Findings Drafter_Claims
begin

text \<open>
  \<^bold>\<open>Verification of teloxide: outgoing requests, streamed drafts and rendered messages.\<close>

  \<^bold>\<open>The program.\<close>  teloxide is a framework for Telegram bots.  Most of its lines describe the Bot API:
  types with derived serialisation, builders of requests, adaptors that forward methods.  What it
  decides by itself is when a request may be sent, what happens to it when a process dies, how a
  text that grows is shown while it grows, and how marked-up text is written.  These parts are
  modelled here; they interact as follows.
  \<^item> The \<^emph>\<open>scheduler\<close> (\<open>crates/teloxide-core/src/outbound/scheduler.rs\<close>) decides which pending request
    gets a permit, under rate windows, penalties, priorities with aging, and lanes.  Its caller
    enqueues, runs a pass at every wake-up, and reports how each permit ended.
  \<^item> The \<^emph>\<open>outbox\<close> (\<open>outbound/outbox.rs\<close>) stores requests that must survive a crash.  Workers claim
    records under leases with fencing tokens, take a permit from the queue, run an executor, and
    complete, reschedule or fail the record.
  \<^item> The \<^emph>\<open>drafter\<close> (\<open>crates/teloxide/src/drafter\<close>) sends previews of a growing text and then the final
    message.  Its worker reads a preview source, asks a rate limiter, and calls a backend.
  \<^item> The \<^emph>\<open>renderer\<close> (\<open>crates/teloxide/src/utils/render.rs\<close>) and the markup helpers (\<open>utils/html.rs\<close>,
    \<open>utils/markdown.rs\<close>) write HTML and MarkdownV2.

  \<^bold>\<open>Which theory models what.\<close>
  \<^item> \<open>Prelude\<close>: hash maps as association lists, binary heaps as lists, reversed orders, and the two
    locales every component uses, a finite store and a transition system with its reachable states.
  \<^item> \<open>Outbound_Types\<close>: \<open>outbound/types.rs\<close>, \<open>outbound/classify.rs\<close>, \<open>types/chat_id.rs\<close>.
  \<^item> \<open>Rolling_Window\<close>: \<open>RollingWindow\<close>, \<open>WindowSet\<close> and \<open>class_window_sets\<close> of \<open>scheduler.rs\<close>.
  \<^item> \<open>Scheduler_State\<close> (data and constructor), \<open>Scheduler_Queue\<close> (candidate heap, removal,
    compaction), \<open>Scheduler_Enqueue\<close>, \<open>Scheduler_Grant\<close> (promotions, popping, admission),
    \<open>Scheduler_Pass\<close> (parking, the grant, the loop, \<open>grant_ready\<close>) and \<open>Scheduler_Lifecycle\<close> (\<open>start\<close>,
    \<open>complete\<close>, penalties, limit updates, \<open>snapshot\<close>, \<open>next_deadline\<close>): \<open>SchedulerState\<close>, field by field
    and method by method.
  \<^item> \<open>Outbox_Store\<close>: \<open>InMemoryOutboxStore\<close>.  \<open>Outbox_Worker\<close>: \<open>OutboundOutbox\<close> and \<open>LeaseHeartbeat\<close>
    over any \<open>OutboxStore\<close>.
  \<^item> \<open>Limiter\<close>: \<open>InProcessRateLimiter\<close> of \<open>drafter/limiter.rs\<close>.
  \<^item> \<open>Drafter_Source\<close>: \<open>drafter/source.rs\<close>, \<open>config.rs\<close>.  \<open>Drafter_Preview\<close> and \<open>Drafter_Terminal\<close>: the
    worker of \<open>drafter/machine.rs\<close>, with the types of \<open>error.rs\<close>, \<open>backend.rs\<close> and \<open>observer.rs\<close>.
  \<^item> \<open>Markup\<close>: \<open>utils/markdown.rs\<close> and \<open>utils/html.rs\<close>.  \<open>Render\<close>: \<open>utils/render.rs\<close> with \<open>render/tag.rs\<close>,
    \<open>render/html.rs\<close>, \<open>render/markdown.rs\<close>.
  Names are those of the code, with a prefix or suffix where two files use the same one.  State is
  a record with the fields of the Rust struct; an operation takes it and returns it updated; a
  panic is \<^const>\<open>None\<close>, an error a left injection.

  \<^bold>\<open>What is proved.\<close>
  \<^item> \<open>Rate_Safety\<close>: the sliding-window limit, over every run of admissions and refunds.
  \<^item> \<open>Scheduler_Frame\<close>, \<open>Scheduler_Refs\<close>, \<open>Scheduler_Windows\<close>: what each piece of bookkeeping leaves
    alone, collected in \<open>quiet_intros\<close> and \<open>wins_simps\<close> so that later proofs compose them.
    \<open>Scheduler_Invariant\<close>, \<open>Scheduler_Arbitration\<close>, \<open>Scheduler_Remove\<close>, \<open>Scheduler_Insert\<close>,
    \<open>Scheduler_Reach\<close>: the structural invariant and that every operation keeps it; the pass ends and
    never panics.  \<open>Scheduler_Lines\<close>, \<open>Scheduler_Slots\<close>, \<open>Scheduler_Replace\<close>: the abstract view, a
    first-in-first-out line and a seat per lane, and the refinement of \<open>enqueue\<close>.
    \<open>Scheduler_Machine\<close>, \<open>Scheduler_Safety\<close>, \<open>Scheduler_Exclusive\<close>, \<open>Scheduler_Fit\<close>: the scheduler as
    a transition system, and its invariants over the reachable machines.
    \<open>Scheduler_Demo\<close>, \<open>Scheduler_Claims\<close>, \<open>Scheduler_Outcomes\<close>: concrete machines and the properties.
  \<^item> \<open>Outbox_Invariant\<close>, \<open>Outbox_System\<close>, \<open>Outbox_Claims\<close>: any interleaving of store calls by any
    number of workers; fencing, exclusive claims, bounded attempts, redelivery.  \<open>Outbox_Delivery\<close>
    states the contract of the \<open>OutboxStore\<close> trait as a locale and what every execution then
    guarantees; \<open>Outbox_Outcome\<close> interprets it on the in-memory store.
  \<^item> \<open>Limiter_Claims\<close>: spacing of grants, penalties, the choice among the waiters.
  \<^item> \<open>Drafter_Source\<close> holds the contract of \<open>PreviewSource\<close> as a locale with both sources as
    interpretations; \<open>Drafter_Invariant\<close> the worker as a transition system and its invariant;
    \<open>Drafter_Claims\<close> the properties: wake-ups, flushes, safe retries of deliveries, commits.
  \<^item> \<open>Render_Text\<close> and \<open>Markup\<close>: rendering keeps the visible text, escaping is undone by reading.
  \<^item> \<open>Scheduler_Findings\<close>, and single lemmas of \<open>Markup\<close>, \<open>Render_Text\<close> and \<open>Drafter_Claims\<close>, show on
    concrete inputs where the code departs from its comments or from its purpose.

  \<^bold>\<open>Bounds, fuel and numbers.\<close>
  \<^item> Times and durations are exact natural numbers of nanoseconds; the outbox also keeps the 64-bit
    limits of \<open>SystemTime\<close> and \<open>Duration\<close>, with the error each addition can give.
  \<^item> Job, sequence and lane counters of the scheduler are 64-bit and wrap, with the renumbering the
    code has for that.  The positions of a lane are well ordered only while fewer than \<open>2 ^ 64\<close>
    requests wait in it (\<open>lane_small\<close>), which is an assumption of an enqueue step; each lane is used
    with one mode, as the lane handles do.
  \<^item> The loops of the pass end by a measure.  The promotion of aging events takes fuel, the number of
    events at its start: re-arming an event only schedules a later one, given a positive quantum
    (\<open>aging_ok\<close>), so the fuel always suffices and the pass returns from every reachable state.
  \<^item> The counters of the outbox are exact below \<open>2 ^ 64\<close>, its claim counter is taken modulo \<open>2 ^ 32\<close>;
    revisions and failure counts of the drafter saturate at their width; offsets of the renderer are
    natural numbers and out-of-range indexing is a panic.
  \<^item> Hash maps iterate in the order of a list; no property depends on which one.
  \<^item> The drafter's producers act between the awaits of its worker.  The backend, the rate limiter's
    answers, the executor and the timers are arguments or choices of the step relations; the
    classification of backend errors is a fixed function, as the trait documents.

  \<^bold>\<open>Not modelled.\<close>
  \<^item> The Bot API surface: types, payloads, requests, multipart encoding, network calls.  It is data with
    derived code around libraries (serde, reqwest), with no decision of its own.
  \<^item> The queue actor and the bot adaptor around the scheduler, and the Telegram backends of the
    drafter: Tokio channels, futures and network calls.  Their calls into the scheduler and the worker
    are the steps of the transition systems here.
  \<^item> Dispatching, dialogues, update listeners and command parsing: built from closures of the
    application and of the library dptree, or from I/O.
  \<^item> The rich-text frontends of \<open>utils/time\<close>: they rest on the time library jiff and on URL parsing.
  \<^item> Procedural macros and generated code.
\<close>

end
